(* ===== verification/Prelude.thy ===== *)
theory Prelude
  imports Main "HOL-Library.Word" "HOL-Library.Sublist"
begin

text \<open>
  What every component of the backend shares: time and durations as Go has them, the parts of
  the packages strings, strconv and fmt that the code calls, and the environment a handler runs
  in.  The environment holds two oracles that are read one entry at a time: the clock (each
  call of time.Now, and each statement that evaluates NOW(), takes the next reading) and the
  fault of each database call.  Nothing is assumed about either; a lemma that needs an honest
  clock or a working database says so.
\<close>

named_theorems go_env \<open>effects of reading the clock and the fault oracle\<close>
named_theorems go_str \<open>facts about the modelled string functions\<close>

section \<open>Time\<close>

text \<open>
  A time.Time is its number of nanoseconds from the Unix epoch; the zero time.Time is the first
  instant of year 1.  A time.Duration is an int64, so products wrap and Sub saturates.
\<close>

type_synonym time = int
type_synonym duration = int

definition int64_wrap :: "int \<Rightarrow> int" where
  "int64_wrap i = signed_take_bit 63 i"

definition zero_time :: time where
  "zero_time = -62135596800000000000"

definition IsZero :: "time \<Rightarrow> bool" where
  "IsZero t \<longleftrightarrow> t = zero_time"

definition time_Second :: duration where
  "time_Second = 1000000000"

definition time_Minute :: duration where
  "time_Minute = 60 * time_Second"

definition time_Hour :: duration where
  "time_Hour = 60 * time_Minute"

definition time_Sub :: "time \<Rightarrow> time \<Rightarrow> duration" where
  "time_Sub t u = max (- (2 ^ 63)) (min (2 ^ 63 - 1) (t - u))"

definition UnixNano :: "time \<Rightarrow> int" where
  "UnixNano t = int64_wrap t"

lemma int64_wrap_id: "- (2 ^ 63) \<le> i \<Longrightarrow> i < 2 ^ 63 \<Longrightarrow> int64_wrap i = i"
  unfolding int64_wrap_def by (rule signed_take_bit_int_eq_self)

lemma int64_wrap_range: "- (2 ^ 63) \<le> int64_wrap i \<and> int64_wrap i < 2 ^ 63"
  unfolding int64_wrap_def
  using signed_take_bit_int_greater_eq_minus_exp [of 63 i] signed_take_bit_int_less_exp [of 63 i]
  by simp

lemma time_Sub_range: "- (2 ^ 63) \<le> time_Sub t u \<and> time_Sub t u < 2 ^ 63"
  by (simp add: time_Sub_def)

lemma time_Sub_mono: "t \<le> t' \<Longrightarrow> time_Sub t u \<le> time_Sub t' u"
  by (simp add: time_Sub_def)

section \<open>The environment: clock readings and database faults\<close>

text \<open>
  A database call can fail before its statement has run (no connection, a cancelled context),
  after it has run (the answer is lost, the effect stays), or, for a query that streams rows,
  after some rows have been read; pgx reports the last kind through rows.Err().
\<close>

datatype fault = F_ok | F_before | F_after | F_rows nat

datatype dberr = NoRows | Constraint | DBFail

record env =
  clock :: "nat \<Rightarrow> time"
  clock_pos :: nat
  faults :: "nat \<Rightarrow> fault"
  fault_pos :: nat

definition time_Now :: "'a env_scheme \<Rightarrow> time \<times> 'a env_scheme" where
  "time_Now s = (clock s (clock_pos s), s\<lparr>clock_pos := Suc (clock_pos s)\<rparr>)"

definition next_fault :: "'a env_scheme \<Rightarrow> fault \<times> 'a env_scheme" where
  "next_fault s = (faults s (fault_pos s), s\<lparr>fault_pos := Suc (fault_pos s)\<rparr>)"

text \<open>
  A statement that answers with one row or with a count (QueryRow, Exec), and a query that
  streams rows.  The flag of the second is whether rows.Err() reports an error once the rows
  have been read.
\<close>

definition db_run ::
  "('a env_scheme \<Rightarrow> (dberr + 'r) \<times> 'a env_scheme) \<Rightarrow> 'a env_scheme \<Rightarrow> (dberr + 'r) \<times> 'a env_scheme"
where
  "db_run stmt s =
     (case next_fault s of (f, s1) \<Rightarrow>
       (case f of
          F_ok \<Rightarrow> stmt s1
        | F_before \<Rightarrow> (Inl DBFail, s1)
        | _ \<Rightarrow> (Inl DBFail, snd (stmt s1))))"

definition db_Query ::
  "('a env_scheme \<Rightarrow> 'r list) \<Rightarrow> 'a env_scheme \<Rightarrow> (dberr + ('r list \<times> bool)) \<times> 'a env_scheme"
where
  "db_Query q s =
     (case next_fault s of (f, s1) \<Rightarrow>
       ((case f of
           F_ok \<Rightarrow> Inr (q s1, False)
         | F_rows n \<Rightarrow> Inr (take n (q s1), True)
         | _ \<Rightarrow> Inl DBFail), s1))"

definition reliable :: "'a env_scheme \<Rightarrow> bool" where
  "reliable s \<longleftrightarrow> (\<forall>n. faults s n = F_ok)"

lemma time_Now_simps [go_env, simp]:
  "fst (time_Now s) = clock s (clock_pos s)"
  "snd (time_Now s) = s\<lparr>clock_pos := Suc (clock_pos s)\<rparr>"
  by (simp_all add: time_Now_def)

lemma next_fault_simps [go_env, simp]:
  "fst (next_fault s) = faults s (fault_pos s)"
  "snd (next_fault s) = s\<lparr>fault_pos := Suc (fault_pos s)\<rparr>"
  by (simp_all add: next_fault_def)

lemma reliable_fault [simp]: "reliable s \<Longrightarrow> faults s n = F_ok"
  by (simp add: reliable_def)

lemma reliable_pos [simp]:
  "reliable (s\<lparr>fault_pos := n\<rparr>) = reliable s" "reliable (s\<lparr>clock_pos := n\<rparr>) = reliable s"
  by (simp_all add: reliable_def)

lemma db_run_reliable:
  "reliable s \<Longrightarrow> db_run stmt s = stmt (s\<lparr>fault_pos := Suc (fault_pos s)\<rparr>)"
  by (simp add: db_run_def next_fault_def)

lemma db_run_ok:
  "faults s (fault_pos s) = F_ok \<Longrightarrow> db_run stmt s = stmt (s\<lparr>fault_pos := Suc (fault_pos s)\<rparr>)"
  by (simp add: db_run_def next_fault_def)

lemma db_Query_reliable:
  "reliable s \<Longrightarrow> db_Query q s =
     (Inr (q (s\<lparr>fault_pos := Suc (fault_pos s)\<rparr>), False), s\<lparr>fault_pos := Suc (fault_pos s)\<rparr>)"
  by (simp add: db_Query_def next_fault_def)

text \<open>
  A database call moves the state only through its statement: what holds after the oracle has
  advanced and after the statement holds after the call, whatever the fault.
\<close>

lemma db_run_state:
  assumes "P (s\<lparr>fault_pos := Suc (fault_pos s)\<rparr>)"
    and "P (snd (stmt (s\<lparr>fault_pos := Suc (fault_pos s)\<rparr>)))"
  shows "P (snd (db_run stmt s))"
  using assms by (simp add: db_run_def next_fault_def split: fault.splits)

lemma db_run_Inr:
  "db_run stmt s = (Inr r, s') \<Longrightarrow> stmt (s\<lparr>fault_pos := Suc (fault_pos s)\<rparr>) = (Inr r, s')"
  by (simp add: db_run_def next_fault_def split: fault.splits)

lemma db_Query_state [simp]: "snd (db_Query q s) = s\<lparr>fault_pos := Suc (fault_pos s)\<rparr>"
  by (simp add: db_Query_def next_fault_def)

lemma db_Query_rows:
  "fst (db_Query q s) = Inr (rs, e) \<Longrightarrow>
     prefix rs (q (s\<lparr>fault_pos := Suc (fault_pos s)\<rparr>)) \<and>
     (\<not> e \<longrightarrow> rs = q (s\<lparr>fault_pos := Suc (fault_pos s)\<rparr>))"
  by (auto simp: db_Query_def next_fault_def take_is_prefix split: fault.splits)

section \<open>Strings\<close>

text \<open>A Go string is its bytes: a char list, each char a byte.\<close>

definition HasPrefix :: "string \<Rightarrow> string \<Rightarrow> bool" where
  "HasPrefix s p \<longleftrightarrow> take (length p) s = p"

definition TrimPrefix :: "string \<Rightarrow> string \<Rightarrow> string" where
  "TrimPrefix s p = (if HasPrefix s p then drop (length p) s else s)"

text \<open>
  strings.TrimSpace removes the Unicode white space characters at both ends: the six ASCII ones
  and the others in their UTF-8 encoding.
\<close>

definition unicode_spaces :: "string list" where
  "unicode_spaces =
     [[CHR 0x20], [CHR 0x09], [CHR 0x0A], [CHR 0x0B], [CHR 0x0C], [CHR 0x0D],
      [CHR 0xC2, CHR 0x85], [CHR 0xC2, CHR 0xA0], [CHR 0xE1, CHR 0x9A, CHR 0x80],
      [CHR 0xE2, CHR 0x80, CHR 0x80], [CHR 0xE2, CHR 0x80, CHR 0x81], [CHR 0xE2, CHR 0x80, CHR 0x82],
      [CHR 0xE2, CHR 0x80, CHR 0x83], [CHR 0xE2, CHR 0x80, CHR 0x84], [CHR 0xE2, CHR 0x80, CHR 0x85],
      [CHR 0xE2, CHR 0x80, CHR 0x86], [CHR 0xE2, CHR 0x80, CHR 0x87], [CHR 0xE2, CHR 0x80, CHR 0x88],
      [CHR 0xE2, CHR 0x80, CHR 0x89], [CHR 0xE2, CHR 0x80, CHR 0x8A], [CHR 0xE2, CHR 0x80, CHR 0xA8],
      [CHR 0xE2, CHR 0x80, CHR 0xA9], [CHR 0xE2, CHR 0x80, CHR 0xAF], [CHR 0xE2, CHR 0x81, CHR 0x9F],
      [CHR 0xE3, CHR 0x80, CHR 0x80]]"

function trim_with :: "string list \<Rightarrow> string \<Rightarrow> string" where
  "trim_with ps s =
     (case find (\<lambda>p. p \<noteq> [] \<and> take (length p) s = p) ps of
        None \<Rightarrow> s
      | Some p \<Rightarrow> trim_with ps (drop (length p) s))"
  by pat_completeness auto
termination
proof (relation "measure (\<lambda>(ps, s). length s)", goal_cases)
  case 1
  show ?case by simp
next
  case (2 ps s p)
  then have "p \<noteq> []" "take (length p) s = p"
    by (auto simp: find_Some_iff)
  then have "s \<noteq> []" by auto
  with \<open>p \<noteq> []\<close> show ?case by simp
qed

declare trim_with.simps [simp del]

definition TrimSpace :: "string \<Rightarrow> string" where
  "TrimSpace s = rev (trim_with (map rev unicode_spaces) (rev (trim_with unicode_spaces s)))"

fun strings_Split :: "char \<Rightarrow> string \<Rightarrow> string list" where
  "strings_Split c [] = [[]]"
| "strings_Split c (x # xs) =
     (if x = c then [] # strings_Split c xs
      else (case strings_Split c xs of
              [] \<Rightarrow> [[x]]
            | w # ws \<Rightarrow> (x # w) # ws))"

text \<open>The code's \<open>if idx := strings.LastIndex(ip, ":"); idx != -1 { ip = ip[:idx] }\<close>.\<close>

definition cut_last_colon :: "string \<Rightarrow> string" where
  "cut_last_colon s =
     (if CHR '':'' \<in> set s then rev (tl (dropWhile (\<lambda>c. c \<noteq> CHR '':'') (rev s))) else s)"

lemma trim_with_stop:
  "(\<And>p. p \<in> set ps \<Longrightarrow> p \<noteq> [] \<Longrightarrow> take (length p) s \<noteq> p) \<Longrightarrow> trim_with ps s = s"
  by (subst trim_with.simps) (auto split: option.splits simp: find_Some_iff)

lemma trim_with_suffix: "suffix (trim_with ps s) s"
proof (induction ps s rule: trim_with.induct)
  case (1 ps s)
  show ?case
  proof (cases "find (\<lambda>p. p \<noteq> [] \<and> take (length p) s = p) ps")
    case None
    then show ?thesis by (subst trim_with.simps) simp
  next
    case (Some p)
    with "1.IH" have "suffix (trim_with ps (drop (length p) s)) (drop (length p) s)" by simp
    with Some show ?thesis
      by (subst trim_with.simps) (simp add: suffix_order.trans [OF _ suffix_drop])
  qed
qed

lemma cut_last_colon_append [go_str]:
  assumes "CHR '':'' \<notin> set port"
  shows "cut_last_colon (host @ CHR '':'' # port) = host"
proof -
  have "\<And>c. c \<in> set (rev port) \<Longrightarrow> c \<noteq> CHR '':''"
    using assms by auto
  then have "dropWhile (\<lambda>c. c \<noteq> CHR '':'') (rev port @ CHR '':'' # rev host) = CHR '':'' # rev host"
    by (subst dropWhile_append2) auto
  then show ?thesis by (simp add: cut_last_colon_def)
qed

section \<open>Decimal numbers\<close>

definition digit_char :: "nat \<Rightarrow> char" where
  "digit_char d = char_of (48 + d)"

fun show_nat :: "nat \<Rightarrow> string" where
  "show_nat n = (if n < 10 then [digit_char n] else show_nat (n div 10) @ [digit_char (n mod 10)])"

declare show_nat.simps [simp del]

definition show_int :: "int \<Rightarrow> string" where
  "show_int i = (if i < 0 then CHR ''-'' # show_nat (nat (- i)) else show_nat (nat i))"

definition read_nat :: "string \<Rightarrow> nat" where
  "read_nat cs = foldl (\<lambda>a c. 10 * a + (of_char c - 48)) 0 cs"

definition is_digit :: "char \<Rightarrow> bool" where
  "is_digit c \<longleftrightarrow> (48::nat) \<le> of_char c \<and> (of_char c :: nat) \<le> 57"

text \<open>strconv.Atoi on a 64-bit platform; None is its error.\<close>

definition strconv_Atoi :: "string \<Rightarrow> int option" where
  "strconv_Atoi s =
     (let (neg, ds) = (case s of
            [] \<Rightarrow> (False, [])
          | c # cs \<Rightarrow> (if c = CHR ''-'' then (True, cs)
                     else if c = CHR ''+'' then (False, cs) else (False, s)))
      in if ds = [] \<or> \<not> list_all is_digit ds then None
         else let v = (if neg then - int (read_nat ds) else int (read_nat ds))
              in if - (2 ^ 63) \<le> v \<and> v < 2 ^ 63 then Some v else None)"

lemma of_char_digit: "d < 10 \<Longrightarrow> (of_char (digit_char d) :: nat) = 48 + d"
  by (simp add: digit_char_def)

lemma is_digit_digit_char: "d < 10 \<Longrightarrow> is_digit (digit_char d)"
  by (simp add: is_digit_def of_char_digit)

lemma show_nat_not_Nil [go_str, simp]: "show_nat n \<noteq> []"
  by (subst show_nat.simps) simp

lemma show_nat_digits [go_str]: "list_all is_digit (show_nat n)"
proof (induction n rule: show_nat.induct)
  case (1 n)
  then show ?case
    by (subst show_nat.simps) (simp add: is_digit_digit_char)
qed

lemma read_nat_snoc: "read_nat (cs @ [c]) = 10 * read_nat cs + (of_char c - 48)"
  by (simp add: read_nat_def)

lemma read_show_nat [go_str]: "read_nat (show_nat n) = n"
proof (induction n rule: show_nat.induct)
  case (1 n)
  show ?case
  proof (cases "n < 10")
    case True
    then show ?thesis
      by (subst show_nat.simps) (simp add: read_nat_def of_char_digit)
  next
    case False
    then have "read_nat (show_nat n) = 10 * read_nat (show_nat (n div 10)) + n mod 10"
      by (subst show_nat.simps) (simp add: read_nat_snoc of_char_digit)
    with "1.IH" False show ?thesis by simp
  qed
qed

lemma show_nat_inj: "show_nat m = show_nat n \<Longrightarrow> m = n"
  by (metis read_show_nat)

lemma digit_not_sign: "is_digit c \<Longrightarrow> c \<noteq> CHR ''-'' \<and> c \<noteq> CHR ''+'' \<and> c \<noteq> CHR '':''"
  by (auto simp: is_digit_def)

lemma show_nat_chars: "c \<in> set (show_nat n) \<Longrightarrow> is_digit c"
  using show_nat_digits [of n] by (simp add: list_all_iff)

lemma show_nat_hd: "show_nat n = c # cs \<Longrightarrow> is_digit c"
  using show_nat_chars [of c n] by simp

lemma show_int_inj [go_str]: "show_int i = show_int j \<Longrightarrow> i = j"
  by (auto simp: show_int_def split: if_splits
      dest: show_nat_inj show_nat_hd digit_not_sign sym [THEN show_nat_hd])

lemma Atoi_show_int [go_str]:
  assumes "- (2 ^ 63) \<le> i" and "i < 2 ^ 63"
  shows "strconv_Atoi (show_int i) = Some i"
proof (cases "i < 0")
  case True
  with assms show ?thesis
    by (simp add: strconv_Atoi_def show_int_def show_nat_digits read_show_nat)
next
  case False
  obtain c cs where cs: "show_nat (nat i) = c # cs"
    by (cases "show_nat (nat i)") auto
  then have "c \<noteq> CHR ''-''" "c \<noteq> CHR ''+''"
    using show_nat_hd digit_not_sign by blast+
  moreover have "list_all is_digit (c # cs)" "read_nat (c # cs) = nat i"
    using show_nat_digits [of "nat i"] read_show_nat [of "nat i"] by (simp_all add: cs)
  ultimately show ?thesis
    using assms False by (simp add: strconv_Atoi_def show_int_def cs)
qed

lemma Atoi_range: "strconv_Atoi s = Some v \<Longrightarrow> - (2 ^ 63) \<le> v \<and> v < 2 ^ 63"
  by (auto simp: strconv_Atoi_def Let_def split: if_splits prod.splits)

section \<open>Transition systems\<close>

text \<open>
  The contract of an invariant: it holds where a system starts and every step keeps it.  Each
  concurrent part of the backend (hub, delivery workers, overlapping evaluations) interprets
  this with its own step relation.
\<close>

locale invariant_system =
  fixes start :: "'s \<Rightarrow> bool"
    and step :: "'s \<Rightarrow> 's \<Rightarrow> bool"
    and inv :: "'s \<Rightarrow> bool"
  assumes start_inv: "start s \<Longrightarrow> inv s"
    and step_inv: "inv s \<Longrightarrow> step s t \<Longrightarrow> inv t"
begin

lemma steps_inv: "step\<^sup>*\<^sup>* s t \<Longrightarrow> inv s \<Longrightarrow> inv t"
  by (induction rule: rtranclp_induct) (auto intro: step_inv)

lemma reachable_inv: "start s \<Longrightarrow> step\<^sup>*\<^sup>* s t \<Longrightarrow> inv t"
  by (blast intro: start_inv steps_inv)

text \<open>A property that steps keep, given the invariant, survives any continuation.\<close>

lemma steps_stable:
  assumes "\<And>u v. inv u \<Longrightarrow> P u \<Longrightarrow> step u v \<Longrightarrow> P v"
    and "step\<^sup>*\<^sup>* s t" and "inv s" and "P s"
  shows "P t"
  using assms(2)
proof (induction rule: rtranclp_induct)
  case base
  show ?case by (rule assms(4))
next
  case (step u v)
  then show ?case using assms(1,3) steps_inv by blast
qed

end

end
