(* ===== verification/Http.thy ===== *)
theory Http
  imports Prelude
begin

text \<open>
  What the handlers use of net/http: a request with the values its handler reads, and a
  response writer with the headers, the status of the first WriteHeader and the chunks written.
  Decoding a JSON body is encoding/json's: a handler takes the decoder of its request type as an
  argument (the value, with what was filled in before an error, and whether there was an error).
  A response value stands for its JSON encoding.
\<close>

section \<open>Requests\<close>

record request =
  Method :: string
  URL_Path :: string
  RemoteAddr :: string
  Header_Get :: "string \<Rightarrow> string"
  PathValue :: "string \<Rightarrow> string"
  Query_Get :: "string \<Rightarrow> string"
  Body :: string
  ctx_role :: "string option"
  ctx_token :: "string option"
  ctx_request_id :: "string option"

type_synonym 'a decoder = "string \<Rightarrow> 'a \<times> bool"

section \<open>Responses\<close>

text \<open>
  The bodies that are written: plain text, the two shapes of a JSON error (\<open>{"error": m}\<close> and
  \<open>{"error": {"message": m}}\<close>) and a JSON value.
\<close>

datatype 'p body = B_text string | B_error string | B_error_message string | B_json 'p

record 'p response =
  hdr :: "string \<Rightarrow> string list"
  status :: "nat option"
  chunks :: "'p body list"

definition new_response :: "'p response" where
  "new_response = \<lparr>hdr = (\<lambda>_. []), status = None, chunks = []\<rparr>"

definition Header_Set :: "string \<Rightarrow> string \<Rightarrow> 'p response \<Rightarrow> 'p response" where
  "Header_Set k v w = w\<lparr>hdr := (hdr w)(k := [v])\<rparr>"

definition Header_Add :: "string \<Rightarrow> string \<Rightarrow> 'p response \<Rightarrow> 'p response" where
  "Header_Add k v w = w\<lparr>hdr := (hdr w)(k := hdr w k @ [v])\<rparr>"

definition Header_Del :: "string \<Rightarrow> 'p response \<Rightarrow> 'p response" where
  "Header_Del k w = w\<lparr>hdr := (hdr w)(k := [])\<rparr>"

text \<open>The first status sticks; writing a body without one sends 200.\<close>

definition WriteHeader :: "nat \<Rightarrow> 'p response \<Rightarrow> 'p response" where
  "WriteHeader code w = (if status w = None then w\<lparr>status := Some code\<rparr> else w)"

definition Write :: "'p body \<Rightarrow> 'p response \<Rightarrow> 'p response" where
  "Write b w = (WriteHeader 200 w)\<lparr>chunks := chunks w @ [b]\<rparr>"

text \<open>http.Error sets the content type itself, whatever the caller set before.\<close>

definition http_Error :: "string \<Rightarrow> nat \<Rightarrow> 'p response \<Rightarrow> 'p response" where
  "http_Error msg code w =
     Write (B_text (msg @ ''\<newline>''))
       (WriteHeader code
         (Header_Set ''X-Content-Type-Options'' ''nosniff''
           (Header_Set ''Content-Type'' ''text/plain; charset=utf-8''
             (Header_Del ''Content-Length'' w))))"

text \<open>The responders the handler types share (\<open>sendJSON\<close>, \<open>sendError\<close> in its two shapes).\<close>

definition sendJSON :: "nat \<Rightarrow> 'p \<Rightarrow> 'p response \<Rightarrow> 'p response" where
  "sendJSON code v w =
     Write (B_json v) (WriteHeader code (Header_Set ''Content-Type'' ''application/json'' w))"

definition sendError_flat :: "string \<Rightarrow> nat \<Rightarrow> 'p response \<Rightarrow> 'p response" where
  "sendError_flat msg code w =
     Write (B_error msg) (WriteHeader code (Header_Set ''Content-Type'' ''application/json'' w))"

definition sendError_nested :: "string \<Rightarrow> nat \<Rightarrow> 'p response \<Rightarrow> 'p response" where
  "sendError_nested msg code w =
     Write (B_error_message msg)
       (WriteHeader code (Header_Set ''Content-Type'' ''application/json'' w))"

lemmas http_defs =
  new_response_def Header_Set_def Header_Add_def Header_Del_def WriteHeader_def Write_def
  http_Error_def sendJSON_def sendError_flat_def sendError_nested_def

text \<open>Every responder answers a fresh writer with exactly its status.\<close>

lemma responder_status [simp]:
  "status w = None \<Longrightarrow> status (sendJSON c v w) = Some c"
  "status w = None \<Longrightarrow> status (sendError_flat m c w) = Some c"
  "status w = None \<Longrightarrow> status (sendError_nested m c w) = Some c"
  "status w = None \<Longrightarrow> status (http_Error m c w) = Some c"
  "status w = None \<Longrightarrow> status (WriteHeader c w) = Some c"
  "status (new_response :: 'p response) = None"
  by (simp_all add: http_defs)

lemma responder_chunks [simp]:
  "chunks (sendJSON c v w) = chunks w @ [B_json v]"
  "chunks (sendError_flat m c w) = chunks w @ [B_error m]"
  "chunks (sendError_nested m c w) = chunks w @ [B_error_message m]"
  by (simp_all add: http_defs)

lemma header_status [simp]:
  "status (Header_Set k v w) = status w" "status (Header_Add k v w) = status w"
  "status (Header_Del k w) = status w"
  by (simp_all add: http_defs)

text \<open>The content type http.Error leaves is text/plain, whatever was set before.\<close>

lemma http_Error_content_type: "hdr (http_Error m c w) ''Content-Type'' = [''text/plain; charset=utf-8'']"
  by (simp add: http_defs)

lemma sendJSON_content_type: "hdr (sendJSON c v w) ''Content-Type'' = [''application/json'']"
  by (simp add: http_defs)

end
