(* ===== verification/Rate_Limiter.thy ===== *)
theory Rate_Limiter
  imports Http
begin

text \<open>
  The sliding-window rate limiter of internal/middleware/middleware.go (\<open>RateLimiter\<close>,
  \<open>NewRateLimiter\<close>, \<open>Limit\<close>).  The mutex makes one admission atomic, so a run of the limiter is
  a sequence of admissions.  The reference is a limiter that never forgets: it keeps every
  admitted instant and counts those inside the window; the lemmas show that the pruned lists
  of the code decide the same, and bound how many requests any window can let through.
\<close>

section \<open>The limiter\<close>

record limiter =
  requests :: "string \<Rightarrow> time list"
  limit :: int
  window :: duration

definition NewRateLimiter :: "int \<Rightarrow> duration \<Rightarrow> limiter" where
  "NewRateLimiter l w = \<lparr>requests = (\<lambda>_. []), limit = l, window = w\<rparr>"

definition limiter_admit :: "time \<Rightarrow> string \<Rightarrow> limiter \<Rightarrow> bool \<times> limiter" where
  "limiter_admit now ip rl =
     (let cutoff = now - window rl;
          valid = filter (\<lambda>t. t > cutoff) (requests rl ip)
      in if int (length valid) \<ge> limit rl
         then (False, rl\<lparr>requests := (requests rl)(ip := valid)\<rparr>)
         else (True, rl\<lparr>requests := (requests rl)(ip := valid @ [now])\<rparr>))"

text \<open>
  The middleware: the state is the limiter and whatever the wrapped handler works on; the body
  of the 429 is the code's literal.
\<close>

definition rate_limit_body :: string where
  "rate_limit_body =
     ''{\"error\":{\"code\":\"RATE_LIMIT_EXCEEDED\",\"message\":\"too many requests\"}}''"

definition Limit ::
  "('p response \<Rightarrow> request \<Rightarrow> limiter \<times> 'a env_scheme \<Rightarrow> 'p response \<times> (limiter \<times> 'a env_scheme)) \<Rightarrow>
   'p response \<Rightarrow> request \<Rightarrow> limiter \<times> 'a env_scheme \<Rightarrow> 'p response \<times> (limiter \<times> 'a env_scheme)"
where
  "Limit next_h w r st =
     (case st of (rl, s) \<Rightarrow>
       if limit rl \<le> 0 then next_h w r (rl, s)
       else let ip = cut_last_colon (RemoteAddr r) in
         case time_Now s of (now, s1) \<Rightarrow>
           (case limiter_admit now ip rl of (admitted, rl1) \<Rightarrow>
             if admitted then next_h w r (rl1, s1)
             else (http_Error rate_limit_body 429 w, (rl1, s1))))"

section \<open>The reference: a log of every admission\<close>

type_synonym admission_log = "string \<Rightarrow> time list"

definition log_admit :: "int \<Rightarrow> duration \<Rightarrow> time \<Rightarrow> string \<Rightarrow> admission_log \<Rightarrow> bool \<times> admission_log" where
  "log_admit l w now ip lg =
     (if int (length (filter (\<lambda>t. t > now - w) (lg ip))) \<ge> l then (False, lg)
      else (True, lg(ip := lg ip @ [now])))"

text \<open>Runs over a sequence of arrivals (instant, client address).\<close>

fun limiter_run :: "limiter \<Rightarrow> (time \<times> string) list \<Rightarrow> bool list \<times> limiter" where
  "limiter_run rl [] = ([], rl)"
| "limiter_run rl ((now, ip) # evs) =
     (case limiter_admit now ip rl of (a, rl1) \<Rightarrow>
        case limiter_run rl1 evs of (as, rl2) \<Rightarrow> (a # as, rl2))"

fun log_run :: "int \<Rightarrow> duration \<Rightarrow> admission_log \<Rightarrow> (time \<times> string) list \<Rightarrow> bool list \<times> admission_log"
where
  "log_run l w lg [] = ([], lg)"
| "log_run l w lg ((now, ip) # evs) =
     (case log_admit l w now ip lg of (a, lg1) \<Rightarrow>
        case log_run l w lg1 evs of (as, lg2) \<Rightarrow> (a # as, lg2))"

text \<open>
  The coupling: each client's list is what is left of its log above some cut-off that no later
  instant will look below.
\<close>

definition pruned :: "duration \<Rightarrow> time \<Rightarrow> limiter \<Rightarrow> admission_log \<Rightarrow> bool" where
  "pruned w now rl lg \<longleftrightarrow>
     (\<forall>ip. \<exists>c \<le> now - w. requests rl ip = filter (\<lambda>t. t > c) (lg ip))"

lemma filter_above_above: "c \<le> d \<Longrightarrow> filter (\<lambda>t. t > (d::int)) (filter (\<lambda>t. t > c) xs) = filter (\<lambda>t. t > d) xs"
  by (induction xs) auto

lemma prunedE:
  assumes "pruned w t rl lg" and "t \<le> now"
  obtains c where "c \<le> now - w" and "requests rl ip = filter (\<lambda>t. t > c) (lg ip)"
  using assms unfolding pruned_def by (meson diff_right_mono order_trans)

lemma admit_simulates_log:
  assumes inv: "pruned (window rl) t0 rl lg" and le: "t0 \<le> now" and pos: "window rl > 0"
  shows "fst (limiter_admit now ip rl) = fst (log_admit (limit rl) (window rl) now ip lg)"
    and "pruned (window rl) now (snd (limiter_admit now ip rl))
           (snd (log_admit (limit rl) (window rl) now ip lg))"
proof -
  obtain c where "c \<le> now - window rl" "requests rl ip = filter (\<lambda>t. t > c) (lg ip)"
    using inv le by (rule prunedE)
  then have valid: "filter (\<lambda>t. t > now - window rl) (requests rl ip)
      = filter (\<lambda>t. t > now - window rl) (lg ip)"
    by (simp add: filter_above_above del: filter_filter)
  then show "fst (limiter_admit now ip rl) = fst (log_admit (limit rl) (window rl) now ip lg)"
    by (simp add: limiter_admit_def log_admit_def Let_def)
  have "\<exists>c \<le> now - window rl. requests rl jp = filter (\<lambda>t. t > c) (lg jp)" for jp
    using inv le by (rule prunedE) blast
  with valid pos show "pruned (window rl) now (snd (limiter_admit now ip rl))
           (snd (log_admit (limit rl) (window rl) now ip lg))"
    by (auto simp: pruned_def limiter_admit_def log_admit_def Let_def
        intro: exI [of _ "now - window rl"])
qed

lemma limiter_admit_params [simp]:
  "limit (snd (limiter_admit now ip rl)) = limit rl"
  "window (snd (limiter_admit now ip rl)) = window rl"
  by (simp_all add: limiter_admit_def Let_def)

lemma run_simulates_log:
  assumes "pruned (window rl) t0 rl lg" and "window rl > 0"
    and "sorted (t0 # map fst evs)"
  shows "fst (limiter_run rl evs) = fst (log_run (limit rl) (window rl) lg evs)"
  using assms
proof (induction evs arbitrary: t0 rl lg)
  case Nil
  show ?case by simp
next
  case (Cons ev evs)
  obtain now ip where ev: "ev = (now, ip)" by (cases ev)
  obtain a rl1 where a: "limiter_admit now ip rl = (a, rl1)" by (cases "limiter_admit now ip rl")
  obtain b lg1 where b: "log_admit (limit rl) (window rl) now ip lg = (b, lg1)"
    by (cases "log_admit (limit rl) (window rl) now ip lg")
  have le: "t0 \<le> now" using Cons.prems(3) by (simp add: ev)
  note sim = admit_simulates_log [OF Cons.prems(1) le Cons.prems(2), where ip = ip]
  have same: "limit rl1 = limit rl" "window rl1 = window rl"
    using limiter_admit_params [where now = now and ip = ip and rl = rl] by (simp_all add: a)
  have "fst (limiter_run rl1 evs) = fst (log_run (limit rl1) (window rl1) lg1 evs)"
    using sim(2) Cons.prems by (intro Cons.IH [where ?t0.0 = now]) (simp_all add: a b same ev)
  with sim(1) show ?case by (simp add: ev a b same case_prod_beta)
qed

section \<open>How many requests a window lets through\<close>

text \<open>The instants a run admitted for one client.\<close>

fun admitted_for :: "string \<Rightarrow> (time \<times> string) list \<Rightarrow> bool list \<Rightarrow> time list" where
  "admitted_for ip ((now, jp) # evs) (a # as) =
     (if a \<and> jp = ip then now # admitted_for ip evs as else admitted_for ip evs as)"
| "admitted_for ip _ _ = []"

definition in_window :: "duration \<Rightarrow> time \<Rightarrow> time list \<Rightarrow> time list" where
  "in_window w t ts = filter (\<lambda>u. t - w < u \<and> u \<le> t) ts"

definition log_bounded :: "int \<Rightarrow> duration \<Rightarrow> time list \<Rightarrow> bool" where
  "log_bounded l w ts \<longleftrightarrow> (\<forall>t. int (length (in_window w t ts)) \<le> l)"

lemma log_run_log:
  "snd (log_run l w lg evs) ip = lg ip @ admitted_for ip evs (fst (log_run l w lg evs))"
  by (induction evs arbitrary: lg) (auto simp: log_admit_def case_prod_beta)

lemma log_bounded_snoc:
  assumes bd: "log_bounded l w ts" and le: "\<forall>u \<in> set ts. u \<le> now" and w: "w > 0"
    and room: "int (length (filter (\<lambda>t. t > now - w) ts)) < l"
  shows "log_bounded l w (ts @ [now])"
  unfolding log_bounded_def
proof
  fix t
  show "int (length (in_window w t (ts @ [now]))) \<le> l"
  proof (cases "t - w < now \<and> now \<le> t")
    case True
    have "in_window w t ts = filter (\<lambda>u. t - w < u) ts"
      using le True by (auto simp: in_window_def intro!: filter_cong)
    also have "length \<dots> \<le> length (filter (\<lambda>u. u > now - w) ts)"
      using True by (induction ts) auto
    finally show ?thesis using room True by (simp add: in_window_def)
  next
    case False
    then show ?thesis using bd by (auto simp: log_bounded_def in_window_def)
  qed
qed

lemma log_run_bounded:
  assumes "\<forall>ip. log_bounded l w (lg ip) \<and> (\<forall>u \<in> set (lg ip). u \<le> t0)"
    and "w > 0" and "sorted (t0 # map fst evs)"
  shows "log_bounded l w (snd (log_run l w lg evs) ip)"
  using assms
proof (induction evs arbitrary: t0 lg)
  case Nil
  then show ?case by simp
next
  case (Cons ev evs)
  obtain now jp where ev: "ev = (now, jp)" by (cases ev)
  obtain b lg1 where b: "log_admit l w now jp lg = (b, lg1)" by (cases "log_admit l w now jp lg")
  have le: "t0 \<le> now" using Cons.prems(3) by (simp add: ev)
  have old: "log_bounded l w (lg kp) \<and> (\<forall>u \<in> set (lg kp). u \<le> now)" for kp
    using Cons.prems(1) le by (meson order_trans)
  have "log_bounded l w (lg1 kp) \<and> (\<forall>u \<in> set (lg1 kp). u \<le> now)" for kp
  proof (cases "b \<and> kp = jp")
    case True
    then have "lg1 kp = lg kp @ [now]" "int (length (filter (\<lambda>t. t > now - w) (lg kp))) < l"
      using b by (auto simp: log_admit_def split: if_splits)
    then show ?thesis using old [of kp] Cons.prems(2) log_bounded_snoc [of l w "lg kp" now] by auto
  next
    case False
    then have "lg1 kp = lg kp" using b by (auto simp: log_admit_def split: if_splits)
    then show ?thesis using old [of kp] by simp
  qed
  then have "log_bounded l w (snd (log_run l w lg1 evs) ip)"
    using Cons.prems(2,3) by (intro Cons.IH [of lg1 now]) (simp_all add: ev)
  then show ?case by (simp add: ev b case_prod_beta)
qed

lemma pruned_new: "pruned w t (NewRateLimiter l w) (\<lambda>_. [])"
  by (auto simp: pruned_def NewRateLimiter_def)

lemma new_params [simp]:
  "limit (NewRateLimiter l w) = l" "window (NewRateLimiter l w) = w"
  by (simp_all add: NewRateLimiter_def)

text \<open>
  C22: The rate limiter keeps its promise.  In any run of arrivals in time order at a fresh limiter
  with a positive window (the requests that \<open>Limit\<close> hands to \<open>limiter_admit\<close>; with a limit of 0 it
  hands it none, since it limits nothing), no window-long interval contains more than the
  limit's number of admitted requests of one client, wherever the interval lies and however the
  arrivals of other clients are interleaved.
\<close>

theorem rate_limit_window_bound:
  assumes "0 < w" and "0 \<le> l" and "sorted (map fst evs)"
  shows "int (length (in_window w t
           (admitted_for ip evs (fst (limiter_run (NewRateLimiter l w) evs))))) \<le> l"
proof (cases evs)
  case Nil
  then show ?thesis using assms(2) by (simp add: in_window_def)
next
  case (Cons ev evs')
  define t0 where "t0 = fst ev"
  have srt: "sorted (t0 # map fst evs)" using assms(3) by (simp add: Cons t0_def)
  have "fst (limiter_run (NewRateLimiter l w) evs) = fst (log_run l w (\<lambda>_. []) evs)"
    using run_simulates_log [of "NewRateLimiter l w" t0 "\<lambda>_. []" evs] assms(1) srt
    by (simp add: pruned_new)
  moreover have "log_bounded l w (snd (log_run l w (\<lambda>_. []) evs) ip)"
    using assms(1,2) srt
    by (intro log_run_bounded [of _ _ _ t0]) (simp_all add: log_bounded_def in_window_def)
  ultimately show ?thesis by (simp add: log_run_log log_bounded_def)
qed

text \<open>
  C9: Pruning is invisible.  The limiter, which forgets instants that have left the window,
  answers every arrival of a run in time order exactly as the reference that keeps the whole
  admission log.
\<close>

theorem rate_limiter_equals_log:
  assumes "0 < w" and "sorted (map fst evs)"
  shows "fst (limiter_run (NewRateLimiter l w) evs) = fst (log_run l w (\<lambda>_. []) evs)"
proof (cases evs)
  case Nil
  then show ?thesis by simp
next
  case (Cons ev evs')
  then show ?thesis
    using run_simulates_log [of "NewRateLimiter l w" "fst ev" "\<lambda>_. []" evs] assms
    by (simp add: pruned_new)
qed

definition demo_arrivals :: "(time \<times> string) list" where
  "demo_arrivals = [(0, ''c''), (5, ''c''), (6, ''d''), (7, ''c''), (12, ''c'')]"

theorem rate_limit_window_bound_witness:
  "int (length (in_window 10 7
     (admitted_for ''c'' demo_arrivals (fst (limiter_run (NewRateLimiter 2 10) demo_arrivals))))) \<le> 2"
  using rate_limit_window_bound [of 10 2 demo_arrivals 7 "''c''"] by (simp add: demo_arrivals_def)

theorem rate_limiter_equals_log_witness:
  "fst (log_run 2 10 (\<lambda>_. []) demo_arrivals) = [True, True, True, False, True]"
  using rate_limiter_equals_log [of 10 demo_arrivals 2]
  by (simp add: demo_arrivals_def limiter_admit_def NewRateLimiter_def)

end
