(* ===== verification/Cors.thy ===== *)
theory Cors
  imports Http
begin

text \<open>
  The CORS and request-id middleware of internal/middleware/middleware.go.  A handler takes the
  response writer, the request and the state, and gives back both; the allowed-origins
  configuration is the string of OPSNEXUS_CORS_ORIGINS.
\<close>

section \<open>CORS\<close>

text \<open>The \<open>for\<close> loop over the configured origins, with its \<open>break\<close>.\<close>

fun match_origin :: "string \<Rightarrow> string list \<Rightarrow> string" where
  "match_origin origin [] = ''''"
| "match_origin origin (x # xs) = (if TrimSpace x = origin then origin else match_origin origin xs)"

definition cors_allow :: "string \<Rightarrow> string \<Rightarrow> string" where
  "cors_allow allowedOrigins origin =
     (if allowedOrigins \<noteq> ''*'' \<and> allowedOrigins \<noteq> ''''
      then match_origin origin (strings_Split (CHR '','') allowedOrigins)
      else ''*'')"

definition CORS ::
  "string \<Rightarrow> ('p response \<Rightarrow> request \<Rightarrow> 's \<Rightarrow> 'p response \<times> 's) \<Rightarrow>
   'p response \<Rightarrow> request \<Rightarrow> 's \<Rightarrow> 'p response \<times> 's"
where
  "CORS allowedOrigins next_h w r s =
     (let origin = TrimSpace (Header_Get r ''Origin'');
          allow = cors_allow allowedOrigins origin;
          w1 = (if allow \<noteq> '''' then
                  Header_Set ''Access-Control-Allow-Headers''
                    ''Content-Type, Authorization, X-Request-ID, Accept''
                   (Header_Set ''Access-Control-Allow-Methods'' ''GET, POST, PUT, DELETE, OPTIONS''
                     (Header_Add ''Vary'' ''Origin''
                       (Header_Set ''Access-Control-Allow-Origin'' allow w)))
                else w)
      in if Method r = ''OPTIONS'' then
           (if allow = '''' then (http_Error ''origin not allowed'' 403 w1, s)
            else (WriteHeader 204 (Header_Add ''Vary'' ''Origin'' w1), s))
         else next_h w1 r s)"

section \<open>Request ids\<close>

text \<open>The random id is the argument \<open>fresh\<close>: the hex digits of the eight bytes rand.Read gave.\<close>

definition RequestID ::
  "string \<Rightarrow> ('p response \<Rightarrow> request \<Rightarrow> 's \<Rightarrow> 'p response \<times> 's) \<Rightarrow>
   'p response \<Rightarrow> request \<Rightarrow> 's \<Rightarrow> 'p response \<times> 's"
where
  "RequestID fresh next_h w r s =
     (let given = Header_Get r ''X-Request-ID'';
          reqID = (if given = '''' then fresh else given)
      in next_h (Header_Set ''X-Request-ID'' reqID w) (r\<lparr>ctx_request_id := Some reqID\<rparr>) s)"

text \<open>Logging changes neither the response nor the state; it only writes a debug record.\<close>

definition Logging ::
  "('p response \<Rightarrow> request \<Rightarrow> 's \<Rightarrow> 'p response \<times> 's) \<Rightarrow>
   'p response \<Rightarrow> request \<Rightarrow> 's \<Rightarrow> 'p response \<times> 's"
where
  "Logging next_h w r s = next_h w r s"

section \<open>Lemmas\<close>

lemma match_origin_eq: "match_origin origin xs = (if origin \<in> TrimSpace ` set xs then origin else '''')"
  by (induction xs) auto

lemma cors_allow_listed:
  "ao \<noteq> ''*'' \<Longrightarrow> ao \<noteq> '''' \<Longrightarrow> cors_allow ao origin \<noteq> '''' \<Longrightarrow>
     cors_allow ao origin = origin \<and> origin \<in> TrimSpace ` set (strings_Split (CHR '','') ao)"
  by (auto simp: cors_allow_def match_origin_eq split: if_splits)

text \<open>What CORS hands on to the next handler: the request and the state as they came.\<close>

lemma CORS_next:
  "Method r \<noteq> ''OPTIONS'' \<Longrightarrow> \<exists>w'. CORS ao next_h w r s = next_h w' r s \<and> status w' = status w"
  by (auto simp: CORS_def Let_def)

text \<open>
  C25: An origin is echoed only if it is configured.  With a configured list (not the wildcard),
  the Access-Control-Allow-Origin header of an answer to a preflight request is absent or is the
  request's own trimmed origin, which then is one of the trimmed entries of the list; the answer
  is 204 in the second case and 403 in the first, and the handler behind is not called.
\<close>

theorem cors_preflight:
  assumes "Method r = ''OPTIONS''" and "ao \<noteq> ''*''" and "ao \<noteq> ''''"
    and "status w = None" and "hdr w ''Access-Control-Allow-Origin'' = []"
  shows "case CORS ao next_h w r s of (w', s') \<Rightarrow>
           s' = s \<and>
           (let origin = TrimSpace (Header_Get r ''Origin'');
                listed = (origin \<noteq> '''' \<and> origin \<in> TrimSpace ` set (strings_Split (CHR '','') ao))
            in hdr w' ''Access-Control-Allow-Origin'' = (if listed then [origin] else []) \<and>
               status w' = Some (if listed then 204 else 403))"
  using assms by (auto simp: CORS_def Let_def cors_allow_def match_origin_eq http_defs)

definition preflight :: "string \<Rightarrow> request" where
  "preflight origin = \<lparr>Method = ''OPTIONS'', URL_Path = ''/'', RemoteAddr = '''',
     Header_Get = (\<lambda>k. if k = ''Origin'' then origin else ''''), PathValue = (\<lambda>_. ''''),
     Query_Get = (\<lambda>_. ''''), Body = '''', ctx_role = None, ctx_token = None, ctx_request_id = None\<rparr>"

theorem cors_preflight_witness:
  "status (fst (CORS ''http://a, http://b'' (\<lambda>w r s. (w, s)) (new_response :: unit response)
     (preflight ''http://b'') (0::nat))) = Some 204"
proof -
  have "TrimSpace ''http://b'' = ''http://b''"
    and "''http://b'' \<in> TrimSpace ` set (strings_Split (CHR '','') ''http://a, http://b'')"
    by code_simp+
  then show ?thesis
    using cors_preflight [where r = "preflight ''http://b''" and ao = "''http://a, http://b''" and
        w = "new_response :: unit response" and next_h = "\<lambda>w r s. (w, s)" and s = "0::nat"]
    by (simp add: preflight_def new_response_def case_prod_beta)
qed

end
