(* ===== verification/Go_Float.thy ===== *)
theory Go_Float
  imports Complex_Main Prelude "HOL-Library.Log_Nat"
begin

text \<open>
  The float64 of the metrics, the thresholds and the statistics: IEEE binary64 with round to
  nearest, ties to even.  A finite number is the rational it denotes (the two zeros are one),
  and an operation rounds the exact rational result, so equal computations give equal bits.
\<close>

datatype float64 = Fin rat | PosInf | NegInf | NaN

section \<open>Rounding\<close>

definition round_half_even :: "rat \<Rightarrow> int" where
  "round_half_even q =
     (let f = floor q; r = q - of_int f
      in if r < 1 / 2 then f else if r > 1 / 2 then f + 1 else if even f then f else f + 1)"

definition pow2 :: "int \<Rightarrow> rat" where
  "pow2 k = (if 0 \<le> k then 2 ^ nat k else 1 / 2 ^ nat (- k))"

text \<open>The exponent of a positive rational: the \<open>e\<close> with \<open>2^e \<le> q < 2^(e+1)\<close>.\<close>

definition exponent :: "rat \<Rightarrow> int" where
  "exponent q =
     (case quotient_of q of (n, d) \<Rightarrow>
        let k = bitlen n - bitlen d in if pow2 k \<le> q then k else k - 1)"

definition round_pos :: "rat \<Rightarrow> float64" where
  "round_pos q =
     (let k = max (exponent q - 52) (- 1074);
          v = of_int (round_half_even (q / pow2 k)) * pow2 k
      in if pow2 1024 \<le> v then PosInf else Fin v)"

fun fl_neg :: "float64 \<Rightarrow> float64" where
  "fl_neg (Fin q) = Fin (- q)"
| "fl_neg PosInf = NegInf"
| "fl_neg NegInf = PosInf"
| "fl_neg NaN = NaN"

definition round64 :: "rat \<Rightarrow> float64" where
  "round64 q = (if q = 0 then Fin 0 else if q > 0 then round_pos q else fl_neg (round_pos (- q)))"

section \<open>Comparisons and arithmetic\<close>

fun fl_less :: "float64 \<Rightarrow> float64 \<Rightarrow> bool" where
  "fl_less (Fin a) (Fin b) \<longleftrightarrow> a < b"
| "fl_less (Fin a) PosInf \<longleftrightarrow> True"
| "fl_less NegInf (Fin b) \<longleftrightarrow> True"
| "fl_less NegInf PosInf \<longleftrightarrow> True"
| "fl_less _ _ \<longleftrightarrow> False"

fun fl_eq :: "float64 \<Rightarrow> float64 \<Rightarrow> bool" where
  "fl_eq (Fin a) (Fin b) \<longleftrightarrow> a = b"
| "fl_eq PosInf PosInf \<longleftrightarrow> True"
| "fl_eq NegInf NegInf \<longleftrightarrow> True"
| "fl_eq _ _ \<longleftrightarrow> False"

definition fl_le :: "float64 \<Rightarrow> float64 \<Rightarrow> bool" where
  "fl_le a b \<longleftrightarrow> fl_less a b \<or> fl_eq a b"

fun fl_add :: "float64 \<Rightarrow> float64 \<Rightarrow> float64" where
  "fl_add (Fin a) (Fin b) = round64 (a + b)"
| "fl_add NaN _ = NaN"
| "fl_add _ NaN = NaN"
| "fl_add PosInf NegInf = NaN"
| "fl_add NegInf PosInf = NaN"
| "fl_add PosInf _ = PosInf"
| "fl_add _ PosInf = PosInf"
| "fl_add NegInf _ = NegInf"
| "fl_add _ NegInf = NegInf"

text \<open>Division by a positive finite number, the only one in the code (a sample count).\<close>

fun fl_div_count :: "float64 \<Rightarrow> nat \<Rightarrow> float64" where
  "fl_div_count (Fin a) n = round64 (a / of_nat n)"
| "fl_div_count PosInf n = PosInf"
| "fl_div_count NegInf n = NegInf"
| "fl_div_count NaN n = NaN"

definition fl_of_int :: "int \<Rightarrow> float64" where
  "fl_of_int i = round64 (of_int i)"

lemma fl_less_irrefl [simp]: "\<not> fl_less a a"
  by (cases a) auto

lemma fl_less_trans: "fl_less a b \<Longrightarrow> fl_less b c \<Longrightarrow> fl_less a c"
  by (cases a; cases b; cases c) auto

lemma fl_less_asym: "fl_less a b \<Longrightarrow> \<not> fl_less b a"
  using fl_less_trans by fastforce

lemma fl_trichotomy: "a \<noteq> NaN \<Longrightarrow> b \<noteq> NaN \<Longrightarrow> fl_less a b \<or> fl_eq a b \<or> fl_less b a"
  by (cases a; cases b) auto

lemma fl_NaN [simp]:
  "\<not> fl_less NaN b" "\<not> fl_less a NaN" "\<not> fl_eq NaN b" "\<not> fl_eq a NaN"
  "\<not> fl_le NaN b" "\<not> fl_le a NaN"
  by (cases a; cases b; simp add: fl_le_def)+

lemma fl_eq_iff: "fl_eq a b \<longleftrightarrow> a = b \<and> a \<noteq> NaN"
  by (cases a; cases b) auto

lemma fl_le_Fin [simp]: "fl_le (Fin a) (Fin b) \<longleftrightarrow> a \<le> b"
  by (auto simp: fl_le_def)

lemma round_half_even_of_int [simp]: "round_half_even (of_int i) = i"
  by (simp add: round_half_even_def)

section \<open>The rounding error\<close>

lemma pow2_powi: "pow2 k = 2 powi k"
  by (simp add: pow2_def power_int_def power_one_over inverse_eq_divide)

lemma pow2_pos [simp]: "0 < pow2 k" "0 \<le> pow2 k" "pow2 k \<noteq> 0" "\<bar>pow2 k\<bar> = pow2 k"
  by (simp_all add: pow2_def)

lemma pow2_mono: "a \<le> b \<Longrightarrow> pow2 a \<le> pow2 b"
  unfolding pow2_powi by (rule power_int_increasing) simp_all

lemma pow2_less: "pow2 a < pow2 b \<Longrightarrow> a < b"
  using pow2_mono [of b a] by linarith

lemma pow2_add: "pow2 (a + b) = pow2 a * pow2 b"
  unfolding pow2_powi by (rule power_int_add) simp

lemma pow2_nat: "pow2 (int n) = 2 ^ n"
  by (simp add: pow2_def)

text \<open>The exponent is not too large.\<close>

lemma exponent_le:
  assumes "0 < q"
  shows "pow2 (exponent q) \<le> q"
proof -
  obtain n d where nd: "quotient_of q = (n, d)" by fastforce
  then have q: "q = of_int n / of_int d" and d: "0 < d" by (auto intro: quotient_of_div quotient_of_denom_pos)
  then have n: "0 < n" using assms by (simp add: zero_less_divide_iff)
  have "2 ^ nat (bitlen n - 1) \<le> n" "d < 2 ^ nat (bitlen d)"
    using bitlen_bounds [OF n] bitlen_bounds [OF d] by simp_all
  then have "of_int (2 ^ nat (bitlen n - 1)) \<le> (of_int n :: rat)" "of_int d \<le> (of_int (2 ^ nat (bitlen d)) :: rat)"
    unfolding of_int_le_iff by simp_all
  moreover have "0 \<le> bitlen n - 1" using n bitlen_nonneg [of n] bitlen_eq_zero_iff [of n] by linarith
  moreover have "0 \<le> bitlen d" by (rule bitlen_nonneg)
  ultimately have "pow2 (bitlen n - 1) \<le> of_int n" "of_int d \<le> pow2 (bitlen d)" 
    by (simp_all add: pow2_def)
  then have "pow2 (bitlen n - 1) / pow2 (bitlen d) \<le> q" unfolding q using d n
    by (intro frac_le) simp_all
  moreover have "pow2 (bitlen n - 1) / pow2 (bitlen d) = pow2 (bitlen n - bitlen d - 1)"
    using pow2_add [of "bitlen n - bitlen d - 1" "bitlen d"] pow2_pos [of "bitlen d"] by simp
  ultimately have "pow2 (bitlen n - bitlen d - 1) \<le> q" by simp
  then show ?thesis by (simp add: exponent_def nd Let_def)
qed

lemma round_half_even_error: "\<bar>of_int (round_half_even x) - x\<bar> \<le> 1 / 2"
proof -
  have "of_int \<lfloor>x\<rfloor> \<le> x" "x < of_int \<lfloor>x\<rfloor> + 1" by linarith+
  then show ?thesis unfolding round_half_even_def Let_def abs_if by (simp split: if_splits) linarith?
qed

text \<open>Rounding a positive number below a power of two is off by at most half a unit.\<close>

lemma round64_error:
  assumes "0 < q" and "q < pow2 (m + 1)" and "- 1022 \<le> m" and "m < 1023"
  shows "\<exists>v. round64 q = Fin v \<and> \<bar>v - q\<bar> \<le> pow2 (m - 53)"
proof -
  have "exponent q < m + 1" using exponent_le [OF assms(1)] assms(2) by (intro pow2_less) linarith
  then have k: "max (exponent q - 52) (- 1074) \<le> m - 52" using assms(3) by simp
  define e where "e = max (exponent q - 52) (- 1074)"
  define v where "v = of_int (round_half_even (q / pow2 e)) * pow2 e"
  have "\<bar>v - q\<bar> = \<bar>of_int (round_half_even (q / pow2 e)) - q / pow2 e\<bar> * pow2 e"
  proof -
    have "v - q = (of_int (round_half_even (q / pow2 e)) - q / pow2 e) * pow2 e"
      using pow2_pos [of e] by (simp add: v_def left_diff_distrib less_imp_neq [symmetric])
    then show ?thesis using pow2_pos [of e] by (simp add: abs_mult)
  qed
  also have "\<dots> \<le> 1 / 2 * pow2 e" using round_half_even_error [of "q / pow2 e"] by (intro mult_right_mono) simp_all
  also have "\<dots> \<le> 1 / 2 * pow2 (m - 52)" using k by (simp add: e_def pow2_mono)
  also have "\<dots> = pow2 (m - 53)" using pow2_add [of "m - 53" 1] by (simp add: pow2_def [of 1])
  finally have err: "\<bar>v - q\<bar> \<le> pow2 (m - 53)" .
  have "pow2 (m - 53) \<le> pow2 m" "pow2 (m + 1) \<le> pow2 1023" using assms(4) by (simp_all add: pow2_mono)
  then have "pow2 (m - 53) + q < pow2 1024"
    using assms(2,4) pow2_mono [of m 1023] pow2_add [of 1023 1] by (simp add: pow2_def [of 1])
  then have "\<not> pow2 1024 \<le> v" using err by linarith
  then show ?thesis
    using assms(1) err by (simp add: round64_def round_pos_def Let_def e_def [symmetric] v_def [symmetric])
qed

text \<open>Integers below 2^53 are exact.\<close>

lemma round64_int:
  assumes "0 \<le> i" and "i < 2 ^ 53"
  shows "round64 (of_int i) = Fin (of_int i)"
proof (cases "i = 0")
  case True
  then show ?thesis by (simp add: round64_def)
next
  case False
  with assms have i: "0 < i" by simp
  have "bitlen i \<le> 53" using bitlen_le_iff_power [of i 53] assms by simp
  moreover have "quotient_of (of_int i) = (i, 1)" "bitlen 1 = 1" by (simp_all add: bitlen_alt_def)
  ultimately have ex: "exponent (of_int i) \<le> 52" by (simp add: exponent_def Let_def)
  define e where "e = max (exponent (of_int i) - 52) (- 1074)"
  have e: "e \<le> 0" using ex by (simp add: e_def)
  have "(of_int i :: rat) / pow2 e = of_int (i * 2 ^ nat (- e))"
    using e by (cases "e = 0") (simp_all add: pow2_def)
  then have "round_half_even (of_int i / pow2 e) = i * 2 ^ nat (- e)" by (simp only: round_half_even_of_int)
  then have "of_int (round_half_even (of_int i / pow2 e)) * pow2 e = of_int i"
    using e by (cases "e = 0") (simp_all add: pow2_def)
  moreover have "(of_int i :: rat) < pow2 1024"
  proof -
    have "of_int i < (of_int (2 ^ 53) :: rat)" using assms(2) unfolding of_int_less_iff .
    also have "\<dots> = pow2 53" by (simp add: pow2_def)
    also have "\<dots> \<le> pow2 1024" by (rule pow2_mono) simp
    finally show ?thesis .
  qed
  ultimately have "round_pos (of_int i) = Fin (of_int i)"
    unfolding round_pos_def Let_def e_def [symmetric] by simp
  then show ?thesis using i by (simp add: round64_def)
qed

section \<open>Printing\<close>

text \<open>The verb \<open>%.1f\<close> of fmt: the exact binary value rounded to one decimal, ties to even.\<close>

fun fmt_f1 :: "float64 \<Rightarrow> string" where
  "fmt_f1 (Fin q) =
     (let m = nat (round_half_even (\<bar>q\<bar> * 10))
      in (if q < 0 then ''-'' else '''') @ show_nat (m div 10) @ ''.'' @ show_nat (m mod 10))"
| "fmt_f1 PosInf = ''+Inf''"
| "fmt_f1 NegInf = ''-Inf''"
| "fmt_f1 NaN = ''NaN''"

end
