(* ===== verification/Go_Any.thy ===== *)
theory Go_Any
  imports Go_Float
begin

text \<open>
  Values of the Go type \<open>any\<close> as the telemetry payload carries them: what encoding/json decodes
  into a \<open>map[string]any\<close> (nil, bool, float64, string, slices and maps), and the other number
  types the metric readers have cases for.  A map is an association list whose first entry for
  a key counts.
\<close>

datatype goany =
    GNil
  | GBool bool
  | GFloat64 float64
  | GFloat32 float64
  | GInt int
  | GInt64 int
  | GUint64 int
  | GString string
  | GMap "(string \<times> goany) list"
  | GSlice "goany list"

text \<open>The type assertions \<open>v.(map[string]any)\<close> and \<open>v.([]any)\<close>, and indexing a map: a missing key gives nil.\<close>

fun as_map :: "goany \<Rightarrow> (string \<times> goany) list option" where
  "as_map (GMap m) = Some m"
| "as_map _ = None"

fun as_slice :: "goany \<Rightarrow> goany list option" where
  "as_slice (GSlice vs) = Some vs"
| "as_slice _ = None"

definition map_index :: "(string \<times> goany) list \<Rightarrow> string \<Rightarrow> goany" where
  "map_index m k = (case map_of m k of Some v \<Rightarrow> v | None \<Rightarrow> GNil)"

lemma as_map_Some: "as_map v = Some m \<longleftrightarrow> v = GMap m"
  by (cases v) auto

lemma as_slice_Some: "as_slice v = Some vs \<longleftrightarrow> v = GSlice vs"
  by (cases v) auto

lemma as_map_map_index: "as_map (map_index m k) = Some m' \<longleftrightarrow> map_of m k = Some (GMap m')"
  by (auto simp: map_index_def as_map_Some split: option.splits)

end
