(* ===== verification/Database.thy ===== *)
theory Database
  imports Go_Any
begin

text \<open>
  The PostgreSQL database of internal/database/migrations: one list of rows per table, in the
  order of insertion, with the primary keys, unique columns, references and cascades the
  migrations declare.  The structs of the packages (\<open>AlertRule\<close>, \<open>Alert\<close>, \<open>Channel\<close>,
  \<open>Delivery\<close>, \<open>APIToken\<close>, and the models of opsnexus-common with the fields the code uses) are
  records.  Repository functions are statements over these tables run through \<open>db_run\<close> and
  \<open>db_Query\<close>, which add the faults of the connection.
\<close>

section \<open>Structs and rows\<close>

record AgentRegistration =
  rg_ID :: string
  rg_Name :: string
  rg_Hostname :: string
  rg_OS :: string
  rg_Arch :: string
  rg_Version :: string

record Agent =
  ag_ID :: string
  ag_Name :: string
  ag_Hostname :: string
  ag_OS :: string
  ag_Arch :: string
  ag_Version :: string
  ag_Status :: string
  ag_LastSeen :: time
  ag_CreatedAt :: time

text \<open>The metrics of a payload are a \<open>map[string]any\<close>, which is nil when the field was missing.\<close>

record AgentTelemetry =
  at_AgentID :: string
  at_Timestamp :: time
  at_Metrics :: "(string \<times> goany) list option"

record TelemetryRecord =
  tr_AgentID :: string
  tr_Timestamp :: time
  tr_Metrics :: "(string \<times> goany) list"
  tr_CreatedAt :: time

record AlertRule =
  ru_ID :: string
  ru_Name :: string
  ru_Metric :: string
  ru_Operator :: string
  ru_Threshold :: float64
  ru_DurationSeconds :: int
  ru_ForDurationSeconds :: int
  ru_CooldownSeconds :: int
  ru_Severity :: string
  ru_Enabled :: bool
  ru_CreatedAt :: time
  ru_UpdatedAt :: time

record Alert =
  al_ID :: string
  al_RuleID :: string
  al_AgentID :: string
  al_RuleName :: string
  al_Severity :: string
  al_Status :: string
  al_StartedAt :: time
  al_AcknowledgedAt :: "time option"
  al_AcknowledgedBy :: string
  al_AcknowledgedComment :: string
  al_ResolvedAt :: "time option"
  al_LastValue :: float64
  al_Message :: string
  al_CreatedAt :: time
  al_UpdatedAt :: time

record alert_row =
  ar_id :: string
  ar_rule_id :: string
  ar_agent_id :: string
  ar_status :: string
  ar_started_at :: time
  ar_acknowledged_at :: "time option"
  ar_acknowledged_by :: "string option"
  ar_acknowledged_comment :: "string option"
  ar_resolved_at :: "time option"
  ar_last_value :: float64
  ar_message :: string
  ar_created_at :: time
  ar_updated_at :: time

record AlertComment =
  cm_ID :: string
  cm_AlertID :: string
  cm_AuthorID :: string
  cm_Comment :: string
  cm_CreatedAt :: time

record Channel =
  cn_ID :: string
  cn_Name :: string
  cn_Type :: string
  cn_URL :: string
  cn_Secret :: string
  cn_Enabled :: bool
  cn_CreatedAt :: time
  cn_UpdatedAt :: time

record Delivery =
  de_ID :: string
  de_ChannelID :: string
  de_AlertID :: string
  de_EventType :: string
  de_Status :: string
  de_Attempts :: int
  de_ResponseStatus :: int
  de_ErrorMessage :: string
  de_CreatedAt :: time
  de_SentAt :: "time option"

record APIToken =
  tk_ID :: string
  tk_Name :: string
  tk_TokenHash :: string
  tk_Role :: string
  tk_Enabled :: bool
  tk_CreatedAt :: time
  tk_LastUsedAt :: "time option"
  tk_ExpiresAt :: "time option"

record hourly_row =
  ho_agent_id :: string
  ho_bucket_start :: time
  ho_cpu_avg :: float64
  ho_cpu_min :: float64
  ho_cpu_max :: float64
  ho_memory_avg :: float64
  ho_memory_min :: float64
  ho_memory_max :: float64
  ho_disk_avg :: float64
  ho_network_received :: int
  ho_network_sent :: int
  ho_sample_count :: int

section \<open>The tables\<close>

record db_env = env +
  agents :: "Agent list"
  telemetry :: "TelemetryRecord list"
  alert_rules :: "AlertRule list"
  alerts :: "alert_row list"
  alert_comments :: "AlertComment list"
  notification_channels :: "Channel list"
  notification_deliveries :: "Delivery list"
  api_tokens :: "APIToken list"
  telemetry_hourly :: "hourly_row list"

text \<open>What the statements have in common: a column of 32 bits, and UPDATE with RETURNING.\<close>

definition int4 :: "int \<Rightarrow> bool" where
  "int4 i \<longleftrightarrow> - (2 ^ 31) \<le> i \<and> i < 2 ^ 31"

definition update_returning ::
  "('r \<Rightarrow> bool) \<Rightarrow> ('r \<Rightarrow> 'r) \<Rightarrow> 'r list \<Rightarrow> (dberr + 'r) \<times> 'r list"
where
  "update_returning P f rows =
     (case filter P rows of
        [] \<Rightarrow> (Inl NoRows, rows)
      | r # _ \<Rightarrow> (Inr (f r), map (\<lambda>r. if P r then f r else r) rows))"

definition select_one :: "('r \<Rightarrow> bool) \<Rightarrow> 'r list \<Rightarrow> dberr + 'r" where
  "select_one P rows = (case filter P rows of [] \<Rightarrow> Inl NoRows | r # _ \<Rightarrow> Inr r)"

text \<open>ON DELETE CASCADE from alerts to their comments and deliveries.\<close>

definition delete_alerts :: "(alert_row \<Rightarrow> bool) \<Rightarrow> 'a db_env_scheme \<Rightarrow> 'a db_env_scheme" where
  "delete_alerts P s =
     (let gone = ar_id ` set (filter P (alerts s)) in
      s\<lparr>alerts := filter (\<lambda>a. \<not> P a) (alerts s),
        alert_comments := filter (\<lambda>c. cm_AlertID c \<notin> gone) (alert_comments s),
        notification_deliveries := filter (\<lambda>d. de_AlertID d \<notin> gone) (notification_deliveries s)\<rparr>)"

section \<open>What the schema guarantees\<close>

definition keys_ok :: "'a db_env_scheme \<Rightarrow> bool" where
  "keys_ok s \<longleftrightarrow>
     distinct (map ag_ID (agents s)) \<and> distinct (map ru_ID (alert_rules s)) \<and>
     distinct (map ar_id (alerts s)) \<and> distinct (map cm_ID (alert_comments s)) \<and>
     distinct (map cn_ID (notification_channels s)) \<and>
     distinct (map de_ID (notification_deliveries s)) \<and>
     distinct (map tk_ID (api_tokens s)) \<and> distinct (map tk_TokenHash (api_tokens s)) \<and>
     distinct (map (\<lambda>h. (ho_agent_id h, ho_bucket_start h)) (telemetry_hourly s))"

definition refs_ok :: "'a db_env_scheme \<Rightarrow> bool" where
  "refs_ok s \<longleftrightarrow>
     tr_AgentID ` set (telemetry s) \<subseteq> ag_ID ` set (agents s) \<and>
     ar_rule_id ` set (alerts s) \<subseteq> ru_ID ` set (alert_rules s) \<and>
     ar_agent_id ` set (alerts s) \<subseteq> ag_ID ` set (agents s) \<and>
     cm_AlertID ` set (alert_comments s) \<subseteq> ar_id ` set (alerts s) \<and>
     de_ChannelID ` set (notification_deliveries s) \<subseteq> cn_ID ` set (notification_channels s) \<and>
     de_AlertID ` set (notification_deliveries s) \<subseteq> ar_id ` set (alerts s) \<and>
     ho_agent_id ` set (telemetry_hourly s) \<subseteq> ag_ID ` set (agents s)"

definition schema_ok :: "'a db_env_scheme \<Rightarrow> bool" where
  "schema_ok s \<longleftrightarrow> keys_ok s \<and> refs_ok s"

named_theorems schema_intro \<open>operations keep the keys and references of the schema\<close>

lemmas schema_defs = schema_ok_def keys_ok_def refs_ok_def

lemma schema_ok_positions [simp]:
  "schema_ok (s\<lparr>clock_pos := n\<rparr>) = schema_ok s"
  "schema_ok (s\<lparr>fault_pos := n\<rparr>) = schema_ok s"
  by (simp_all add: schema_defs)

lemma schema_ok_empty:
  "agents s = [] \<Longrightarrow> telemetry s = [] \<Longrightarrow> alert_rules s = [] \<Longrightarrow> alerts s = [] \<Longrightarrow>
   alert_comments s = [] \<Longrightarrow> notification_channels s = [] \<Longrightarrow> notification_deliveries s = [] \<Longrightarrow>
   api_tokens s = [] \<Longrightarrow> telemetry_hourly s = [] \<Longrightarrow> schema_ok s"
  by (simp add: schema_defs)

text \<open>A database call keeps a property of the tables that its statement keeps.\<close>

lemma db_run_schema [schema_intro]:
  "schema_ok s \<Longrightarrow> (\<And>t. schema_ok t \<Longrightarrow> schema_ok (snd (stmt t))) \<Longrightarrow> schema_ok (snd (db_run stmt s))"
  by (rule db_run_state) simp_all

lemma distinct_filter_key: "distinct (map k xs) \<Longrightarrow> distinct (map k (filter P xs))"
  by (induction xs) auto

lemma map_key_update: "(\<And>r. k (f r) = k r) \<Longrightarrow> map k (map (\<lambda>r. if P r then f r else r) rows) = map k rows"
  by (induction rows) auto

lemma key_unique: "distinct (map k xs) \<Longrightarrow> x \<in> set xs \<Longrightarrow> y \<in> set xs \<Longrightarrow> k x = k y \<Longrightarrow> x = y"
  by (meson distinct_map inj_onD)

lemma filter_ConsD: "filter P xs = y # ys \<Longrightarrow> y \<in> set xs \<and> P y"
  by (induction xs) (auto split: if_splits)

lemma update_returning_keys:
  "(\<And>r. k (f r) = k r) \<Longrightarrow> map k (snd (update_returning P f rows)) = map k rows"
  by (simp add: update_returning_def map_key_update split: list.split)

lemma update_returning_image:
  assumes "\<And>r. k (f r) = k r"
  shows "k ` set (snd (update_returning P f rows)) = k ` set rows"
proof -
  have "map k (snd (update_returning P f rows)) = map k rows"
    using assms by (rule update_returning_keys)
  then show ?thesis by (metis list.set_map)
qed

lemma update_returning_none: "(\<And>r. r \<in> set rows \<Longrightarrow> \<not> P r) \<Longrightarrow> update_returning P f rows = (Inl NoRows, rows)"
  by (auto simp: update_returning_def dest: filter_ConsD split: list.split)

lemma update_returning_absent: "i \<notin> k ` set rows \<Longrightarrow> update_returning (\<lambda>r. k r = i) f rows = (Inl NoRows, rows)"
  by (rule update_returning_none) (metis imageI)

text \<open>With a key, the row a statement selects or updates is the only one it touches.\<close>

lemma filter_key:
  assumes "distinct (map k rows)" and "r \<in> set rows" and "P r" and "\<And>x. P x \<Longrightarrow> k x = k r"
  shows "filter P rows = [r]"
  using assms(1,2)
proof (induction rows)
  case Nil
  then show ?case by simp
next
  case (Cons x xs)
  show ?case
  proof (cases "x = r")
    case True
    with Cons.prems(1) have "k r \<notin> k ` set xs" by simp
    then have "\<forall>y \<in> set xs. \<not> P y" using assms(4) by (metis image_eqI)
    then show ?thesis using True assms(3) by simp
  next
    case False
    then have "\<not> P x" using Cons.prems assms(4) by force
    then show ?thesis using Cons False by simp
  qed
qed

lemma update_returning_key:
  assumes "distinct (map k rows)" and "r \<in> set rows" and "P r" and "\<And>x. P x \<Longrightarrow> k x = k r"
  shows "update_returning P f rows = (Inr (f r), map (\<lambda>x. if k x = k r then f x else x) rows)"
proof -
  have "P x \<longleftrightarrow> k x = k r" if "x \<in> set rows" for x
    using that assms by (metis key_unique)
  then have "map (\<lambda>x. if P x then f x else x) rows = map (\<lambda>x. if k x = k r then f x else x) rows"
    by (intro map_cong) auto
  moreover have "filter P rows = [r]" using assms by (rule filter_key)
  ultimately show ?thesis by (simp add: update_returning_def)
qed

lemma select_one_key:
  assumes "distinct (map k rows)" and "r \<in> set rows" and "P r" and "\<And>x. P x \<Longrightarrow> k x = k r"
  shows "select_one P rows = Inr r"
proof -
  have "filter P rows = [r]" using assms by (rule filter_key)
  then show ?thesis by (simp add: select_one_def)
qed

lemma select_one_Inr: "select_one P rows = Inr r \<Longrightarrow> r \<in> set rows \<and> P r"
  by (auto simp: select_one_def dest: filter_ConsD split: list.splits)

lemma select_one_Inl: "select_one P rows = Inl e \<longleftrightarrow> e = NoRows \<and> (\<forall>r \<in> set rows. \<not> P r)"
  by (auto simp: select_one_def filter_empty_conv dest: filter_ConsD split: list.splits)

lemma delete_alerts_schema [schema_intro]: "schema_ok s \<Longrightarrow> schema_ok (delete_alerts P s)"
  unfolding schema_ok_def
proof (intro conjI)
  assume "keys_ok s \<and> refs_ok s"
  then show "keys_ok (delete_alerts P s)"
    by (simp add: keys_ok_def delete_alerts_def Let_def distinct_filter_key)
next
  assume ok: "keys_ok s \<and> refs_ok s"
  have keep: "x \<in> ar_id ` set (filter (\<lambda>a. \<not> P a) (alerts s))"
    if "x \<in> ar_id ` set (alerts s)" "x \<notin> ar_id ` set (filter P (alerts s))" for x
    using that by auto
  show "refs_ok (delete_alerts P s)"
    using ok keep by (auto simp: refs_ok_def delete_alerts_def Let_def)
qed

end
