(* ===== verification/Go_Chan.thy ===== *)
theory Go_Chan
  imports Prelude
begin

text \<open>
  Buffered channels, as the hub (internal/events) and the notification queue
  (internal/notifications) use them: a send that would block and a send or close on a closed
  channel are outcomes of their own.  The interface \<open>drop_mailbox\<close> is the contract the hub and
  the queue share: a bounded FIFO whose offers never wait and drop the newest item when it is
  full (a \<open>select\<close> with a \<open>default\<close> branch).  The components that provide it interpret it.
\<close>

section \<open>Channels\<close>

record 'a chan =
  ch_buf :: "'a list"
  ch_cap :: nat
  ch_closed :: bool

datatype chan_op = Op_done | Op_block | Op_panic

datatype 'a recv = Recv_val 'a | Recv_closed | Recv_block

definition make_chan :: "nat \<Rightarrow> 'a chan" where
  "make_chan n = \<lparr>ch_buf = [], ch_cap = n, ch_closed = False\<rparr>"

definition chan_try_send :: "'a \<Rightarrow> 'a chan \<Rightarrow> chan_op \<times> 'a chan" where
  "chan_try_send x c =
     (if ch_closed c then (Op_panic, c)
      else if length (ch_buf c) < ch_cap c then (Op_done, c\<lparr>ch_buf := ch_buf c @ [x]\<rparr>)
      else (Op_block, c))"

definition chan_recv :: "'a chan \<Rightarrow> 'a recv \<times> 'a chan" where
  "chan_recv c =
     (case ch_buf c of
        x # xs \<Rightarrow> (Recv_val x, c\<lparr>ch_buf := xs\<rparr>)
      | [] \<Rightarrow> (if ch_closed c then (Recv_closed, c) else (Recv_block, c)))"

definition chan_close :: "'a chan \<Rightarrow> chan_op \<times> 'a chan" where
  "chan_close c = (if ch_closed c then (Op_panic, c) else (Op_done, c\<lparr>ch_closed := True\<rparr>))"

definition chan_ok :: "'a chan \<Rightarrow> bool" where
  "chan_ok c \<longleftrightarrow> length (ch_buf c) \<le> ch_cap c"

named_theorems chan_frame \<open>what channel operations leave alone, and that they keep the bound\<close>

lemma chan_ok_make [chan_frame, simp]: "chan_ok (make_chan n)"
  by (simp add: chan_ok_def make_chan_def)

lemma chan_try_send_cap [chan_frame, simp]: "ch_cap (snd (chan_try_send x c)) = ch_cap c"
  by (simp add: chan_try_send_def)

lemma chan_try_send_closed [chan_frame, simp]: "ch_closed (snd (chan_try_send x c)) = ch_closed c"
  by (simp add: chan_try_send_def)

lemma chan_recv_cap [chan_frame, simp]: "ch_cap (snd (chan_recv c)) = ch_cap c"
  by (simp add: chan_recv_def split: list.splits)

lemma chan_recv_closed [chan_frame, simp]: "ch_closed (snd (chan_recv c)) = ch_closed c"
  by (simp add: chan_recv_def split: list.splits)

lemma chan_ok_try_send [chan_frame, simp]: "chan_ok c \<Longrightarrow> chan_ok (snd (chan_try_send x c))"
  by (auto simp: chan_ok_def chan_try_send_def)

lemma chan_ok_recv [chan_frame, simp]: "chan_ok c \<Longrightarrow> chan_ok (snd (chan_recv c))"
  by (auto simp: chan_ok_def chan_recv_def split: list.splits)

lemma chan_ok_close [chan_frame, simp]: "chan_ok c \<Longrightarrow> chan_ok (snd (chan_close c))"
  by (simp add: chan_ok_def chan_close_def)

lemma chan_close_buf [chan_frame, simp]: "ch_buf (snd (chan_close c)) = ch_buf c"
  by (simp add: chan_close_def)

lemma chan_try_send_buf:
  "ch_buf (snd (chan_try_send x c)) =
     (if \<not> ch_closed c \<and> length (ch_buf c) < ch_cap c then ch_buf c @ [x] else ch_buf c)"
  by (simp add: chan_try_send_def)

text \<open>A channel of capacity \<open>n\<close> within its bound: what a component knows of a channel it made.\<close>

definition chan_of :: "nat \<Rightarrow> 'a chan \<Rightarrow> bool" where
  "chan_of n c \<longleftrightarrow> ch_cap c = n \<and> length (ch_buf c) \<le> n"

lemma chan_of_make [chan_frame, simp]: "chan_of m (make_chan n) \<longleftrightarrow> m = n"
  by (auto simp: chan_of_def make_chan_def)

lemma make_chan_simps [simp]: "ch_buf (make_chan n) = []" "\<not> ch_closed (make_chan n)"
  by (simp_all add: make_chan_def)

lemma chan_of_close [chan_frame, simp]: "chan_of n (snd (chan_close c)) = chan_of n c"
  by (simp add: chan_of_def chan_close_def)

lemma chan_of_bound: "chan_of n c \<Longrightarrow> length (ch_buf c) \<le> n"
  by (simp add: chan_of_def)

text \<open>Inversion of a successful receive or send.\<close>

lemma chan_recv_val:
  "chan_recv c = (Recv_val x, c') \<Longrightarrow>
     ch_buf c = x # ch_buf c' \<and> ch_closed c' = ch_closed c \<and> (\<forall>n. chan_of n c \<longrightarrow> chan_of n c')"
  by (auto simp: chan_recv_def chan_of_def split: list.splits if_splits)

lemma chan_send_done:
  "chan_try_send x c = (Op_done, c') \<Longrightarrow>
     ch_buf c' = ch_buf c @ [x] \<and> ch_closed c' = ch_closed c \<and> \<not> ch_closed c \<and>
     (\<forall>n. chan_of n c \<longrightarrow> chan_of n c')"
  by (auto simp: chan_try_send_def chan_of_def split: if_splits)

section \<open>The contract of a non-blocking offer\<close>

locale drop_mailbox =
  fixes contents :: "'s \<Rightarrow> 'a list"
    and room :: "'s \<Rightarrow> nat"
    and offer :: "'a \<Rightarrow> 's \<Rightarrow> 's"
  assumes offer_room: "room s > 0 \<Longrightarrow> contents (offer x s) = contents s @ [x]"
    and offer_full: "room s = 0 \<Longrightarrow> contents (offer x s) = contents s"
    and room_offer: "room (offer x s) = room s - 1"
begin

lemma contents_offer: "contents (offer x s) = contents s @ take (room s) [x]"
  by (cases "room s = 0") (simp_all add: offer_room offer_full)

lemma room_offers: "room (fold offer xs s) = room s - length xs"
  by (induction xs arbitrary: s) (simp_all add: room_offer)

text \<open>
  A burst of offers keeps the oldest items and drops the newest ones: what is accepted is the
  longest prefix that fits.
\<close>

lemma contents_offers: "contents (fold offer xs s) = contents s @ take (room s) xs"
proof (induction xs arbitrary: s)
  case Nil
  show ?case by simp
next
  case (Cons x xs)
  have "contents (fold offer (x # xs) s) = contents (offer x s) @ take (room s - 1) xs"
    by (simp add: Cons.IH room_offer)
  also have "\<dots> = contents s @ take (room s) (x # xs)"
    by (cases "room s") (simp_all add: contents_offer)
  finally show ?case .
qed

lemma offers_order: "subseq (contents (fold offer xs s)) (contents s @ xs)"
  by (simp add: contents_offers list_emb_append_mono prefix_imp_subseq take_is_prefix)

lemma offers_keep_old: "prefix (contents s) (contents (fold offer xs s))"
  by (simp add: contents_offers)

lemma offers_all_accepted:
  "length xs \<le> room s \<Longrightarrow> contents (fold offer xs s) = contents s @ xs"
  by (simp add: contents_offers)

end

definition chan_offer :: "'a \<Rightarrow> 'a chan \<Rightarrow> 'a chan" where
  "chan_offer x c = snd (chan_try_send x c)"

definition chan_room :: "'a chan \<Rightarrow> nat" where
  "chan_room c = (if ch_closed c then 0 else ch_cap c - length (ch_buf c))"

interpretation chan_mailbox: drop_mailbox ch_buf chan_room chan_offer
  by unfold_locales (auto simp: chan_room_def chan_offer_def chan_try_send_def split: if_splits)

lemma chan_ok_offer [chan_frame, simp]: "chan_ok c \<Longrightarrow> chan_ok (chan_offer x c)"
  by (simp add: chan_offer_def)

lemma chan_of_offer [chan_frame, simp]: "chan_of n c \<Longrightarrow> chan_of n (chan_offer x c)"
  by (simp add: chan_of_def chan_offer_def chan_try_send_buf)

lemma chan_offer_buf:
  "ch_buf (chan_offer x c) =
     (if \<not> ch_closed c \<and> length (ch_buf c) < ch_cap c then ch_buf c @ [x] else ch_buf c)"
  by (simp add: chan_offer_def chan_try_send_buf)

lemma chan_offer_cap [chan_frame, simp]: "ch_cap (chan_offer x c) = ch_cap c"
  by (simp add: chan_offer_def)

lemma chan_offer_closed [chan_frame, simp]: "ch_closed (chan_offer x c) = ch_closed c"
  by (simp add: chan_offer_def)

end
