(* ===== verification/Events_Hub.thy ===== *)
theory Events_Hub
  imports Database Go_Chan Http
begin

text \<open>
  The hub of internal/events: its events, the clients with their buffered channels, what one
  iteration of the loop of \<open>Run\<close> does for each case of its select, \<open>Publish\<close>, \<open>Subscribe\<close> and
  the SSE encoding of \<open>FormatSSEData\<close> and \<open>ServeHTTP\<close>.  The goroutines around these operations
  are in \<open>Hub_System\<close>.
\<close>

section \<open>Events\<close>

definition EventTelemetryUpdated :: string where "EventTelemetryUpdated = ''telemetry.updated''"
definition EventAgentRegistered :: string where "EventAgentRegistered = ''agent.registered''"
definition EventAgentStatus :: string where "EventAgentStatus = ''agent.status_changed''"
definition EventAlertFiring :: string where "EventAlertFiring = ''alert.firing''"
definition EventAlertAcknowledged :: string where "EventAlertAcknowledged = ''alert.acknowledged''"
definition EventAlertResolved :: string where "EventAlertResolved = ''alert.resolved''"
definition EventAlertCommentAdded :: string where "EventAlertCommentAdded = ''alert.comment_added''"

lemmas event_type_defs =
  EventTelemetryUpdated_def EventAgentRegistered_def EventAgentStatus_def EventAlertFiring_def
  EventAlertAcknowledged_def EventAlertResolved_def EventAlertCommentAdded_def

text \<open>What the fields of type \<open>any\<close> of an event hold.\<close>

datatype payload = P_Alert Alert | P_Comment AlertComment | P_Agent Agent

record Event =
  ev_Type :: string
  ev_AgentID :: string
  ev_Timestamp :: time
  ev_Metrics :: "(string \<times> goany) list option"
  ev_Alert :: "payload option"
  ev_Status :: string
  ev_Data :: "payload option"

definition new_event :: Event where
  "new_event = \<lparr>ev_Type = '''', ev_AgentID = '''', ev_Timestamp = zero_time, ev_Metrics = None,
     ev_Alert = None, ev_Status = '''', ev_Data = None\<rparr>"

section \<open>The hub\<close>

text \<open>
  A client object lives at an address; the map of the hub is the list of its keys, in some
  iteration order.
\<close>

record Client =
  cl_ID :: string
  cl_Send :: "Event chan"

record hub =
  hb_clients :: "nat list"
  hb_register :: "nat chan"
  hb_unregister :: "nat chan"
  hb_broadcast :: "Event chan"
  hb_heap :: "nat \<Rightarrow> Client"
  hb_next :: nat

definition NewHub :: hub where
  "NewHub = \<lparr>hb_clients = [], hb_register = make_chan 64, hb_unregister = make_chan 64,
     hb_broadcast = make_chan 256, hb_heap = (\<lambda>_. \<lparr>cl_ID = '''', cl_Send = make_chan 0\<rparr>), hb_next = 0\<rparr>"

text \<open>The first half of \<open>Subscribe\<close>: a fresh client, whose address is then sent to \<open>register\<close>.\<close>

definition new_client :: "string \<Rightarrow> hub \<Rightarrow> nat \<times> hub" where
  "new_client clientID h =
     (hb_next h,
      h\<lparr>hb_heap := (hb_heap h)(hb_next h := \<lparr>cl_ID = clientID, cl_Send = make_chan 64\<rparr>),
        hb_next := Suc (hb_next h)\<rparr>)"

definition hub_offer :: "Event \<Rightarrow> hub \<Rightarrow> hub" where
  "hub_offer e h = h\<lparr>hb_broadcast := chan_offer e (hb_broadcast h)\<rparr>"

record hub_env = db_env +
  hub :: hub

definition Publish :: "Event \<Rightarrow> 'a hub_env_scheme \<Rightarrow> 'a hub_env_scheme" where
  "Publish e s =
     (if IsZero (ev_Timestamp e)
      then (case time_Now s of (now, s1) \<Rightarrow>
              s1\<lparr>hub := hub_offer (e\<lparr>ev_Timestamp := now\<rparr>) (hub s1)\<rparr>)
      else s\<lparr>hub := hub_offer e (hub s)\<rparr>)"

lemma schema_ok_hub [simp]: "schema_ok (s\<lparr>hub := h\<rparr>) = schema_ok s"
  by (simp add: schema_defs)

lemma Publish_schema [simp]: "schema_ok (Publish e s) = schema_ok s"
  by (simp add: Publish_def time_Now_def)

subsection \<open>The cases of the select in Run\<close>

text \<open>
  Each takes the hub and gives whether it panicked (a send or close on a closed channel) and the
  hub after it.  The sends of a broadcast are non-blocking, one per client.
\<close>

definition set_send :: "nat \<Rightarrow> Event chan \<Rightarrow> hub \<Rightarrow> hub" where
  "set_send a c h = h\<lparr>hb_heap := (hb_heap h)(a := (hb_heap h a)\<lparr>cl_Send := c\<rparr>)\<rparr>"

definition client_send :: "Event \<Rightarrow> nat \<Rightarrow> bool \<times> hub \<Rightarrow> bool \<times> hub" where
  "client_send e a ph =
     (case ph of (p, h) \<Rightarrow>
        case chan_try_send e (cl_Send (hb_heap h a)) of (oc, c) \<Rightarrow>
          (p \<or> oc = Op_panic, set_send a c h))"

definition client_close :: "nat \<Rightarrow> bool \<times> hub \<Rightarrow> bool \<times> hub" where
  "client_close a ph =
     (case ph of (p, h) \<Rightarrow>
        case chan_close (cl_Send (hb_heap h a)) of (oc, c) \<Rightarrow>
          (p \<or> oc = Op_panic, set_send a c h))"

definition on_register :: "nat \<Rightarrow> hub \<Rightarrow> hub" where
  "on_register a h = (if a \<in> set (hb_clients h) then h else h\<lparr>hb_clients := hb_clients h @ [a]\<rparr>)"

definition on_unregister :: "nat \<Rightarrow> hub \<Rightarrow> bool \<times> hub" where
  "on_unregister a h =
     (if a \<in> set (hb_clients h)
      then client_close a (False, h\<lparr>hb_clients := removeAll a (hb_clients h)\<rparr>)
      else (False, h))"

definition on_broadcast :: "Event \<Rightarrow> hub \<Rightarrow> bool \<times> hub" where
  "on_broadcast e h = fold (client_send e) (hb_clients h) (False, h)"

definition ping_event :: "time \<Rightarrow> Event" where
  "ping_event now = new_event\<lparr>ev_Type := ''ping'', ev_Timestamp := now\<rparr>"

definition on_done :: "hub \<Rightarrow> bool \<times> hub" where
  "on_done h =
     (case fold client_close (hb_clients h) (False, h) of (p, h1) \<Rightarrow> (p, h1\<lparr>hb_clients := []\<rparr>))"

subsection \<open>The SSE encoding\<close>

text \<open>\<open>marshal\<close> is json.Marshal on events; None is its error.\<close>

definition FormatSSEData :: "(Event \<Rightarrow> string option) \<Rightarrow> Event \<Rightarrow> string option" where
  "FormatSSEData marshal e =
     (case marshal e of
        None \<Rightarrow> None
      | Some data \<Rightarrow> Some (''event: '' @ ev_Type e @ ''\<newline>data: '' @ data @ ''\<newline>\<newline>''))"

text \<open>
  What \<open>ServeHTTP\<close> answers before it starts to stream; \<open>flusher\<close> says whether the writer can
  stream at all.  None of its answers needs the hub.
\<close>

definition sse_headers :: "'p response \<Rightarrow> 'p response" where
  "sse_headers w =
     Header_Set ''X-Accel-Buffering'' ''no''
       (Header_Set ''Connection'' ''keep-alive''
         (Header_Set ''Cache-Control'' ''no-cache''
           (Header_Set ''Content-Type'' ''text/event-stream'' w)))"

definition sse_open :: "bool \<Rightarrow> 'p response \<Rightarrow> request \<Rightarrow> bool \<times> 'p response" where
  "sse_open flusher w r =
     (if Method r \<noteq> ''GET'' then (False, http_Error ''method not allowed'' 405 w)
      else if \<not> flusher then (False, http_Error ''streaming unsupported'' 500 w)
      else (True, Write (B_text '': connected\<newline>\<newline>'') (sse_headers w)))"

text \<open>The loop of \<open>ServeHTTP\<close> over the events it receives: events that do not encode are skipped.\<close>

fun sse_stream :: "(Event \<Rightarrow> string option) \<Rightarrow> Event list \<Rightarrow> 'p response \<Rightarrow> 'p response" where
  "sse_stream marshal [] w = w"
| "sse_stream marshal (e # es) w =
     (case FormatSSEData marshal e of
        None \<Rightarrow> sse_stream marshal es w
      | Some msg \<Rightarrow> sse_stream marshal es (Write (B_text msg) w))"

section \<open>Lemmas on one operation\<close>

named_theorems hub_frame \<open>what the hub operations leave alone\<close>

lemma set_send_simps [hub_frame, simp]:
  "hb_clients (set_send a c h) = hb_clients h" "hb_register (set_send a c h) = hb_register h"
  "hb_unregister (set_send a c h) = hb_unregister h" "hb_broadcast (set_send a c h) = hb_broadcast h"
  "hb_next (set_send a c h) = hb_next h"
  "cl_Send (hb_heap (set_send a c h) b) = (if b = a then c else cl_Send (hb_heap h b))"
  by (simp_all add: set_send_def)

lemma hub_offer_simps [hub_frame, simp]:
  "hb_clients (hub_offer e h) = hb_clients h" "hb_register (hub_offer e h) = hb_register h"
  "hb_unregister (hub_offer e h) = hb_unregister h" "hb_heap (hub_offer e h) = hb_heap h"
  "hb_next (hub_offer e h) = hb_next h"
  "hb_broadcast (hub_offer e h) = chan_offer e (hb_broadcast h)"
  by (simp_all add: hub_offer_def)

lemma client_send_simps [simp]:
  "fst (client_send e a (p, h)) \<longleftrightarrow> p \<or> ch_closed (cl_Send (hb_heap h a))"
  "snd (client_send e a (p, h)) = set_send a (chan_offer e (cl_Send (hb_heap h a))) h"
  by (auto simp: client_send_def chan_try_send_def chan_offer_def)

lemma client_close_simps [simp]:
  "fst (client_close a (p, h)) \<longleftrightarrow> p \<or> ch_closed (cl_Send (hb_heap h a))"
  "snd (client_close a (p, h)) = set_send a (snd (chan_close (cl_Send (hb_heap h a)))) h"
  by (auto simp: client_close_def chan_close_def)

text \<open>
  The loops over the clients: every client of the list gets its own update exactly once and
  nothing else changes, so the order in which Go iterates over the map does not matter.
\<close>

lemma fold_clients:
  assumes step: "\<And>a p h. fst (f a (p, h)) = (p \<or> ch_closed (cl_Send (hb_heap h a)))"
      "\<And>a p h. snd (f a (p, h)) = set_send a (g (cl_Send (hb_heap h a))) h"
    and dist: "distinct as"
  shows "fst (fold f as (p, h)) = (p \<or> (\<exists>a \<in> set as. ch_closed (cl_Send (hb_heap h a))))"
    and "snd (fold f as (p, h)) =
           h\<lparr>hb_heap := (\<lambda>b. if b \<in> set as then (hb_heap h b)\<lparr>cl_Send := g (cl_Send (hb_heap h b))\<rparr>
                            else hb_heap h b)\<rparr>"
  using dist
proof (induction as arbitrary: p h)
  case Nil
  { case 1 show ?case by simp next case 2 show ?case by simp }
next
  case (Cons a as)
  have unfold: "fold f (a # as) (p, h) =
      fold f as (p \<or> ch_closed (cl_Send (hb_heap h a)), set_send a (g (cl_Send (hb_heap h a))) h)" for p h
  proof -
    have "f a (p, h) = (p \<or> ch_closed (cl_Send (hb_heap h a)), set_send a (g (cl_Send (hb_heap h a))) h)"
      by (rule prod_eqI) (simp_all add: step)
    then show ?thesis by simp
  qed
  { case 1
    then show ?case unfolding unfold by (subst Cons.IH(1)) auto }
  { case 2
    then show ?case unfolding unfold by (subst Cons.IH(2)) (auto simp: set_send_def fun_eq_iff) }
qed

lemma on_broadcast_result:
  assumes "distinct (hb_clients h)"
  shows "fst (on_broadcast e h) = (\<exists>a \<in> set (hb_clients h). ch_closed (cl_Send (hb_heap h a)))"
    and "snd (on_broadcast e h) =
           h\<lparr>hb_heap := (\<lambda>b. if b \<in> set (hb_clients h)
                then (hb_heap h b)\<lparr>cl_Send := chan_offer e (cl_Send (hb_heap h b))\<rparr> else hb_heap h b)\<rparr>"
  using fold_clients [of "client_send e" "chan_offer e" "hb_clients h" False h] assms
  by (simp_all add: on_broadcast_def)

lemma on_done_result:
  assumes "distinct (hb_clients h)"
  shows "fst (on_done h) = (\<exists>a \<in> set (hb_clients h). ch_closed (cl_Send (hb_heap h a)))"
    and "snd (on_done h) =
           h\<lparr>hb_clients := [],
             hb_heap := (\<lambda>b. if b \<in> set (hb_clients h)
                then (hb_heap h b)\<lparr>cl_Send := snd (chan_close (cl_Send (hb_heap h b)))\<rparr> else hb_heap h b)\<rparr>"
  using fold_clients [of client_close "\<lambda>c. snd (chan_close c)" "hb_clients h" False h] assms
  by (simp_all add: on_done_def case_prod_beta)

end
