(* ===== verification/Hub_System.thy ===== *)
theory Hub_System
  imports Events_Hub
begin

text \<open>
  The goroutines around the hub: the loop of \<open>Run\<close> (its select picks any ready case), any number
  of publishers, and one goroutine of \<open>ServeHTTP\<close> per connected client, which subscribes, streams
  until its context ends, a write fails or its channel is closed, and then unsubscribes.  A step
  is one operation of one goroutine; the broadcast loop is one step because each client channel
  is sent to once in it, so a concurrent receive commutes with it.  The lists of published,
  dispatched and received events are history, read by no operation.
\<close>

datatype conn = C_absent | C_subscribing | C_streaming | C_leaving | C_done

record hub_sys =
  sy_hub :: hub
  sy_running :: bool
  sy_conn :: "nat \<Rightarrow> conn"
  sy_panic :: bool
  sy_published :: "Event list"
  sy_dispatched :: "(bool \<times> Event) list"
  sy_seen :: "nat \<Rightarrow> Event list"

definition hub_start :: hub_sys where
  "hub_start = \<lparr>sy_hub = NewHub, sy_running = True, sy_conn = (\<lambda>_. C_absent), sy_panic = False,
     sy_published = [], sy_dispatched = [], sy_seen = (\<lambda>_. [])\<rparr>"

definition set_panic :: "bool \<times> hub \<Rightarrow> hub_sys \<Rightarrow> hub_sys" where
  "set_panic ph s = s\<lparr>sy_hub := snd ph, sy_panic := sy_panic s \<or> fst ph\<rparr>"

inductive hub_step :: "hub_sys \<Rightarrow> hub_sys \<Rightarrow> bool" where
  publish:
    "hub_step s (s\<lparr>sy_hub := hub_offer e (sy_hub s), sy_published := sy_published s @ [e]\<rparr>)"
| subscribe:
    "new_client cid (sy_hub s) = (a, h) \<Longrightarrow>
     hub_step s (s\<lparr>sy_hub := h, sy_conn := (sy_conn s)(a := C_subscribing)\<rparr>)"
| send_register:
    "sy_conn s a = C_subscribing \<Longrightarrow> chan_try_send a (hb_register (sy_hub s)) = (Op_done, c) \<Longrightarrow>
     hub_step s (s\<lparr>sy_hub := (sy_hub s)\<lparr>hb_register := c\<rparr>, sy_conn := (sy_conn s)(a := C_streaming)\<rparr>)"
| receive:
    "sy_conn s a = C_streaming \<Longrightarrow> chan_recv (cl_Send (hb_heap (sy_hub s) a)) = (Recv_val e, c) \<Longrightarrow>
     hub_step s (s\<lparr>sy_hub := set_send a c (sy_hub s), sy_seen := (sy_seen s)(a := sy_seen s a @ [e])\<rparr>)"
| leave:
    "sy_conn s a = C_streaming \<Longrightarrow> hub_step s (s\<lparr>sy_conn := (sy_conn s)(a := C_leaving)\<rparr>)"
| send_unregister:
    "sy_conn s a = C_leaving \<Longrightarrow> chan_try_send a (hb_unregister (sy_hub s)) = (Op_done, c) \<Longrightarrow>
     hub_step s (s\<lparr>sy_hub := (sy_hub s)\<lparr>hb_unregister := c\<rparr>, sy_conn := (sy_conn s)(a := C_done)\<rparr>)"
| run_register:
    "sy_running s \<Longrightarrow> chan_recv (hb_register (sy_hub s)) = (Recv_val a, c) \<Longrightarrow>
     hub_step s (s\<lparr>sy_hub := on_register a ((sy_hub s)\<lparr>hb_register := c\<rparr>)\<rparr>)"
| run_unregister:
    "sy_running s \<Longrightarrow> chan_recv (hb_unregister (sy_hub s)) = (Recv_val a, c) \<Longrightarrow>
     hub_step s (set_panic (on_unregister a ((sy_hub s)\<lparr>hb_unregister := c\<rparr>)) s)"
| run_broadcast:
    "sy_running s \<Longrightarrow> chan_recv (hb_broadcast (sy_hub s)) = (Recv_val e, c) \<Longrightarrow>
     hub_step s (set_panic (on_broadcast e ((sy_hub s)\<lparr>hb_broadcast := c\<rparr>)) s
       \<lparr>sy_dispatched := sy_dispatched s @ [(False, e)]\<rparr>)"
| run_tick:
    "sy_running s \<Longrightarrow>
     hub_step s (set_panic (on_broadcast (ping_event now) (sy_hub s)) s
       \<lparr>sy_dispatched := sy_dispatched s @ [(True, ping_event now)]\<rparr>)"
| run_done:
    "sy_running s \<Longrightarrow> hub_step s (set_panic (on_done (sy_hub s)) s\<lparr>sy_running := False\<rparr>)"

section \<open>The invariant\<close>

text \<open>The channels keep their capacities and bounds, and only client channels are ever closed.\<close>

definition chans_inv :: "hub \<Rightarrow> bool" where
  "chans_inv h \<longleftrightarrow>
     chan_of 64 (hb_register h) \<and> \<not> ch_closed (hb_register h) \<and>
     chan_of 64 (hb_unregister h) \<and> \<not> ch_closed (hb_unregister h) \<and>
     chan_of 256 (hb_broadcast h) \<and> \<not> ch_closed (hb_broadcast h) \<and>
     (\<forall>a < hb_next h. chan_of 64 (cl_Send (hb_heap h a)))"

text \<open>
  Where a client can be: an address travels once through \<open>register\<close>, may then be a key of the
  map, and once through \<open>unregister\<close>; its channel is closed only after it has left the map.
\<close>

definition opened :: "conn \<Rightarrow> bool" where
  "opened c \<longleftrightarrow> c \<noteq> C_absent \<and> c \<noteq> C_subscribing"

definition conns_inv :: "hub_sys \<Rightarrow> bool" where
  "conns_inv s \<longleftrightarrow>
     \<not> sy_panic s \<and> distinct (hb_clients (sy_hub s)) \<and>
     distinct (ch_buf (hb_register (sy_hub s))) \<and> distinct (ch_buf (hb_unregister (sy_hub s))) \<and>
     (\<forall>a \<ge> hb_next (sy_hub s). sy_conn s a = C_absent) \<and>
     (\<forall>a \<in> set (hb_clients (sy_hub s)). opened (sy_conn s a) \<and>
        \<not> ch_closed (cl_Send (hb_heap (sy_hub s) a)) \<and> a \<notin> set (ch_buf (hb_register (sy_hub s)))) \<and>
     (\<forall>a \<in> set (ch_buf (hb_register (sy_hub s))). opened (sy_conn s a) \<and>
        \<not> ch_closed (cl_Send (hb_heap (sy_hub s) a))) \<and>
     (\<forall>a. sy_conn s a = C_subscribing \<longrightarrow> \<not> ch_closed (cl_Send (hb_heap (sy_hub s) a))) \<and>
     (\<forall>a \<in> set (ch_buf (hb_unregister (sy_hub s))). sy_conn s a = C_done)"

lemma opened_simps [simp]:
  "\<not> opened C_absent" "\<not> opened C_subscribing" "opened C_streaming" "opened C_leaving" "opened C_done"
  by (simp_all add: opened_def)

text \<open>What clients receive is in order and was dispatched; what is dispatched was published.\<close>

definition order_inv :: "hub_sys \<Rightarrow> bool" where
  "order_inv s \<longleftrightarrow>
     (\<forall>a. subseq (sy_seen s a @ ch_buf (cl_Send (hb_heap (sy_hub s) a))) (map snd (sy_dispatched s))) \<and>
     (\<forall>a \<ge> hb_next (sy_hub s). sy_seen s a = []) \<and>
     subseq (map snd (filter (\<lambda>d. \<not> fst d) (sy_dispatched s)) @ ch_buf (hb_broadcast (sy_hub s)))
       (sy_published s)"

lemma new_client_result:
  "new_client cid h = (a, h') \<Longrightarrow> a = hb_next h \<and>
     h' = h\<lparr>hb_heap := (hb_heap h)(a := \<lparr>cl_ID = cid, cl_Send = make_chan 64\<rparr>), hb_next := Suc a\<rparr>"
  by (auto simp: new_client_def)

lemma on_unregister_result:
  "on_unregister a h =
     (if a \<in> set (hb_clients h)
      then (ch_closed (cl_Send (hb_heap h a)),
            set_send a (snd (chan_close (cl_Send (hb_heap h a)))) (h\<lparr>hb_clients := removeAll a (hb_clients h)\<rparr>))
      else (False, h))"
  by (simp add: on_unregister_def prod_eq_iff)

lemma hub_step_chans: "hub_step s t \<Longrightarrow> conns_inv s \<Longrightarrow> chans_inv (sy_hub s) \<Longrightarrow> chans_inv (sy_hub t)"
proof (induction rule: hub_step.induct)
  case (subscribe cid s a h)
  then show ?case by (auto simp: chans_inv_def dest!: new_client_result)
next
  case (send_register s a c)
  then show ?case by (auto simp: chans_inv_def dest!: chan_send_done)
next
  case (receive s a e c)
  then show ?case
    by (auto simp: chans_inv_def dest!: chan_recv_val)
next
  case (send_unregister s a c)
  then show ?case by (auto simp: chans_inv_def dest!: chan_send_done)
next
  case (run_register s a c)
  then show ?case by (auto simp: chans_inv_def on_register_def dest!: chan_recv_val)
next
  case (run_unregister s a c)
  then show ?case
    by (auto simp: chans_inv_def set_panic_def on_unregister_result dest!: chan_recv_val)
next
  case (run_broadcast s e c)
  then show ?case
    by (auto simp: chans_inv_def conns_inv_def set_panic_def on_broadcast_result
        dest!: chan_recv_val)
next
  case (run_tick s now)
  then show ?case
    by (auto simp: chans_inv_def conns_inv_def set_panic_def on_broadcast_result)
next
  case (run_done s)
  then show ?case
    by (auto simp: chans_inv_def conns_inv_def set_panic_def on_done_result)
qed (simp_all add: chans_inv_def)

lemma conns_inv_allocated: "conns_inv s \<Longrightarrow> sy_conn s a \<noteq> C_absent \<Longrightarrow> a < hb_next (sy_hub s)"
  unfolding conns_inv_def by (meson not_le)

lemma conns_inv_fresh:
  assumes "conns_inv s" and "\<not> opened (sy_conn s a)"
  shows "a \<notin> set (hb_clients (sy_hub s))" and "a \<notin> set (ch_buf (hb_register (sy_hub s)))"
  using assms unfolding conns_inv_def by blast+

lemma hub_step_conns: "hub_step s t \<Longrightarrow> conns_inv s \<Longrightarrow> conns_inv t"
proof (induction rule: hub_step.induct)
  case (publish s e)
  then show ?case by (simp add: conns_inv_def)
next
  case (subscribe cid s a h)
  then have a: "a = hb_next (sy_hub s)" by (auto dest: new_client_result)
  show ?case
    using subscribe conns_inv_fresh [OF subscribe(2), of a] a
    by (auto simp: conns_inv_def dest!: new_client_result)
next
  case (send_register s a c)
  then show ?case
    using conns_inv_fresh [of s a] by (auto simp: conns_inv_def dest!: chan_send_done)
next
  case (receive s a e c)
  then show ?case by (auto simp: conns_inv_def dest!: chan_recv_val)
next
  case (leave s a)
  then show ?case by (auto simp: conns_inv_def)
next
  case (send_unregister s a c)
  then show ?case by (auto simp: conns_inv_def dest!: chan_send_done)
next
  case (run_register s a c)
  then show ?case by (auto simp: conns_inv_def on_register_def dest!: chan_recv_val)
next
  case (run_unregister s a c)
  then show ?case
    by (auto simp: conns_inv_def set_panic_def on_unregister_result distinct_removeAll
        dest!: chan_recv_val)
next
  case (run_broadcast s e c)
  then show ?case
    by (auto simp: conns_inv_def set_panic_def on_broadcast_result dest!: chan_recv_val)
next
  case (run_tick s now)
  then show ?case by (auto simp: conns_inv_def set_panic_def on_broadcast_result)
next
  case (run_done s)
  then show ?case by (auto simp: conns_inv_def set_panic_def on_done_result chan_close_def)
qed

lemma subseq_snoc_right: "subseq xs ys \<Longrightarrow> subseq xs (ys @ [y])"
  by (rule subseq_order.trans [OF _ subseq_rev_drop_many [of ys ys, simplified]]) simp_all

lemma subseq_offer:
  "subseq (seen @ ch_buf c) ys \<Longrightarrow> subseq (seen @ ch_buf (chan_offer y c)) (ys @ [y])"
  by (simp add: chan_offer_buf subseq_snoc_right flip: append_assoc)

lemma hub_step_order:
  "hub_step s t \<Longrightarrow> conns_inv s \<Longrightarrow> chans_inv (sy_hub s) \<Longrightarrow> order_inv s \<Longrightarrow> order_inv t"
proof (induction rule: hub_step.induct)
  case (publish s e)
  then show ?case by (auto simp: order_inv_def subseq_offer)
next
  case (subscribe cid s a h)
  then show ?case by (auto simp: order_inv_def dest!: new_client_result)
next
  case (send_register s a c)
  then show ?case by (simp add: order_inv_def)
next
  case (receive s a e c)
  then have "a < hb_next (sy_hub s)" by (simp add: conns_inv_allocated)
  moreover have "ch_buf (cl_Send (hb_heap (sy_hub s) a)) = e # ch_buf c"
    using receive(2) by (auto dest: chan_recv_val)
  moreover have "subseq (sy_seen s a @ ch_buf (cl_Send (hb_heap (sy_hub s) a))) (map snd (sy_dispatched s))"
    using receive by (simp add: order_inv_def)
  ultimately show ?case using receive by (auto simp: order_inv_def)
next
  case (leave s a)
  then show ?case by (simp add: order_inv_def)
next
  case (send_unregister s a c)
  then show ?case by (simp add: order_inv_def)
next
  case (run_register s a c)
  then show ?case by (simp add: order_inv_def on_register_def)
next
  case (run_unregister s a c)
  then show ?case by (auto simp: order_inv_def set_panic_def on_unregister_result)
next
  case (run_broadcast s e c)
  then show ?case
    by (auto simp: order_inv_def conns_inv_def set_panic_def on_broadcast_result subseq_offer
        subseq_snoc_right dest!: chan_recv_val)
next
  case (run_tick s now)
  then show ?case
    by (auto simp: order_inv_def conns_inv_def set_panic_def on_broadcast_result subseq_offer
        subseq_snoc_right)
next
  case (run_done s)
  then show ?case by (auto simp: order_inv_def conns_inv_def set_panic_def on_done_result)
qed

definition hub_inv :: "hub_sys \<Rightarrow> bool" where
  "hub_inv s \<longleftrightarrow> chans_inv (sy_hub s) \<and> conns_inv s \<and> order_inv s"

lemma hub_start_inv: "hub_inv hub_start"
  by (simp add: hub_inv_def hub_start_def NewHub_def chans_inv_def conns_inv_def order_inv_def)

interpretation hub_machine: invariant_system "\<lambda>s. s = hub_start" hub_step hub_inv
  by unfold_locales
    (auto simp: hub_inv_def hub_start_inv [unfolded hub_inv_def] hub_step_chans hub_step_conns hub_step_order)

section \<open>Properties\<close>

text \<open>
  The hub never panics and stays within its buffers.  In every state the goroutines can reach,
  whatever the interleaving of publishers, subscribers, disconnects, heartbeats and shutdown, no
  send or close has hit a closed channel, every client of the map has an open channel, and no
  buffer exceeds its capacity (64 per client and for the registration channels, 256 for the
  broadcast channel).
\<close>

theorem hub_safe:
  assumes "hub_step\<^sup>*\<^sup>* hub_start s"
  shows "\<not> sy_panic s \<and>
         (\<forall>a \<in> set (hb_clients (sy_hub s)). \<not> ch_closed (cl_Send (hb_heap (sy_hub s) a)) \<and>
            length (ch_buf (cl_Send (hb_heap (sy_hub s) a))) \<le> 64) \<and>
         length (ch_buf (hb_register (sy_hub s))) \<le> 64 \<and>
         length (ch_buf (hb_unregister (sy_hub s))) \<le> 64 \<and>
         length (ch_buf (hb_broadcast (sy_hub s))) \<le> 256"
proof -
  have inv: "chans_inv (sy_hub s)" "conns_inv s"
    using hub_machine.reachable_inv [OF refl assms] by (simp_all add: hub_inv_def)
  then have "\<forall>a \<in> set (hb_clients (sy_hub s)). a < hb_next (sy_hub s)"
    by (metis conns_inv_allocated conns_inv_fresh(1) opened_simps(1))
  with inv show ?thesis by (auto simp: chans_inv_def conns_inv_def chan_of_def)
qed

text \<open>
  C16: Delivery is in order, without duplicates or inventions.  In every reachable state, what a
  client has received followed by what waits in its channel is a subsequence of the events the
  hub dispatched, and the dispatched events other than heartbeats, followed by those waiting for
  the hub, are a subsequence of the published ones.
\<close>

theorem hub_delivery_order:
  assumes "hub_step\<^sup>*\<^sup>* hub_start s"
  shows "subseq (sy_seen s a @ ch_buf (cl_Send (hb_heap (sy_hub s) a))) (map snd (sy_dispatched s)) \<and>
         subseq (map snd (filter (\<lambda>d. \<not> fst d) (sy_dispatched s)) @ ch_buf (hb_broadcast (sy_hub s)))
           (sy_published s)"
  using hub_machine.reachable_inv [OF refl assms] by (simp add: hub_inv_def order_inv_def)

section \<open>A leak\<close>

text \<open>
  A client whose handler has ended although the map still holds it: nothing will remove it.
\<close>

definition orphan :: "hub_sys \<Rightarrow> nat \<Rightarrow> bool" where
  "orphan s a \<longleftrightarrow> a \<in> set (hb_clients (sy_hub s)) \<and> sy_conn s a = C_done \<and>
     a \<notin> set (ch_buf (hb_unregister (sy_hub s)))"

lemma orphan_step:
  assumes "hub_step s t" and "hub_inv s" and "orphan s a" and "sy_running t"
  shows "orphan t a"
proof -
  from assms(2) have conns: "conns_inv s" by (simp add: hub_inv_def)
  then have fresh: "a < hb_next (sy_hub s)" using assms(3) by (simp add: orphan_def conns_inv_allocated)
  show ?thesis
    using assms(1) fresh assms(3,4) conns
    by (cases rule: hub_step.cases)
      (auto simp: orphan_def conns_inv_def set_panic_def on_register_def on_unregister_result
        on_broadcast_result dest!: new_client_result chan_send_done chan_recv_val)
qed

lemma running_backwards: "hub_step s t \<Longrightarrow> sy_running t \<Longrightarrow> sy_running s"
  by (induction rule: hub_step.induct) (simp_all add: set_panic_def)

lemma orphan_steps:
  assumes "hub_step\<^sup>*\<^sup>* s t" and "hub_inv s" and "orphan s a" and "sy_running t"
  shows "orphan t a"
proof -
  have "sy_running t \<longrightarrow> orphan t a"
  proof (rule hub_machine.steps_stable [OF _ assms(1,2), where P = "\<lambda>u. sy_running u \<longrightarrow> orphan u a"])
    show "sy_running s \<longrightarrow> orphan s a" using assms(3) by simp
  next
    fix u v
    assume "hub_inv u" and "sy_running u \<longrightarrow> orphan u a" and "hub_step u v"
    then show "sy_running v \<longrightarrow> orphan v a" using orphan_step running_backwards by blast
  qed
  then show ?thesis using assms(4) by simp
qed

text \<open>
  The run that leaks: a client connects and leaves before the loop has looked, so that both its
  registration and its removal are waiting, and the select takes the removal first.
\<close>

definition leak_conn :: "conn \<Rightarrow> hub_sys" where
  "leak_conn c = hub_start\<lparr>sy_hub := snd (new_client '''' NewHub), sy_conn := (\<lambda>_. C_absent)(0 := c)\<rparr>"

definition leak_registered :: "conn \<Rightarrow> hub_sys" where
  "leak_registered c =
     (leak_conn c)\<lparr>sy_hub := (snd (new_client '''' NewHub))\<lparr>hb_register := chan_offer 0 (make_chan 64)\<rparr>\<rparr>"

definition leak_both :: hub_sys where
  "leak_both = (leak_registered C_done)\<lparr>sy_hub :=
     (sy_hub (leak_registered C_done))\<lparr>hb_unregister := chan_offer 0 (make_chan 64)\<rparr>\<rparr>"

definition leaked :: hub_sys where
  "leaked = (leak_conn C_done)\<lparr>sy_hub := (snd (new_client '''' NewHub))\<lparr>hb_clients := [0]\<rparr>\<rparr>"

lemmas leak_defs =
  leak_conn_def leak_registered_def leak_both_def leaked_def hub_start_def NewHub_def new_client_def
  make_chan_def chan_offer_def chan_try_send_def chan_recv_def

lemma leak_reachable: "hub_step\<^sup>*\<^sup>* hub_start leaked"
proof -
  have "hub_step hub_start (leak_conn C_subscribing)"
    using hub_step.subscribe [of "''''" hub_start 0 "snd (new_client '''' NewHub)"]
    by (simp add: leak_defs)
  moreover have "hub_step (leak_conn C_subscribing) (leak_registered C_streaming)"
    using hub_step.send_register [of "leak_conn C_subscribing" 0 "chan_offer 0 (make_chan 64)"]
    by (simp add: leak_defs)
  moreover have "hub_step (leak_registered C_streaming) (leak_registered C_leaving)"
    using hub_step.leave [of "leak_registered C_streaming" 0] by (simp add: leak_defs)
  moreover have "hub_step (leak_registered C_leaving) leak_both"
    using hub_step.send_unregister [of "leak_registered C_leaving" 0 "chan_offer 0 (make_chan 64)"]
    by (simp add: leak_defs)
  moreover have "hub_step leak_both (leak_registered C_done)"
    using hub_step.run_unregister [of leak_both 0 "make_chan 64"]
    by (simp add: leak_defs on_unregister_result set_panic_def)
  moreover have "hub_step (leak_registered C_done) leaked"
    using hub_step.run_register [of "leak_registered C_done" 0 "make_chan 64"]
    by (simp add: leak_defs on_register_def)
  ultimately show ?thesis by (meson converse_rtranclp_into_rtranclp rtranclp.rtrancl_refl)
qed

text \<open>
  A client can leak.  Registration and removal travel through two channels, and the select of
  Run may take the removal first: there is a reachable state in which the handler of a client has
  ended while the map still holds the client, and in every continuation in which the loop is
  still running the client stays in the map although its handler has ended and no removal of it
  is on the way.
\<close>

theorem hub_client_leak:
  "\<exists>s a. hub_step\<^sup>*\<^sup>* hub_start s \<and> orphan s a \<and>
     (\<forall>t. hub_step\<^sup>*\<^sup>* s t \<longrightarrow> sy_running t \<longrightarrow> orphan t a)"
proof (intro exI conjI allI impI)
  show "hub_step\<^sup>*\<^sup>* hub_start leaked" by (rule leak_reachable)
  show orphan: "orphan leaked 0" by (simp add: orphan_def leak_defs)
  fix t
  assume t: "hub_step\<^sup>*\<^sup>* leaked t" "sy_running t"
  have "hub_inv leaked" by (rule hub_machine.reachable_inv [OF refl leak_reachable])
  then show "orphan t 0" using t orphan by (blast intro: orphan_steps)
qed

section \<open>Dropping\<close>

text \<open>The broadcast channel under the contract of non-blocking offers.\<close>

interpretation hub_mailbox:
  drop_mailbox "\<lambda>h. ch_buf (hb_broadcast h)" "\<lambda>h. chan_room (hb_broadcast h)" hub_offer
  by unfold_locales
    (simp_all add: chan_mailbox.offer_room chan_mailbox.offer_full chan_mailbox.room_offer)

text \<open>
  A burst of events drops the newest.  Publishing a list of stamped events on a hub whose
  loop is not taking any leaves the broadcast channel with what it held followed by the longest
  prefix of the list that fits: what is dropped is exactly the rest, and no event is reordered.
\<close>

theorem publish_burst:
  assumes "\<forall>e \<in> set es. \<not> IsZero (ev_Timestamp e)"
  shows "ch_buf (hb_broadcast (hub (fold Publish es s))) =
           ch_buf (hb_broadcast (hub s)) @ take (chan_room (hb_broadcast (hub s))) es"
proof -
  have "hub (fold Publish es s) = fold hub_offer es (hub s)"
    using assms by (induction es arbitrary: s) (simp_all add: Publish_def)
  then show ?thesis by (simp add: hub_mailbox.contents_offers)
qed

text \<open>
  One dispatch reaches every registered client.  For a hub whose clients have open channels,
  dispatching an event appends it to the channel of each client that has room, leaves the full
  ones and all other channels alone, does not panic, and gives the same hub for every order in
  which Go may iterate over the map.
\<close>

theorem broadcast_reaches_all:
  assumes "distinct (hb_clients h)"
    and "\<forall>a \<in> set (hb_clients h). \<not> ch_closed (cl_Send (hb_heap h a)) \<and> ch_cap (cl_Send (hb_heap h a)) = 64"
    and "distinct order" and "set order = set (hb_clients h)"
  shows "fold (client_send e) order (False, h) = on_broadcast e h \<and> \<not> fst (on_broadcast e h) \<and>
         (\<forall>a. ch_buf (cl_Send (hb_heap (snd (on_broadcast e h)) a)) =
            ch_buf (cl_Send (hb_heap h a)) @
            (if a \<in> set (hb_clients h) \<and> length (ch_buf (cl_Send (hb_heap h a))) < 64 then [e] else []))"
proof (intro conjI allI)
  show "fold (client_send e) order (False, h) = on_broadcast e h"
    using fold_clients [of "client_send e" "chan_offer e" order False h]
      on_broadcast_result [of h e] assms
    by (simp add: prod_eq_iff)
  show "\<not> fst (on_broadcast e h)" using on_broadcast_result(1) assms by simp
  show "ch_buf (cl_Send (hb_heap (snd (on_broadcast e h)) a)) =
          ch_buf (cl_Send (hb_heap h a)) @
          (if a \<in> set (hb_clients h) \<and> length (ch_buf (cl_Send (hb_heap h a))) < 64 then [e] else [])" for a
    using assms by (simp add: on_broadcast_result chan_offer_buf)
qed

section \<open>Witnesses\<close>

theorem hub_safe_witness:
  "\<not> sy_panic leaked \<and>
   list_all (\<lambda>a. \<not> ch_closed (cl_Send (hb_heap (sy_hub leaked) a)) \<and>
      length (ch_buf (cl_Send (hb_heap (sy_hub leaked) a))) \<le> 64) (hb_clients (sy_hub leaked)) \<and>
   length (ch_buf (hb_register (sy_hub leaked))) \<le> 64 \<and>
   length (ch_buf (hb_unregister (sy_hub leaked))) \<le> 64 \<and>
   length (ch_buf (hb_broadcast (sy_hub leaked))) \<le> 256"
  using hub_safe [OF leak_reachable] by (simp add: list_all_iff)

theorem hub_client_leak_witness:
  "\<exists>s a. hub_step\<^sup>*\<^sup>* hub_start s \<and> orphan s a \<and> a \<in> set (hb_clients (sy_hub s))"
  using hub_client_leak unfolding orphan_def by blast

definition stamped :: "string \<Rightarrow> Event" where
  "stamped ty = new_event\<lparr>ev_Type := ty, ev_Timestamp := 1\<rparr>"

text \<open>A client is registered, an event is published, and the hub hands it on.\<close>

definition joined :: hub_sys where
  "joined = (leak_registered C_streaming)\<lparr>sy_hub :=
     on_register 0 ((sy_hub (leak_registered C_streaming))\<lparr>hb_register := make_chan 64\<rparr>)\<rparr>"

definition announced :: hub_sys where
  "announced = joined\<lparr>sy_hub := hub_offer (stamped ''a'') (sy_hub joined), sy_published := [stamped ''a'']\<rparr>"

definition handed_on :: hub_sys where
  "handed_on = set_panic (on_broadcast (stamped ''a'') ((sy_hub announced)\<lparr>hb_broadcast := make_chan 256\<rparr>)) announced
     \<lparr>sy_dispatched := [(False, stamped ''a'')]\<rparr>"

lemma handed_on_reachable: "hub_step\<^sup>*\<^sup>* hub_start handed_on"
proof -
  have "hub_step hub_start (leak_conn C_subscribing)"
    using hub_step.subscribe [of "''''" hub_start 0 "snd (new_client '''' NewHub)"]
    by (simp add: leak_defs)
  moreover have "hub_step (leak_conn C_subscribing) (leak_registered C_streaming)"
    using hub_step.send_register [of "leak_conn C_subscribing" 0 "chan_offer 0 (make_chan 64)"]
    by (simp add: leak_defs)
  moreover have "hub_step (leak_registered C_streaming) joined"
    using hub_step.run_register [of "leak_registered C_streaming" 0 "make_chan 64"]
    by (simp add: joined_def leak_defs)
  moreover have "hub_step joined announced"
    using hub_step.publish [of joined "stamped ''a''"]
    by (simp add: announced_def) (simp add: joined_def leak_defs)
  moreover have "hub_step announced handed_on"
    using hub_step.run_broadcast [of announced "stamped ''a''" "make_chan 256"]
    by (simp add: handed_on_def) (simp add: announced_def joined_def leak_defs on_register_def hub_offer_def)
  ultimately show ?thesis by (meson converse_rtranclp_into_rtranclp rtranclp.rtrancl_refl)
qed

lemma handed_on_waits: "ch_buf (cl_Send (hb_heap (sy_hub handed_on) 0)) = [stamped ''a'']"
  by code_simp

theorem hub_delivery_order_witness:
  "subseq (sy_seen handed_on 0 @ [stamped ''a'']) (map snd (sy_dispatched handed_on)) \<and>
   subseq (map snd (filter (\<lambda>d. \<not> fst d) (sy_dispatched handed_on)) @ ch_buf (hb_broadcast (sy_hub handed_on)))
     (sy_published handed_on)"
  using hub_delivery_order [OF handed_on_reachable, of 0] unfolding handed_on_waits .

definition small_hub :: hub where
  "small_hub = NewHub\<lparr>hb_broadcast := chan_offer (stamped ''a'') (make_chan 2)\<rparr>"

definition demo_hub_env :: hub_env where
  "demo_hub_env = \<lparr>clock = int, clock_pos = 0, faults = (\<lambda>_. F_ok), fault_pos = 0, agents = [],
     telemetry = [], alert_rules = [], alerts = [], alert_comments = [], notification_channels = [],
     notification_deliveries = [], api_tokens = [], telemetry_hourly = [], hub = small_hub\<rparr>"

theorem publish_burst_witness:
  "ch_buf (hb_broadcast (hub (fold Publish [stamped ''b'', stamped ''c''] demo_hub_env))) =
     [stamped ''a'', stamped ''b'']"
proof -
  have "\<forall>e \<in> set [stamped ''b'', stamped ''c'']. \<not> IsZero (ev_Timestamp e)"
    by (simp add: stamped_def IsZero_def zero_time_def)
  from publish_burst [OF this, of demo_hub_env] show ?thesis
    by (simp add: demo_hub_env_def small_hub_def chan_room_def chan_offer_def chan_try_send_def make_chan_def)
qed

definition two_clients :: hub where
  "two_clients = NewHub\<lparr>hb_clients := [0, 1], hb_heap := (\<lambda>_. \<lparr>cl_ID = '''', cl_Send = make_chan 64\<rparr>)\<rparr>"

theorem broadcast_reaches_all_witness:
  "fold (client_send (stamped ''a'')) [1, 0] (False, two_clients) = on_broadcast (stamped ''a'') two_clients \<and>
   ch_buf (cl_Send (hb_heap (snd (on_broadcast (stamped ''a'') two_clients)) 1)) = [stamped ''a'']"
proof -
  have "distinct (hb_clients two_clients)"
    and "\<forall>a \<in> set (hb_clients two_clients). \<not> ch_closed (cl_Send (hb_heap two_clients a)) \<and>
      ch_cap (cl_Send (hb_heap two_clients a)) = 64"
    and "distinct [1, 0::nat]" and "set [1, 0] = set (hb_clients two_clients)"
    by (auto simp: two_clients_def make_chan_def)
  from broadcast_reaches_all [OF this, of "stamped ''a''"] show ?thesis
    by (simp add: two_clients_def make_chan_def)
qed

end
