(* ===== verification/Notif_Repo.thy ===== *)
theory Notif_Repo
  imports Database
begin

text \<open>
  The statements of internal/notifications/repository.go over the tables of channels and
  deliveries.  The list functions stop at the end of the rows they got and never ask rows.Err(),
  so a broken stream gives them a shorter list and no error.
\<close>

section \<open>The functions\<close>

definition notif_ListChannels :: "'a db_env_scheme \<Rightarrow> (dberr + Channel list) \<times> 'a db_env_scheme" where
  "notif_ListChannels s =
     (case db_Query (\<lambda>s. sort_key cn_CreatedAt (notification_channels s)) s of (r, s1) \<Rightarrow>
       ((case r of Inl e \<Rightarrow> Inl e | Inr (rows, _) \<Rightarrow> Inr rows), s1))"

definition notif_GetChannelByID ::
  "string \<Rightarrow> 'a db_env_scheme \<Rightarrow> (dberr + Channel) \<times> 'a db_env_scheme"
where
  "notif_GetChannelByID i =
     db_run (\<lambda>s. (select_one (\<lambda>c. cn_ID c = i) (notification_channels s), s))"

definition insert_channel :: "Channel \<Rightarrow> 'a db_env_scheme \<Rightarrow> (dberr + Channel) \<times> 'a db_env_scheme" where
  "insert_channel c s =
     (case time_Now s of (now, s1) \<Rightarrow>
       let row = c\<lparr>cn_CreatedAt := now, cn_UpdatedAt := now\<rparr> in
       if cn_ID c \<in> cn_ID ` set (notification_channels s1) then (Inl Constraint, s1)
       else (Inr row, s1\<lparr>notification_channels := notification_channels s1 @ [row]\<rparr>))"

definition notif_CreateChannel ::
  "Channel \<Rightarrow> 'a db_env_scheme \<Rightarrow> (dberr + Channel) \<times> 'a db_env_scheme"
where
  "notif_CreateChannel c = db_run (insert_channel c)"

definition delete_channel :: "string \<Rightarrow> 'a db_env_scheme \<Rightarrow> (dberr + unit) \<times> 'a db_env_scheme" where
  "delete_channel i s =
     (Inr (), s\<lparr>notification_channels := filter (\<lambda>c. cn_ID c \<noteq> i) (notification_channels s),
                notification_deliveries := filter (\<lambda>d. de_ChannelID d \<noteq> i) (notification_deliveries s)\<rparr>)"

definition notif_DeleteChannel :: "string \<Rightarrow> 'a db_env_scheme \<Rightarrow> (dberr + unit) \<times> 'a db_env_scheme" where
  "notif_DeleteChannel i = db_run (delete_channel i)"

definition insert_delivery :: "Delivery \<Rightarrow> 'a db_env_scheme \<Rightarrow> (dberr + Delivery) \<times> 'a db_env_scheme" where
  "insert_delivery d s =
     (case time_Now s of (now, s1) \<Rightarrow>
       let row = d\<lparr>de_CreatedAt := now, de_SentAt := None\<rparr> in
       if \<not> (int4 (de_Attempts d) \<and> int4 (de_ResponseStatus d)) then (Inl DBFail, s1)
       else if de_ID d \<in> de_ID ` set (notification_deliveries s1)
            \<or> de_ChannelID d \<notin> cn_ID ` set (notification_channels s1)
            \<or> de_AlertID d \<notin> ar_id ` set (alerts s1) then (Inl Constraint, s1)
       else (Inr row, s1\<lparr>notification_deliveries := notification_deliveries s1 @ [row]\<rparr>))"

definition notif_CreateDelivery ::
  "Delivery \<Rightarrow> 'a db_env_scheme \<Rightarrow> (dberr + Delivery) \<times> 'a db_env_scheme"
where
  "notif_CreateDelivery d = db_run (insert_delivery d)"

definition mark_delivery :: "string \<Rightarrow> int \<Rightarrow> int \<Rightarrow> string \<Rightarrow> time \<Rightarrow> Delivery \<Rightarrow> Delivery" where
  "mark_delivery st attempts resp msg now d =
     d\<lparr>de_Status := st, de_Attempts := attempts, de_ResponseStatus := resp, de_ErrorMessage := msg,
       de_SentAt := (if st = ''delivered'' then Some now else de_SentAt d)\<rparr>"

definition update_delivery ::
  "string \<Rightarrow> string \<Rightarrow> int \<Rightarrow> int \<Rightarrow> string \<Rightarrow> 'a db_env_scheme \<Rightarrow> (dberr + unit) \<times> 'a db_env_scheme"
where
  "update_delivery i st attempts resp msg s =
     (case time_Now s of (now, s1) \<Rightarrow>
       if \<not> (int4 attempts \<and> int4 resp) then (Inl DBFail, s1)
       else (Inr (), s1\<lparr>notification_deliveries :=
               map (\<lambda>d. if de_ID d = i then mark_delivery st attempts resp msg now d else d)
                 (notification_deliveries s1)\<rparr>))"

definition notif_UpdateDelivery ::
  "string \<Rightarrow> string \<Rightarrow> int \<Rightarrow> int \<Rightarrow> string \<Rightarrow> 'a db_env_scheme \<Rightarrow> (dberr + unit) \<times> 'a db_env_scheme"
where
  "notif_UpdateDelivery i st attempts resp msg = db_run (update_delivery i st attempts resp msg)"

definition notif_ListDeliveries ::
  "int \<Rightarrow> 'a db_env_scheme \<Rightarrow> (dberr + Delivery list) \<times> 'a db_env_scheme"
where
  "notif_ListDeliveries n_lim s =
     (let n = (if n_lim \<le> 0 then 50 else n_lim) in
      case db_Query (\<lambda>s. take (nat n) (sort_key (\<lambda>d. - de_CreatedAt d) (notification_deliveries s))) s of
        (r, s1) \<Rightarrow> ((case r of Inl e \<Rightarrow> Inl e | Inr (rows, _) \<Rightarrow> Inr rows), s1))"

section \<open>They keep the schema\<close>

lemma mark_delivery_ids [simp]:
  "de_ID (mark_delivery st a r m now d) = de_ID d"
  "de_ChannelID (mark_delivery st a r m now d) = de_ChannelID d"
  "de_AlertID (mark_delivery st a r m now d) = de_AlertID d"
  "de_Status (mark_delivery st a r m now d) = st"
  "de_Attempts (mark_delivery st a r m now d) = a"
  "de_ResponseStatus (mark_delivery st a r m now d) = r"
  by (simp_all add: mark_delivery_def)

lemma insert_channel_schema: "schema_ok s \<Longrightarrow> schema_ok (snd (insert_channel c s))"
  by (auto simp: insert_channel_def time_Now_def schema_defs Let_def)

lemma delete_channel_schema: "schema_ok s \<Longrightarrow> schema_ok (snd (delete_channel i s))"
  by (auto simp: delete_channel_def schema_defs distinct_filter_key)

lemma insert_delivery_schema: "schema_ok s \<Longrightarrow> schema_ok (snd (insert_delivery d s))"
  by (auto simp: insert_delivery_def time_Now_def schema_defs Let_def)

lemma update_delivery_schema: "schema_ok s \<Longrightarrow> schema_ok (snd (update_delivery i st a r m s))"
  by (auto simp: update_delivery_def time_Now_def schema_defs comp_def if_distrib cong: if_cong)

lemma notif_schema [schema_intro]:
  "schema_ok s \<Longrightarrow> schema_ok (snd (notif_ListChannels s))"
  "schema_ok s \<Longrightarrow> schema_ok (snd (notif_GetChannelByID i s))"
  "schema_ok s \<Longrightarrow> schema_ok (snd (notif_CreateChannel c s))"
  "schema_ok s \<Longrightarrow> schema_ok (snd (notif_DeleteChannel i s))"
  "schema_ok s \<Longrightarrow> schema_ok (snd (notif_CreateDelivery d s))"
  "schema_ok s \<Longrightarrow> schema_ok (snd (notif_UpdateDelivery i st a r m s))"
  "schema_ok s \<Longrightarrow> schema_ok (snd (notif_ListDeliveries n s))"
  by (simp_all add: notif_ListChannels_def notif_GetChannelByID_def notif_CreateChannel_def
      notif_DeleteChannel_def notif_CreateDelivery_def notif_UpdateDelivery_def notif_ListDeliveries_def
      case_prod_beta Let_def db_run_schema insert_channel_schema delete_channel_schema
      insert_delivery_schema update_delivery_schema)

end
