(* ===== verification/Notif_Providers.thy ===== *)
theory Notif_Providers
  imports Events_Hub
begin

text \<open>
  internal/notifications/provider.go, webhook.go and slack.go: a notification, the two providers
  that send it, and the contract \<open>provider\<close> both fulfil.  The network is an oracle of replies read
  one call of http.Client.Do at a time; every request that is made is logged.  What the providers
  call of encoding/json, crypto/hmac, net/http and time to build a request are the fields of the
  record \<open>ext\<close>.
\<close>

section \<open>Notifications and requests\<close>

definition EventAlertFiring_n :: string where "EventAlertFiring_n = ''alert.firing''"
definition EventAlertAcknowledged_n :: string where "EventAlertAcknowledged_n = ''alert.acknowledged''"
definition EventAlertResolved_n :: string where "EventAlertResolved_n = ''alert.resolved''"

datatype nt_data = NA_Alert Alert | NA_Map "(string \<times> string) list"

record Notification =
  nt_ID :: string
  nt_Event :: string
  nt_Timestamp :: time
  nt_Alert :: nt_data
  nt_Agent :: "nt_data option"

record ext =
  json_Notification :: "Notification \<Rightarrow> string + string"
  json_slackPayload :: "string \<Rightarrow> string + string"
  NewRequest_error :: "string \<Rightarrow> string option"
  hmac_sha256 :: "string \<Rightarrow> string \<Rightarrow> string"
  Format_RFC3339 :: "time \<Rightarrow> string"

text \<open>A request that was made (its client's timeout included) and what came of it.\<close>

record outreq =
  rq_URL :: string
  rq_Header :: "(string \<times> string) list"
  rq_Body :: string
  rq_Timeout :: duration

datatype netreply = Net_error string | Net_status int

record net_env = hub_env +
  net :: "nat \<Rightarrow> netreply"
  net_pos :: nat
  net_log :: "outreq list"

definition client_Do :: "outreq \<Rightarrow> 'a net_env_scheme \<Rightarrow> netreply \<times> 'a net_env_scheme" where
  "client_Do rq s = (net s (net_pos s), s\<lparr>net_pos := Suc (net_pos s), net_log := net_log s @ [rq]\<rparr>)"

section \<open>The providers\<close>

text \<open>
  A provider is its client's timeout.  \<open>Send\<close> gives the status code and the error, if any.
\<close>

record WebhookProvider = wp_timeout :: duration
record SlackWebhookProvider = sp_timeout :: duration

definition NewWebhookProvider :: "duration \<Rightarrow> WebhookProvider" where
  "NewWebhookProvider timeout = \<lparr>wp_timeout = (if timeout \<le> 0 then 10 * time_Second else timeout)\<rparr>"

definition NewSlackWebhookProvider :: "duration \<Rightarrow> SlackWebhookProvider" where
  "NewSlackWebhookProvider timeout = \<lparr>sp_timeout = (if timeout \<le> 0 then 10 * time_Second else timeout)\<rparr>"

definition hex_digit :: "nat \<Rightarrow> char" where
  "hex_digit n = (if n < 10 then char_of (48 + n) else char_of (87 + n))"

definition hex_EncodeToString :: "string \<Rightarrow> string" where
  "hex_EncodeToString bs =
     concat (map (\<lambda>c. [hex_digit (of_char c div 16), hex_digit (of_char c mod 16)]) bs)"

definition webhook_request :: "ext \<Rightarrow> WebhookProvider \<Rightarrow> string \<Rightarrow> string \<Rightarrow> string \<Rightarrow> outreq" where
  "webhook_request x p channelURL secret payload =
     \<lparr>rq_URL = channelURL,
       rq_Header =
         [(''Content-Type'', ''application/json''),
          (''User-Agent'', ''OpsNexus-NotificationService/1.0'')] @
         (if secret \<noteq> ''''
          then [(''X-OpsNexus-Signature'',
                 ''sha256='' @ hex_EncodeToString (hmac_sha256 x secret payload))]
          else []),
       rq_Body = payload, rq_Timeout = wp_timeout p\<rparr>"

definition WebhookProvider_Send ::
  "ext \<Rightarrow> WebhookProvider \<Rightarrow> string \<Rightarrow> string \<Rightarrow> Notification \<Rightarrow> 'a net_env_scheme \<Rightarrow>
   (int \<times> string option) \<times> 'a net_env_scheme"
where
  "WebhookProvider_Send x p channelURL secret n s =
     (case json_Notification x n of
        Inl e \<Rightarrow> ((0, Some (''marshal notification payload: '' @ e)), s)
      | Inr payload \<Rightarrow>
        (case NewRequest_error x channelURL of
           Some e \<Rightarrow> ((0, Some (''create webhook request: '' @ e)), s)
         | None \<Rightarrow>
           (case client_Do (webhook_request x p channelURL secret payload) s of (reply, s1) \<Rightarrow>
             ((case reply of
                 Net_error e \<Rightarrow> (0, Some (''dispatch webhook: '' @ e))
               | Net_status code \<Rightarrow>
                   (if code < 200 \<or> code \<ge> 300
                    then (code, Some (''webhook responded with HTTP '' @ show_int code))
                    else (code, None))), s1))))"

definition slack_emoji :: "string \<Rightarrow> string" where
  "slack_emoji event =
     (if event = EventAlertResolved_n then [CHR 0xE2, CHR 0x9C, CHR 0x85]
      else if event = EventAlertAcknowledged_n then [CHR 0xF0, CHR 0x9F, CHR 0x91, CHR 0x80]
      else [CHR 0xF0, CHR 0x9F, CHR 0x9A, CHR 0xA8])"

definition slack_text :: "ext \<Rightarrow> Notification \<Rightarrow> string" where
  "slack_text x n =
     slack_emoji (nt_Event n) @ '' *OpsNexus Notification: '' @ nt_Event n @ ''*\<newline>Event: `'' @
     nt_Event n @ ''` | Time: `'' @ Format_RFC3339 x (nt_Timestamp n) @ ''`''"

definition slack_request :: "SlackWebhookProvider \<Rightarrow> string \<Rightarrow> string \<Rightarrow> outreq" where
  "slack_request p channelURL payload =
     \<lparr>rq_URL = channelURL, rq_Header = [(''Content-Type'', ''application/json'')],
       rq_Body = payload, rq_Timeout = sp_timeout p\<rparr>"

definition SlackWebhookProvider_Send ::
  "ext \<Rightarrow> SlackWebhookProvider \<Rightarrow> string \<Rightarrow> string \<Rightarrow> Notification \<Rightarrow> 'a net_env_scheme \<Rightarrow>
   (int \<times> string option) \<times> 'a net_env_scheme"
where
  "SlackWebhookProvider_Send x p channelURL secret n s =
     (case json_slackPayload x (slack_text x n) of
        Inl e \<Rightarrow> ((0, Some (''marshal slack payload: '' @ e)), s)
      | Inr payload \<Rightarrow>
        (case NewRequest_error x channelURL of
           Some e \<Rightarrow> ((0, Some (''create slack webhook request: '' @ e)), s)
         | None \<Rightarrow>
           (case client_Do (slack_request p channelURL payload) s of (reply, s1) \<Rightarrow>
             ((case reply of
                 Net_error e \<Rightarrow> (0, Some (''dispatch slack webhook: '' @ e))
               | Net_status code \<Rightarrow>
                   (if code < 200 \<or> code \<ge> 300
                    then (code, Some (''slack webhook responded with HTTP '' @ show_int code))
                    else (code, None))), s1))))"

section \<open>The contract of a provider\<close>

text \<open>
  What the queue and the test endpoint rely on: a call changes nothing but the network log, makes
  at most one request, to the URL of the channel, and reports no error exactly when that request
  was answered with a 2xx status, which it then returns.
\<close>

definition reply_result :: "(string \<Rightarrow> string) \<Rightarrow> (int \<Rightarrow> string) \<Rightarrow> netreply \<Rightarrow> int \<times> string option" where
  "reply_result f g r =
     (case r of
        Net_error e \<Rightarrow> (0, Some (f e))
      | Net_status c \<Rightarrow> (c, (if c < 200 \<or> c \<ge> 300 then Some (g c) else None)))"

locale provider =
  fixes send :: "string \<Rightarrow> string \<Rightarrow> Notification \<Rightarrow> 'a net_env_scheme \<Rightarrow>
    (int \<times> string option) \<times> 'a net_env_scheme"
  assumes send_shape:
    "(\<exists>e. send u k n s = ((0, Some e), s)) \<or>
     (\<exists>rq f g. rq_URL rq = u \<and> send u k n s = (reply_result f g (net s (net_pos s)), snd (client_Do rq s)))"
begin

lemma send_cases:
  obtains (failed) e where "send u k n s = ((0, Some e), s)"
  | (asked) rq f g where "rq_URL rq = u"
      "send u k n s = (reply_result f g (net s (net_pos s)), snd (client_Do rq s))"
  using send_shape by blast

lemma send_success:
  assumes "send u k n s = ((c, None), s')"
  shows "net s (net_pos s) = Net_status c \<and> 200 \<le> c \<and> c < 300 \<and>
         (\<exists>rq. rq_URL rq = u \<and> net_log s' = net_log s @ [rq])"
proof (rule send_cases [of u k n s])
  fix rq f g
  assume "rq_URL rq = u" "send u k n s = (reply_result f g (net s (net_pos s)), snd (client_Do rq s))"
  with assms show ?thesis
    by (auto simp: client_Do_def reply_result_def split: netreply.splits if_splits)
qed (use assms in simp)

lemma send_at_most_one:
  "\<exists>rqs. net_log (snd (send u k n s)) = net_log s @ rqs \<and> length rqs \<le> 1 \<and>
     (\<forall>rq \<in> set rqs. rq_URL rq = u) \<and> net_pos (snd (send u k n s)) = net_pos s + length rqs"
proof (rule send_cases [of u k n s])
  fix e
  assume "send u k n s = ((0, Some e), s)"
  then show ?thesis by (intro exI [of _ "[]"]) simp
next
  fix rq f g
  assume "rq_URL rq = u" "send u k n s = (reply_result f g (net s (net_pos s)), snd (client_Do rq s))"
  then show ?thesis by (intro exI [of _ "[rq]"]) (simp add: client_Do_def)
qed

lemma send_frame: "\<exists>m lg. snd (send u k n s) = s\<lparr>net_pos := m, net_log := lg\<rparr>"
proof (rule send_cases [of u k n s])
  fix e
  assume "send u k n s = ((0, Some e), s)"
  then have "snd (send u k n s) = s\<lparr>net_pos := net_pos s, net_log := net_log s\<rparr>" by simp
  then show ?thesis by blast
next
  fix rq f g
  assume "send u k n s = (reply_result f g (net s (net_pos s)), snd (client_Do rq s))"
  then show ?thesis unfolding client_Do_def by auto
qed

lemma send_status_range:
  assumes "\<And>i c. net s i = Net_status c \<Longrightarrow> int4 c"
  shows "int4 (fst (fst (send u k n s)))"
proof (rule send_cases [of u k n s])
  fix rq f g
  assume "send u k n s = (reply_result f g (net s (net_pos s)), snd (client_Do rq s))"
  with assms show ?thesis
    by (auto simp: reply_result_def int4_def split: netreply.splits)
qed (simp add: int4_def)

end

lemma WebhookProvider_Send_asked:
  assumes "json_Notification x n = Inr payload" and "NewRequest_error x u = None"
  shows "WebhookProvider_Send x p u k n s =
    (reply_result (\<lambda>e. ''dispatch webhook: '' @ e) (\<lambda>c. ''webhook responded with HTTP '' @ show_int c)
       (net s (net_pos s)), snd (client_Do (webhook_request x p u k payload) s))"
  using assms by (simp add: WebhookProvider_Send_def reply_result_def client_Do_def split: netreply.split)

lemma SlackWebhookProvider_Send_asked:
  assumes "json_slackPayload x (slack_text x n) = Inr payload" and "NewRequest_error x u = None"
  shows "SlackWebhookProvider_Send x p u k n s =
    (reply_result (\<lambda>e. ''dispatch slack webhook: '' @ e)
       (\<lambda>c. ''slack webhook responded with HTTP '' @ show_int c)
       (net s (net_pos s)), snd (client_Do (slack_request p u payload) s))"
  using assms by (simp add: SlackWebhookProvider_Send_def reply_result_def client_Do_def split: netreply.split)

interpretation webhook: provider "WebhookProvider_Send x p" for x p
proof (unfold_locales, goal_cases)
  case (1 u k n s)
  show ?case
  proof (cases "(\<exists>e. json_Notification x n = Inl e) \<or> NewRequest_error x u \<noteq> None")
    case True
    then show ?thesis by (auto simp: WebhookProvider_Send_def split: sum.split option.split)
  next
    case False
    then obtain payload where "json_Notification x n = Inr payload" "NewRequest_error x u = None"
      by (cases "json_Notification x n") auto
    note WebhookProvider_Send_asked [OF this, of p k s]
    moreover have "rq_URL (webhook_request x p u k payload) = u" by (simp add: webhook_request_def)
    ultimately show ?thesis by blast
  qed
qed

interpretation slack: provider "SlackWebhookProvider_Send x p" for x p
proof (unfold_locales, goal_cases)
  case (1 u k n s)
  show ?case
  proof (cases "(\<exists>e. json_slackPayload x (slack_text x n) = Inl e) \<or> NewRequest_error x u \<noteq> None")
    case True
    then show ?thesis by (auto simp: SlackWebhookProvider_Send_def split: sum.split option.split)
  next
    case False
    then obtain payload where "json_slackPayload x (slack_text x n) = Inr payload" "NewRequest_error x u = None"
      by (cases "json_slackPayload x (slack_text x n)") auto
    note SlackWebhookProvider_Send_asked [OF this, of p k s]
    moreover have "rq_URL (slack_request p u payload) = u" by (simp add: slack_request_def)
    ultimately show ?thesis by blast
  qed
qed

end
