(* ===== verification/Notif_Queue.thy ===== *)
theory Notif_Queue
  imports Notif_Repo Notif_Providers
begin

text \<open>
  internal/notifications/queue.go: the jobs, the bounded channel of the queue, \<open>Enqueue\<close>, and
  what a worker does with a job.  \<open>processJob\<close> is the composition of the call of the provider,
  the sleep and the outcomes, which \<open>Queue_System\<close> interleaves.  The sleeps are a history, and
  \<open>queue_panic\<close> records a send on a channel that \<open>Stop\<close> has closed.
\<close>

section \<open>State\<close>

record Job =
  jb_DeliveryID :: string
  jb_Channel :: Channel
  jb_Notification :: Notification
  jb_Attempt :: int

record Queue =
  q_webhookProv :: WebhookProvider
  q_slackProv :: SlackWebhookProvider
  q_jobs :: "Job chan"
  q_maxRetries :: int
  q_workerCount :: nat

definition NewQueue :: "int \<Rightarrow> int \<Rightarrow> int \<Rightarrow> duration \<Rightarrow> Queue" where
  "NewQueue workerCount queueSize maxRetries timeout =
     \<lparr>q_webhookProv = NewWebhookProvider timeout,
      q_slackProv = NewSlackWebhookProvider timeout,
      q_jobs = make_chan (nat (if queueSize \<le> 0 then 256 else queueSize)),
      q_maxRetries = (if maxRetries \<le> 0 then 3 else maxRetries),
      q_workerCount = nat (if workerCount \<le> 0 then 4 else workerCount)\<rparr>"

record queue_env = net_env +
  queue :: Queue
  queue_panic :: bool
  sleeps :: "duration list"

definition set_jobs :: "Job chan \<Rightarrow> 'a queue_env_scheme \<Rightarrow> 'a queue_env_scheme" where
  "set_jobs c s = s\<lparr>queue := (queue s)\<lparr>q_jobs := c\<rparr>\<rparr>"

definition time_Sleep :: "duration \<Rightarrow> 'a queue_env_scheme \<Rightarrow> 'a queue_env_scheme" where
  "time_Sleep d s = s\<lparr>sleeps := sleeps s @ [d]\<rparr>"

text \<open>\<open>Stop\<close> closes the channel before it waits for the workers.\<close>

definition Queue_Stop_close :: "'a queue_env_scheme \<Rightarrow> 'a queue_env_scheme" where
  "Queue_Stop_close s =
     (case chan_close (q_jobs (queue s)) of (oc, c) \<Rightarrow>
       (set_jobs c s)\<lparr>queue_panic := queue_panic s \<or> oc = Op_panic\<rparr>)"

section \<open>Enqueue\<close>

definition delivery_id :: "time \<Rightarrow> string" where
  "delivery_id now = ''del-'' @ show_int (UnixNano now)"

definition new_delivery :: "string \<Rightarrow> Channel \<Rightarrow> string \<Rightarrow> string \<Rightarrow> Delivery" where
  "new_delivery i ch alertID event =
     \<lparr>de_ID = i, de_ChannelID = cn_ID ch, de_AlertID = alertID, de_EventType = event,
      de_Status = ''pending'', de_Attempts = 0, de_ResponseStatus = 0, de_ErrorMessage = '''',
      de_CreatedAt = zero_time, de_SentAt = None\<rparr>"

definition enqueue_job :: "Job \<Rightarrow> 'a queue_env_scheme \<Rightarrow> 'a queue_env_scheme" where
  "enqueue_job job s =
     (case chan_try_send job (q_jobs (queue s)) of
        (Op_done, c) \<Rightarrow> set_jobs c s
      | (Op_block, _) \<Rightarrow> snd (notif_UpdateDelivery (jb_DeliveryID job) ''failed'' 0 0 ''queue full'' s)
      | (Op_panic, _) \<Rightarrow> s\<lparr>queue_panic := True\<rparr>)"

text \<open>
  The body of the loop over the channels, in two parts: the row is inserted, and if that succeeded its
  job is offered to the queue.  Between the two the row is pending and only this goroutine has the job.
\<close>

definition create_pending ::
  "string \<Rightarrow> string \<Rightarrow> Notification \<Rightarrow> Channel \<Rightarrow> 'a queue_env_scheme \<Rightarrow> Job option \<times> 'a queue_env_scheme"
where
  "create_pending event alertID notification ch s =
     (if queue_panic s \<or> \<not> cn_Enabled ch then (None, s)
      else
        (case time_Now s of (now, s1) \<Rightarrow>
          (case notif_CreateDelivery
                 (new_delivery (delivery_id now) ch alertID event) s1 of
             (Inl _, s2) \<Rightarrow> (None, s2)
           | (Inr created, s2) \<Rightarrow>
               (Some \<lparr>jb_DeliveryID = de_ID created, jb_Channel = ch, jb_Notification = notification,
                      jb_Attempt = 1\<rparr>, s2))))"

definition enqueue_channel ::
  "string \<Rightarrow> string \<Rightarrow> Notification \<Rightarrow> Channel \<Rightarrow> 'a queue_env_scheme \<Rightarrow> 'a queue_env_scheme"
where
  "enqueue_channel event alertID notification ch s =
     (case create_pending event alertID notification ch s of
        (None, s1) \<Rightarrow> s1
      | (Some job, s1) \<Rightarrow> enqueue_job job s1)"

definition Enqueue :: "string \<Rightarrow> string \<Rightarrow> nt_data \<Rightarrow> 'a queue_env_scheme \<Rightarrow> 'a queue_env_scheme" where
  "Enqueue event alertID alertData s =
     (case notif_ListChannels s of
        (Inl _, s1) \<Rightarrow> s1
      | (Inr chs, s1) \<Rightarrow>
        (case time_Now s1 of (now, s2) \<Rightarrow>
         case time_Now s2 of (ts, s3) \<Rightarrow>
           fold (enqueue_channel event alertID
                   \<lparr>nt_ID = ''notif-'' @ show_int (UnixNano now), nt_Event = event,
                    nt_Timestamp = ts, nt_Alert = alertData, nt_Agent = None\<rparr>)
             chs s3))"

section \<open>The worker\<close>

text \<open>The provider the worker picks for the type of a channel.\<close>

definition pick_Send ::
  "ext \<Rightarrow> Queue \<Rightarrow> Channel \<Rightarrow> string \<Rightarrow> string \<Rightarrow> Notification \<Rightarrow> 'a net_env_scheme \<Rightarrow>
   (int \<times> string option) \<times> 'a net_env_scheme"
where
  "pick_Send x q ch =
     (if cn_Type ch = ''slack_webhook'' then SlackWebhookProvider_Send x (q_slackProv q)
      else WebhookProvider_Send x (q_webhookProv q))"

definition job_send ::
  "ext \<Rightarrow> Job \<Rightarrow> 'a queue_env_scheme \<Rightarrow> (int \<times> string option) \<times> 'a queue_env_scheme"
where
  "job_send x job s =
     pick_Send x (queue s) (jb_Channel job)
       (cn_URL (jb_Channel job)) (cn_Secret (jb_Channel job)) (jb_Notification job) s"

definition job_delivered :: "Job \<Rightarrow> int \<Rightarrow> 'a queue_env_scheme \<Rightarrow> 'a queue_env_scheme" where
  "job_delivered job resp s =
     snd (notif_UpdateDelivery (jb_DeliveryID job) ''delivered'' (jb_Attempt job) resp '''' s)"

definition job_failed :: "Job \<Rightarrow> int \<Rightarrow> string \<Rightarrow> 'a queue_env_scheme \<Rightarrow> 'a queue_env_scheme" where
  "job_failed job resp err s =
     snd (notif_UpdateDelivery (jb_DeliveryID job) ''failed'' (jb_Attempt job) resp err s)"

definition job_retries :: "Job \<Rightarrow> 'a queue_env_scheme \<Rightarrow> bool" where
  "job_retries job s \<longleftrightarrow> jb_Attempt job < q_maxRetries (queue s)"

definition job_backoff :: "Job \<Rightarrow> duration" where
  "job_backoff job = int64_wrap (jb_Attempt job * jb_Attempt job * time_Second)"

text \<open>After the sleep the job goes back to the end of the channel, or is given up if that is full.\<close>

definition job_requeue :: "Job \<Rightarrow> int \<Rightarrow> string \<Rightarrow> 'a queue_env_scheme \<Rightarrow> 'a queue_env_scheme" where
  "job_requeue job resp err s =
     (let job' = job\<lparr>jb_Attempt := jb_Attempt job + 1\<rparr> in
      case chan_try_send job' (q_jobs (queue s)) of
        (Op_done, c) \<Rightarrow> set_jobs c s
      | (Op_block, _) \<Rightarrow> job_failed job' resp err s
      | (Op_panic, _) \<Rightarrow> s\<lparr>queue_panic := True\<rparr>)"

definition processJob :: "ext \<Rightarrow> Job \<Rightarrow> 'a queue_env_scheme \<Rightarrow> 'a queue_env_scheme" where
  "processJob x job s =
     (case job_send x job s of ((resp, err), s1) \<Rightarrow>
       (case err of
          None \<Rightarrow> job_delivered job resp s1
        | Some e \<Rightarrow>
            (if job_retries job s1
             then job_requeue job resp e (time_Sleep (job_backoff job) s1)
             else job_failed job resp e s1)))"

text \<open>One worker on its own, for as many jobs as \<open>n\<close>; it stops when it would have to wait.\<close>

fun worker :: "ext \<Rightarrow> nat \<Rightarrow> 'a queue_env_scheme \<Rightarrow> 'a queue_env_scheme" where
  "worker x 0 s = s"
| "worker x (Suc n) s =
     (case chan_recv (q_jobs (queue s)) of
        (Recv_val job, c) \<Rightarrow> worker x n (processJob x job (set_jobs c s))
      | _ \<Rightarrow> s)"

section \<open>The provider of a job\<close>

text \<open>Whichever provider a channel type selects, the worker relies on the contract alone.\<close>

interpretation picked: provider "pick_Send x q ch" for x q ch
  by (simp add: pick_Send_def webhook.provider_axioms slack.provider_axioms)

lemma job_send_frame: "\<exists>m lg. snd (job_send x job s) = s\<lparr>net_pos := m, net_log := lg\<rparr>"
  unfolding job_send_def by (rule picked.send_frame)

lemma job_send_at_most_one:
  "\<exists>rqs. net_log (snd (job_send x job s)) = net_log s @ rqs \<and> length rqs \<le> 1 \<and>
     (\<forall>rq \<in> set rqs. rq_URL rq = cn_URL (jb_Channel job))"
  unfolding job_send_def using picked.send_at_most_one by blast

lemma job_send_status_range:
  "(\<And>i c. net s i = Net_status c \<Longrightarrow> int4 c) \<Longrightarrow> int4 (fst (fst (job_send x job s)))"
  unfolding job_send_def by (rule picked.send_status_range)

lemma job_send_2xx:
  "job_send x job s = ((c, None), s') \<Longrightarrow> net s (net_pos s) = Net_status c \<and> 200 \<le> c \<and> c < 300"
  unfolding job_send_def using picked.send_success by blast

section \<open>What the operations leave alone\<close>

named_theorems queue_frame \<open>what the queue operations leave alone\<close>

lemma set_jobs_simps [queue_frame, simp]:
  "q_jobs (queue (set_jobs c s)) = c" "q_maxRetries (queue (set_jobs c s)) = q_maxRetries (queue s)"
  "q_workerCount (queue (set_jobs c s)) = q_workerCount (queue s)"
  "queue_panic (set_jobs c s) = queue_panic s"
  "notification_deliveries (set_jobs c s) = notification_deliveries s"
  "clock (set_jobs c s) = clock s" "clock_pos (set_jobs c s) = clock_pos s"
  "faults (set_jobs c s) = faults s" "net (set_jobs c s) = net s"
  "notification_channels (set_jobs c s) = notification_channels s" "alerts (set_jobs c s) = alerts s"
  "hub (set_jobs c s) = hub s" "alert_rules (set_jobs c s) = alert_rules s" "agents (set_jobs c s) = agents s"
  by (simp_all add: set_jobs_def)

lemma time_Sleep_simps [queue_frame, simp]:
  "queue (time_Sleep d s) = queue s" "queue_panic (time_Sleep d s) = queue_panic s"
  "notification_deliveries (time_Sleep d s) = notification_deliveries s"
  "clock (time_Sleep d s) = clock s" "clock_pos (time_Sleep d s) = clock_pos s"
  "faults (time_Sleep d s) = faults s" "net (time_Sleep d s) = net s"
  "sleeps (time_Sleep d s) = sleeps s @ [d]"
  by (simp_all add: time_Sleep_def)

end
