(* ===== verification/Queue_System.thy ===== *)
theory Queue_System
  imports Notif_Queue "HOL-Library.Multiset"
begin

text \<open>
  The workers of the notification queue running beside everything else: a step is one operation
  of a worker (taking a job, finishing a request, waking after the backoff), one of the two halves of
  the loop body of \<open>Enqueue\<close> (inserting the row of a delivery, and offering its job), or any action of
  the rest of the program, which may delete deliveries (the cascades) but neither touches the queue
  nor adds or changes a delivery.  The work left strictly decreases with every step of a worker and
  every offer, so the queue drains.
\<close>

section \<open>What the repository functions do to the queue's part of the state\<close>

definition same_queue :: "'a queue_env_scheme \<Rightarrow> 'a queue_env_scheme \<Rightarrow> bool" where
  "same_queue s t \<longleftrightarrow>
     queue t = queue s \<and> queue_panic t = queue_panic s \<and> clock t = clock s \<and>
     clock_pos s \<le> clock_pos t \<and> faults t = faults s \<and> net t = net s"

lemma same_queue_refl [simp]: "same_queue s s"
  by (simp add: same_queue_def)

lemma same_queue_trans: "same_queue s t \<Longrightarrow> same_queue t u \<Longrightarrow> same_queue s u"
  by (auto simp: same_queue_def)

lemma UpdateDelivery_same: "same_queue s (snd (notif_UpdateDelivery i st a r m s))"
  unfolding notif_UpdateDelivery_def
  by (rule db_run_state) (simp_all add: same_queue_def update_delivery_def time_Now_def)

lemma CreateDelivery_same: "same_queue s (snd (notif_CreateDelivery d s))"
  unfolding notif_CreateDelivery_def
  by (rule db_run_state) (simp_all add: same_queue_def insert_delivery_def time_Now_def Let_def)

lemma job_send_same: "same_queue s (snd (job_send x job s))"
proof -
  obtain m lg where "snd (job_send x job s) = s\<lparr>net_pos := m, net_log := lg\<rparr>"
    using job_send_frame by blast
  then show ?thesis by (simp add: same_queue_def)
qed

lemma job_send_deliveries: "notification_deliveries (snd (job_send x job s)) = notification_deliveries s"
proof -
  obtain m lg where "snd (job_send x job s) = s\<lparr>net_pos := m, net_log := lg\<rparr>"
    using job_send_frame by blast
  then show ?thesis by simp
qed

lemmas queue_frame_simps [queue_frame, simp] =
  UpdateDelivery_same [unfolded same_queue_def] CreateDelivery_same [unfolded same_queue_def]
  job_send_same [unfolded same_queue_def]

definition marked ::
  "string \<Rightarrow> string \<Rightarrow> int \<Rightarrow> int \<Rightarrow> string \<Rightarrow> time \<Rightarrow> Delivery list \<Rightarrow> Delivery list"
where
  "marked i st a r m now ds = map (\<lambda>d. if de_ID d = i then mark_delivery st a r m now d else d) ds"

lemma UpdateDelivery_deliveries:
  "notification_deliveries (snd (notif_UpdateDelivery i st a r m s)) = notification_deliveries s \<or>
   (\<exists>now. notification_deliveries (snd (notif_UpdateDelivery i st a r m s)) =
            marked i st a r m now (notification_deliveries s))"
  unfolding notif_UpdateDelivery_def
  by (rule db_run_state) (auto simp: update_delivery_def time_Now_def marked_def)

lemma UpdateDelivery_reliable:
  assumes "reliable s" and "int4 a" and "int4 r"
  shows "\<exists>now. notification_deliveries (snd (notif_UpdateDelivery i st a r m s)) =
           marked i st a r m now (notification_deliveries s)"
  using assms
  by (auto simp: notif_UpdateDelivery_def db_run_reliable update_delivery_def time_Now_def marked_def)

lemma CreateDelivery_deliveries:
  assumes "notif_CreateDelivery d s = (res, t)"
  shows "(notification_deliveries t = notification_deliveries s \<and> (\<exists>e. res = Inl e)) \<or>
         (\<exists>row. notification_deliveries t = notification_deliveries s @ [row] \<and>
            de_ID d \<notin> de_ID ` set (notification_deliveries s) \<and> de_ID row = de_ID d \<and>
            de_Status row = de_Status d \<and> de_Attempts row = de_Attempts d \<and>
            de_ResponseStatus row = de_ResponseStatus d \<and> de_SentAt row = None \<and>
            (res = Inr row \<or> \<not> reliable s \<and> (\<exists>e. res = Inl e)))"
  using assms
  by (auto simp: notif_CreateDelivery_def db_run_def next_fault_def insert_delivery_def time_Now_def
      Let_def reliable_def split: fault.splits if_splits)

lemma marked_ids [simp]: "map de_ID (marked i st a r m now ds) = map de_ID ds"
  by (induction ds) (simp_all add: marked_def)

lemma marked_member:
  "d \<in> set (marked i st a r m now ds) \<longleftrightarrow>
     (d \<in> set ds \<and> de_ID d \<noteq> i) \<or> (\<exists>d0 \<in> set ds. de_ID d0 = i \<and> d = mark_delivery st a r m now d0)"
  by (auto simp: marked_def)

section \<open>The system\<close>

datatype flight = Sending Job | Backoff Job int string

primrec flight_job :: "flight \<Rightarrow> Job" where
  "flight_job (Sending j) = j"
| "flight_job (Backoff j r e) = j"

text \<open>
  A job is with a worker (\<open>qs_flight\<close>), in the channel of the queue, or with the goroutine of an
  \<open>Enqueue\<close> that has inserted its row and has not offered it yet (\<open>qs_offers\<close>).
\<close>

record 'a queue_sys =
  qs_env :: "'a queue_env_scheme"
  qs_flight :: "flight list"
  qs_offers :: "Job list"

definition qs_buf :: "'a queue_sys \<Rightarrow> Job list" where
  "qs_buf s = ch_buf (q_jobs (queue (qs_env s)))"

definition max_tries :: "'a queue_sys \<Rightarrow> int" where
  "max_tries s = q_maxRetries (queue (qs_env s))"

definition deliveries :: "'a queue_sys \<Rightarrow> Delivery list" where
  "deliveries s = notification_deliveries (qs_env s)"

definition tokens :: "'a queue_sys \<Rightarrow> Job list" where
  "tokens s = qs_buf s @ map flight_job (qs_flight s) @ qs_offers s"

text \<open>
  The steps by which the deliveries under way come to their end: those of the workers, and the second
  half of the loop body of an \<open>Enqueue\<close>.
\<close>

inductive worker_step :: "ext \<Rightarrow> 'a queue_sys \<Rightarrow> 'a queue_sys \<Rightarrow> bool" for x where
  take_job:
    "length (qs_flight s) < q_workerCount (queue (qs_env s)) \<Longrightarrow>
     chan_recv (q_jobs (queue (qs_env s))) = (Recv_val job, c) \<Longrightarrow>
     worker_step x s (s\<lparr>qs_env := set_jobs c (qs_env s), qs_flight := qs_flight s @ [Sending job]\<rparr>)"
| delivered:
    "qs_flight s = fs @ Sending job # gs \<Longrightarrow> job_send x job (qs_env s) = ((resp, None), e) \<Longrightarrow>
     worker_step x s (s\<lparr>qs_env := job_delivered job resp e, qs_flight := fs @ gs\<rparr>)"
| gave_up:
    "qs_flight s = fs @ Sending job # gs \<Longrightarrow> job_send x job (qs_env s) = ((resp, Some err), e) \<Longrightarrow>
     \<not> job_retries job e \<Longrightarrow>
     worker_step x s (s\<lparr>qs_env := job_failed job resp err e, qs_flight := fs @ gs\<rparr>)"
| sleep:
    "qs_flight s = fs @ Sending job # gs \<Longrightarrow> job_send x job (qs_env s) = ((resp, Some err), e) \<Longrightarrow>
     job_retries job e \<Longrightarrow>
     worker_step x s (s\<lparr>qs_env := time_Sleep (job_backoff job) e,
                        qs_flight := fs @ Backoff job resp err # gs\<rparr>)"
| wake:
    "qs_flight s = fs @ Backoff job resp err # gs \<Longrightarrow>
     worker_step x s (s\<lparr>qs_env := job_requeue job resp err (qs_env s), qs_flight := fs @ gs\<rparr>)"
| offer:
    "qs_offers s = js @ job # ks \<Longrightarrow>
     worker_step x s (s\<lparr>qs_env := enqueue_job job (qs_env s), qs_offers := js @ ks\<rparr>)"

definition offered :: "Job option \<Rightarrow> Job list" where
  "offered made = (case made of None \<Rightarrow> [] | Some job \<Rightarrow> [job])"

lemma offered_simps [simp]: "offered None = []" "offered (Some job) = [job]"
  by (simp_all add: offered_def)

inductive env_step :: "'a queue_sys \<Rightarrow> 'a queue_sys \<Rightarrow> bool" where
  insert:
    "create_pending event alertID n ch (qs_env s) = (made, e) \<Longrightarrow>
     env_step s (s\<lparr>qs_env := e, qs_offers := qs_offers s @ offered made\<rparr>)"
| other:
    "same_queue (qs_env s) e \<Longrightarrow> notification_deliveries e = filter P (notification_deliveries (qs_env s)) \<Longrightarrow>
     env_step s (s\<lparr>qs_env := e\<rparr>)"

definition queue_step :: "ext \<Rightarrow> 'a queue_sys \<Rightarrow> 'a queue_sys \<Rightarrow> bool" where
  "queue_step x s t \<longleftrightarrow> worker_step x s t \<or> env_step s t"

text \<open>Every row of the delivery log tells the truth about what was tried.\<close>

definition row_ok :: "int \<Rightarrow> Delivery \<Rightarrow> bool" where
  "row_ok mx d \<longleftrightarrow>
     (de_Status d = ''pending'' \<and> de_Attempts d = 0 \<and> de_SentAt d = None) \<or>
     (de_Status d = ''delivered'' \<and> 1 \<le> de_Attempts d \<and> de_Attempts d \<le> mx \<and>
        200 \<le> de_ResponseStatus d \<and> de_ResponseStatus d < 300 \<and> de_SentAt d \<noteq> None) \<or>
     (de_Status d = ''failed'' \<and> 0 \<le> de_Attempts d \<and> de_Attempts d \<le> mx)"

text \<open>A server that has just started: the queue \<open>NewQueue\<close> makes, and whatever deliveries the table holds.\<close>

definition queue_start :: "'a queue_sys \<Rightarrow> bool" where
  "queue_start s \<longleftrightarrow>
     (\<exists>w c m t. queue (qs_env s) = NewQueue w c m t) \<and> \<not> queue_panic (qs_env s) \<and>
     qs_flight s = [] \<and> qs_offers s = [] \<and> (\<forall>d \<in> set (deliveries s). row_ok (max_tries s) d)"

text \<open>The ids of the deliveries that are pending in a state.\<close>

definition pending_ids :: "'a queue_env_scheme \<Rightarrow> string set" where
  "pending_ids e = {de_ID d | d. d \<in> set (notification_deliveries e) \<and> de_Status d = ''pending''}"

section \<open>Bounds and truthful rows\<close>

definition queue_ok :: "'a queue_env_scheme \<Rightarrow> bool" where
  "queue_ok e \<longleftrightarrow>
     \<not> queue_panic e \<and> \<not> ch_closed (q_jobs (queue e)) \<and>
     length (ch_buf (q_jobs (queue e))) \<le> ch_cap (q_jobs (queue e)) \<and>
     0 < q_maxRetries (queue e) \<and> 0 < q_workerCount (queue e) \<and> 0 < ch_cap (q_jobs (queue e)) \<and>
     (\<forall>j \<in> set (ch_buf (q_jobs (queue e))). 1 \<le> jb_Attempt j \<and> jb_Attempt j \<le> q_maxRetries (queue e)) \<and>
     (\<forall>d \<in> set (notification_deliveries e). row_ok (q_maxRetries (queue e)) d)"

definition flight_ok :: "int \<Rightarrow> flight \<Rightarrow> bool" where
  "flight_ok mx f \<longleftrightarrow>
     1 \<le> jb_Attempt (flight_job f) \<and> jb_Attempt (flight_job f) \<le> mx \<and>
     (\<forall>j r e. f = Backoff j r e \<longrightarrow> jb_Attempt j < mx)"

definition base_inv :: "'a queue_sys \<Rightarrow> bool" where
  "base_inv s \<longleftrightarrow>
     queue_ok (qs_env s) \<and> length (qs_flight s) \<le> q_workerCount (queue (qs_env s)) \<and>
     (\<forall>f \<in> set (qs_flight s). flight_ok (max_tries s) f) \<and> (\<forall>j \<in> set (qs_offers s). jb_Attempt j = 1)"

lemma flight_ok_simps [simp]:
  "flight_ok mx (Sending j) \<longleftrightarrow> 1 \<le> jb_Attempt j \<and> jb_Attempt j \<le> mx"
  "flight_ok mx (Backoff j r e) \<longleftrightarrow> 1 \<le> jb_Attempt j \<and> jb_Attempt j < mx"
  by (auto simp: flight_ok_def)

lemma queue_ok_same:
  "queue_ok e \<Longrightarrow> same_queue e e' \<Longrightarrow>
   (\<And>d. d \<in> set (notification_deliveries e') \<Longrightarrow> row_ok (q_maxRetries (queue e)) d) \<Longrightarrow> queue_ok e'"
  by (simp add: queue_ok_def same_queue_def)

lemma queue_ok_rows:
  "queue_ok e \<Longrightarrow> d \<in> set (notification_deliveries e) \<Longrightarrow> row_ok (q_maxRetries (queue e)) d"
  by (simp add: queue_ok_def)

lemma queue_ok_update:
  assumes "queue_ok e"
    and "\<And>now d. row_ok (q_maxRetries (queue e)) (mark_delivery st a r m now d)"
  shows "queue_ok (snd (notif_UpdateDelivery i st a r m e))"
  using UpdateDelivery_deliveries [of i st a r m e] assms UpdateDelivery_same
  by (intro queue_ok_same [OF assms(1) UpdateDelivery_same])
    (auto simp: marked_member intro: queue_ok_rows)

lemma row_ok_marks:
  "0 \<le> a \<Longrightarrow> a \<le> mx \<Longrightarrow> row_ok mx (mark_delivery ''failed'' a r m now d)"
  "1 \<le> a \<Longrightarrow> a \<le> mx \<Longrightarrow> 200 \<le> r \<Longrightarrow> r < 300 \<Longrightarrow> row_ok mx (mark_delivery ''delivered'' a r m now d)"
  by (simp_all add: row_ok_def mark_delivery_def)

lemma queue_ok_failed:
  "queue_ok e \<Longrightarrow> 0 \<le> jb_Attempt j \<Longrightarrow> jb_Attempt j \<le> q_maxRetries (queue e) \<Longrightarrow>
   queue_ok (job_failed j r m e)"
  unfolding job_failed_def by (rule queue_ok_update) (auto intro: row_ok_marks)

lemma queue_ok_delivered:
  "queue_ok e \<Longrightarrow> 1 \<le> jb_Attempt j \<Longrightarrow> jb_Attempt j \<le> q_maxRetries (queue e) \<Longrightarrow>
   200 \<le> r \<Longrightarrow> r < 300 \<Longrightarrow> queue_ok (job_delivered j r e)"
  unfolding job_delivered_def by (rule queue_ok_update) (auto intro: row_ok_marks)

lemma queue_ok_offer:
  "queue_ok e \<Longrightarrow> 1 \<le> jb_Attempt j \<Longrightarrow> jb_Attempt j \<le> q_maxRetries (queue e) \<Longrightarrow>
   queue_ok (set_jobs (chan_offer j (q_jobs (queue e))) e)"
  by (auto simp: queue_ok_def chan_offer_buf)

lemma queue_ok_sleep [simp]: "queue_ok (time_Sleep d e) = queue_ok e"
  by (simp add: queue_ok_def)

lemma queue_ok_send: "queue_ok e \<Longrightarrow> queue_ok (snd (job_send x j e))"
  by (rule queue_ok_same [OF _ job_send_same]) (simp_all add: job_send_deliveries queue_ok_rows)

text \<open>A send on the open channel of the queue either has room or finds it full.\<close>

lemma queue_send_cases:
  assumes "queue_ok e"
  shows "chan_try_send j (q_jobs (queue e)) =
    (if length (ch_buf (q_jobs (queue e))) < ch_cap (q_jobs (queue e))
     then (Op_done, chan_offer j (q_jobs (queue e))) else (Op_block, q_jobs (queue e)))"
  using assms by (simp add: queue_ok_def chan_offer_def chan_try_send_def)

lemma job_requeue_cases:
  assumes "queue_ok e"
  shows "job_requeue j r m e =
    (if length (ch_buf (q_jobs (queue e))) < ch_cap (q_jobs (queue e))
     then set_jobs (chan_offer (j\<lparr>jb_Attempt := jb_Attempt j + 1\<rparr>) (q_jobs (queue e))) e
     else job_failed (j\<lparr>jb_Attempt := jb_Attempt j + 1\<rparr>) r m e)"
  by (simp add: job_requeue_def queue_send_cases [OF assms])

lemma enqueue_job_cases:
  assumes "queue_ok e"
  shows "enqueue_job j e =
    (if length (ch_buf (q_jobs (queue e))) < ch_cap (q_jobs (queue e))
     then set_jobs (chan_offer j (q_jobs (queue e))) e
     else snd (notif_UpdateDelivery (jb_DeliveryID j) ''failed'' 0 0 ''queue full'' e))"
  by (simp add: enqueue_job_def queue_send_cases [OF assms])

lemma queue_ok_requeue:
  "queue_ok e \<Longrightarrow> 1 \<le> jb_Attempt j \<Longrightarrow> jb_Attempt j < q_maxRetries (queue e) \<Longrightarrow>
   queue_ok (job_requeue j r m e)"
  by (simp add: job_requeue_cases queue_ok_offer queue_ok_failed)

lemma queue_ok_enqueue_job: "queue_ok e \<Longrightarrow> jb_Attempt j = 1 \<Longrightarrow> queue_ok (enqueue_job j e)"
  by (simp add: enqueue_job_cases queue_ok_offer queue_ok_update row_ok_marks queue_ok_def [of e])

text \<open>The outcomes of the first half: no row, a row whose answer was lost, or a row and its job.\<close>

lemma create_pending_cases:
  assumes "create_pending event a n ch e = (made, t)"
  obtains (nothing) "made = None" "same_queue e t" "notification_deliveries t = notification_deliveries e"
  | (lost) row where "made = None" "same_queue e t" "\<not> reliable e" "clock_pos e < clock_pos t"
      "notification_deliveries t = notification_deliveries e @ [row]"
      "de_ID row = delivery_id (clock e (clock_pos e))"
      "de_ID row \<notin> de_ID ` set (notification_deliveries e)"
      "de_Status row = ''pending''" "de_Attempts row = 0" "de_SentAt row = None"
  | (created) row j where "made = Some j" "same_queue e t" "clock_pos e < clock_pos t"
      "notification_deliveries t = notification_deliveries e @ [row]"
      "de_ID row = delivery_id (clock e (clock_pos e))"
      "de_ID row \<notin> de_ID ` set (notification_deliveries e)"
      "de_Status row = ''pending''" "de_Attempts row = 0" "de_SentAt row = None"
      "jb_DeliveryID j = de_ID row" "jb_Attempt j = 1"
proof -
  let ?e1 = "e\<lparr>clock_pos := Suc (clock_pos e)\<rparr>"
  let ?d = "new_delivery (delivery_id (clock e (clock_pos e))) ch a event"
  obtain res u where u: "notif_CreateDelivery ?d ?e1 = (res, u)" by fastforce
  have same: "same_queue e u" and pos: "clock_pos e < clock_pos u"
    using CreateDelivery_same [of ?e1 ?d] unfolding u by (simp_all add: same_queue_def)
  show thesis
  proof (cases "queue_panic e \<or> \<not> cn_Enabled ch")
    case True
    then have t: "made = None" "t = e" using assms by (auto simp: create_pending_def)
    show thesis by (rule nothing) (simp_all add: t)
  next
    case False
    then have run: "(made, t) = (case res of Inl _ \<Rightarrow> (None, u)
        | Inr c \<Rightarrow> (Some \<lparr>jb_DeliveryID = de_ID c, jb_Channel = ch, jb_Notification = n, jb_Attempt = 1\<rparr>, u))"
      using assms by (simp add: create_pending_def time_Now_def u split: sum.splits)
    consider (no) er where "notification_deliveries u = notification_deliveries e" "res = Inl er"
      | (row) row where "notification_deliveries u = notification_deliveries e @ [row]"
          "de_ID ?d \<notin> de_ID ` set (notification_deliveries e)" "de_ID row = de_ID ?d"
          "de_Status row = de_Status ?d" "de_Attempts row = 0" "de_SentAt row = None"
          "res = Inr row \<or> \<not> reliable ?e1 \<and> (\<exists>e. res = Inl e)"
      using CreateDelivery_deliveries [OF u] by (auto simp: new_delivery_def)
    then show thesis
    proof cases
      case no
      show thesis by (rule nothing) (use no run same in simp_all)
    next
      case row
      have new: "de_ID row = delivery_id (clock e (clock_pos e))" "de_Status row = ''pending''"
        "de_ID row \<notin> de_ID ` set (notification_deliveries e)"
        using row(2-4) by (simp_all add: new_delivery_def)
      show thesis
      proof (cases res)
        case (Inl er)
        then show thesis
          using run row(1,5-7) same pos new by (intro lost [of row]) (simp_all add: reliable_def)
      next
        case (Inr c)
        then show thesis
          using run row(1,5-7) same pos new
          by (intro created [of "\<lparr>jb_DeliveryID = de_ID c, jb_Channel = ch, jb_Notification = n, jb_Attempt = 1\<rparr>" row])
            simp_all
      qed
    qed
  qed
qed

lemma create_pending_same: "create_pending event a n ch e = (made, t) \<Longrightarrow> same_queue e t"
  by (erule create_pending_cases)

lemma queue_ok_create_pending:
  assumes "create_pending event a n ch e = (made, t)" and "queue_ok e"
  shows "queue_ok t"
proof (rule queue_ok_same [OF assms(2) create_pending_same [OF assms(1)]])
  have new: "row_ok mx row" if "de_Status row = ''pending''" "de_Attempts row = 0" "de_SentAt row = None" for mx row
    using that by (simp add: row_ok_def)
  show "row_ok (q_maxRetries (queue e)) d" if "d \<in> set (notification_deliveries t)" for d
    using assms(1) that by (cases rule: create_pending_cases) (auto intro: queue_ok_rows [OF assms(2)] new)
qed

lemma enqueue_job_frames:
  "queue_ok e \<Longrightarrow> q_maxRetries (queue (enqueue_job j e)) = q_maxRetries (queue e)"
  "queue_ok e \<Longrightarrow> q_workerCount (queue (enqueue_job j e)) = q_workerCount (queue e)"
  "queue_ok e \<Longrightarrow> ch_cap (q_jobs (queue (enqueue_job j e))) = ch_cap (q_jobs (queue e))"
  by (simp_all add: enqueue_job_cases)

lemma queue_frames:
  "same_queue e e' \<Longrightarrow> queue e' = queue e"
  "queue (job_delivered j r e) = queue e" "queue (job_failed j r m e) = queue e"
  "queue (snd (job_send x j e)) = queue e"
  "queue_ok e \<Longrightarrow> q_maxRetries (queue (job_requeue j r m e)) = q_maxRetries (queue e)"
  "queue_ok e \<Longrightarrow> q_workerCount (queue (job_requeue j r m e)) = q_workerCount (queue e)"
  "queue_ok e \<Longrightarrow> ch_cap (q_jobs (queue (job_requeue j r m e))) = ch_cap (q_jobs (queue e))"
  by (simp_all add: same_queue_def job_delivered_def job_failed_def job_requeue_cases)

section \<open>Steps keep the bounds\<close>

lemma queue_ok_take:
  "queue_ok e \<Longrightarrow> chan_recv (q_jobs (queue e)) = (Recv_val job, c) \<Longrightarrow>
   queue_ok (set_jobs c e) \<and> 1 \<le> jb_Attempt job \<and> jb_Attempt job \<le> q_maxRetries (queue e)"
  by (auto simp: queue_ok_def chan_recv_def split: list.splits if_splits)

lemma chan_recv_val_cap: "chan_recv c = (Recv_val x, c') \<Longrightarrow> ch_cap c' = ch_cap c"
  by (auto simp: chan_recv_def split: list.splits if_splits)

lemma job_send_result:
  assumes "job_send x job e = (res, e')"
  shows "queue e' = queue e" and "same_queue e e'" and "notification_deliveries e' = notification_deliveries e"
    and "queue_ok e \<Longrightarrow> queue_ok e'"
  using job_send_same [of e x job] job_send_deliveries [of x job e] queue_ok_send [of e x job]
  by (simp_all add: assms same_queue_def)

lemma worker_step_base:
  assumes "worker_step x s t" and "base_inv s"
  shows "base_inv t"
  using assms
proof (induction rule: worker_step.induct)
  case (take_job s job c)
  then show ?case
    using queue_ok_take [of "qs_env s" job c] by (auto simp: base_inv_def max_tries_def)
next
  case (delivered s fs job gs resp e)
  note sent = job_send_result [OF delivered(2)]
  then show ?case
    using delivered job_send_2xx [OF delivered(2)]
    by (auto simp: base_inv_def max_tries_def queue_frames queue_ok_delivered)
next
  case (gave_up s fs job gs resp err e)
  then show ?case
    using job_send_result [OF gave_up(2)]
    by (auto simp: base_inv_def max_tries_def queue_frames queue_ok_failed)
next
  case (sleep s fs job gs resp err e)
  then show ?case
    using job_send_result [OF sleep(2)]
    by (auto simp: base_inv_def max_tries_def job_retries_def)
next
  case (wake s fs job resp err gs)
  then show ?case
    by (auto simp: base_inv_def max_tries_def queue_frames queue_ok_requeue)
next
  case (offer s js job ks)
  then show ?case
    by (auto simp: base_inv_def max_tries_def enqueue_job_frames queue_ok_enqueue_job)
qed

lemma env_step_base:
  assumes "env_step s t" and "base_inv s"
  shows "base_inv t"
  using assms
proof (induction rule: env_step.induct)
  case (insert event a n ch s made e)
  have "jb_Attempt j = 1" if "j \<in> set (offered made)" for j
    using insert(1) that by (cases rule: create_pending_cases) auto
  then show ?case
    using insert queue_ok_create_pending [OF insert(1)] create_pending_same [OF insert(1)]
    by (auto simp: base_inv_def max_tries_def queue_frames)
next
  case (other s e P)
  then have ok: "queue_ok (qs_env s)" by (simp add: base_inv_def)
  have "row_ok (q_maxRetries (queue (qs_env s))) d" if "d \<in> set (notification_deliveries e)" for d
    using that other(2) queue_ok_rows [OF ok, of d] by simp
  then have "queue_ok e" by (rule queue_ok_same [OF ok other(1)])
  with other show ?case by (simp add: base_inv_def max_tries_def queue_frames)
qed

lemma queue_start_base: "queue_start s \<Longrightarrow> base_inv s"
  by (auto simp: queue_start_def base_inv_def queue_ok_def NewQueue_def make_chan_def max_tries_def
      deliveries_def)

interpretation queue_machine: invariant_system queue_start "queue_step x" base_inv for x
  by unfold_locales (auto simp: queue_step_def queue_start_base worker_step_base env_step_base)

section \<open>The work left\<close>

definition job_work :: "int \<Rightarrow> Job \<Rightarrow> nat" where
  "job_work mx j = nat (3 * (mx - jb_Attempt j) + 3)"

definition flight_work :: "int \<Rightarrow> flight \<Rightarrow> nat" where
  "flight_work mx f = (case f of
     Sending j \<Rightarrow> nat (3 * (mx - jb_Attempt j) + 2)
   | Backoff j _ _ \<Rightarrow> nat (3 * (mx - jb_Attempt j) + 1))"

definition offer_work :: "int \<Rightarrow> Job \<Rightarrow> nat" where
  "offer_work mx j = Suc (job_work mx j)"

definition work :: "'a queue_sys \<Rightarrow> nat" where
  "work s = sum_list (map (job_work (max_tries s)) (qs_buf s)) +
            sum_list (map (flight_work (max_tries s)) (qs_flight s)) +
            sum_list (map (offer_work (max_tries s)) (qs_offers s))"

lemma worker_step_work:
  assumes "worker_step x s t" and "base_inv s"
  shows "work t < work s"
  using assms
proof (induction rule: worker_step.induct)
  case (take_job s job c)
  then show ?case
    using queue_ok_take [of "qs_env s" job c] chan_recv_val [OF take_job(2)]
    by (simp add: base_inv_def work_def max_tries_def qs_buf_def job_work_def flight_work_def)
next
  case (delivered s fs job gs resp e)
  then show ?case
    using job_send_result(1) [OF delivered(2)]
    by (simp add: base_inv_def work_def max_tries_def qs_buf_def flight_work_def queue_frames)
next
  case (gave_up s fs job gs resp err e)
  then show ?case
    using job_send_result(1) [OF gave_up(2)]
    by (simp add: base_inv_def work_def max_tries_def qs_buf_def flight_work_def queue_frames)
next
  case (sleep s fs job gs resp err e)
  then show ?case
    using job_send_result(1) [OF sleep(2)]
    by (simp add: base_inv_def work_def max_tries_def qs_buf_def flight_work_def)
next
  case (wake s fs job resp err gs)
  then show ?case
    by (auto simp: base_inv_def work_def max_tries_def qs_buf_def flight_work_def job_work_def
        job_requeue_cases chan_offer_buf queue_frames queue_ok_def)
next
  case (offer s js job ks)
  then show ?case
    by (auto simp: base_inv_def work_def max_tries_def qs_buf_def offer_work_def enqueue_job_cases chan_offer_buf queue_ok_def)
qed

lemma worker_steps_work:
  "(worker_step x ^^ n) s t \<Longrightarrow> base_inv s \<Longrightarrow> n + work t \<le> work s \<and> base_inv t"
proof (induction n arbitrary: t)
  case 0
  then show ?case by simp
next
  case (Suc n)
  then obtain u where u: "(worker_step x ^^ n) s u" "worker_step x u t" by auto
  then have "n + work u \<le> work s" "base_inv u" using Suc by auto
  with worker_step_work [OF u(2)] worker_step_base [OF u(2)] show ?case by simp
qed

text \<open>They only stop when nothing is queued, nothing is in flight and nothing is left to offer.\<close>

lemma worker_stuck:
  assumes "base_inv s" and "\<nexists>t. worker_step x s t"
  shows "qs_buf s = [] \<and> qs_flight s = [] \<and> qs_offers s = []"
proof -
  have "qs_flight s = []"
  proof (rule ccontr)
    assume "qs_flight s \<noteq> []"
    then obtain f gs where f: "qs_flight s = [] @ f # gs" by (cases "qs_flight s") auto
    obtain resp err e where "job_send x (flight_job f) (qs_env s) = ((resp, err), e)"
      by (metis prod.collapse)
    then show False
      using assms(2) f worker_step.intros(2-5) [of s "[]"]
      by (cases f; cases err) (auto, blast+)
  qed
  moreover have "qs_buf s = []"
  proof (rule ccontr)
    assume "qs_buf s \<noteq> []"
    then obtain job js where "ch_buf (q_jobs (queue (qs_env s))) = job # js"
      by (cases "qs_buf s") (auto simp: qs_buf_def)
    then show False
      using worker_step.take_job [of s job _ x] assms \<open>qs_flight s = []\<close>
      by (auto simp: chan_recv_def base_inv_def queue_ok_def)
  qed
  moreover have "qs_offers s = []"
  proof (rule ccontr)
    assume "qs_offers s \<noteq> []"
    then obtain job ks where "qs_offers s = [] @ job # ks" by (cases "qs_offers s") auto
    then show False using worker_step.offer assms(2) by blast
  qed
  ultimately show ?thesis by simp
qed

section \<open>No pending delivery is forgotten\<close>

definition net_int4 :: "'a net_env_scheme \<Rightarrow> bool" where
  "net_int4 e \<longleftrightarrow> (\<forall>i c. net e i = Net_status c \<longrightarrow> int4 c)"

definition working :: "'a queue_sys \<Rightarrow> bool" where
  "working s \<longleftrightarrow> reliable (qs_env s) \<and> net_int4 (qs_env s) \<and> int4 (max_tries s)"

text \<open>The rows in \<open>L\<close> are those that were pending when the server started: nobody has a job for them.\<close>

definition owned :: "string set \<Rightarrow> 'a queue_sys \<Rightarrow> bool" where
  "owned L s \<longleftrightarrow>
     (\<forall>d \<in> set (deliveries s). de_Status d = ''pending'' \<longrightarrow> de_ID d \<notin> L \<longrightarrow>
        de_ID d \<in> jb_DeliveryID ` set (tokens s)) \<and>
     (\<forall>j r e. Backoff j r e \<in> set (qs_flight s) \<longrightarrow> int4 r)"

definition owned_inv :: "string set \<Rightarrow> 'a queue_sys \<Rightarrow> bool" where
  "owned_inv L s \<longleftrightarrow> base_inv s \<and> (working s \<longrightarrow> owned L s)"

lemma settle_pending:
  assumes "reliable e" and "int4 a" and "int4 r" and "st \<noteq> ''pending''"
    and "d \<in> set (notification_deliveries (snd (notif_UpdateDelivery i st a r m e)))"
    and "de_Status d = ''pending''"
  shows "d \<in> set (notification_deliveries e) \<and> de_ID d \<noteq> i"
proof -
  obtain now where
    "notification_deliveries (snd (notif_UpdateDelivery i st a r m e)) =
       marked i st a r m now (notification_deliveries e)"
    using UpdateDelivery_reliable [OF assms(1-3)] by blast
  with assms(5) have "d \<in> set (marked i st a r m now (notification_deliveries e))" by simp
  moreover have "d \<noteq> mark_delivery st a r m now d0" for d0
    using assms(4,6) by (metis mark_delivery_ids(4))
  ultimately show ?thesis by (simp add: marked_member)
qed

lemma same_queue_working:
  "same_queue e e' \<Longrightarrow> reliable e' = reliable e" "same_queue e e' \<Longrightarrow> net_int4 e' = net_int4 e"
  by (simp_all add: same_queue_def reliable_def net_int4_def)

lemma job_delivered_same: "same_queue e (job_delivered j r e)"
  unfolding job_delivered_def by (rule UpdateDelivery_same)

lemma job_failed_same: "same_queue e (job_failed j r m e)"
  unfolding job_failed_def by (rule UpdateDelivery_same)

lemma time_Sleep_same: "same_queue e (time_Sleep d e)"
  unfolding same_queue_def by simp

lemmas settled_same = job_delivered_same job_failed_same time_Sleep_same

text \<open>What a step does to the parts that do not change.\<close>

definition steady :: "'a queue_env_scheme \<Rightarrow> 'a queue_env_scheme \<Rightarrow> bool" where
  "steady e e' \<longleftrightarrow> clock e' = clock e \<and> clock_pos e \<le> clock_pos e' \<and> faults e' = faults e \<and>
     net e' = net e \<and> q_maxRetries (queue e') = q_maxRetries (queue e)"

lemma same_queue_steady: "same_queue e e' \<Longrightarrow> steady e e'"
  by (simp add: same_queue_def steady_def)

lemma steady_trans: "steady e e' \<Longrightarrow> steady e' e'' \<Longrightarrow> steady e e''"
  by (auto simp: steady_def)

lemma set_jobs_steady: "steady e (set_jobs c e)"
  by (simp add: steady_def)

lemma job_requeue_steady: "queue_ok e \<Longrightarrow> steady e (job_requeue j r m e)"
  by (simp add: job_requeue_cases set_jobs_steady same_queue_steady settled_same)

lemma enqueue_job_steady: "queue_ok e \<Longrightarrow> steady e (enqueue_job j e)"
  by (simp add: enqueue_job_cases set_jobs_steady same_queue_steady UpdateDelivery_same)

lemma send_settled_steady:
  assumes "job_send x job e = (res, e')"
  shows "steady e (job_delivered job r e')" and "steady e (job_failed job r m e')"
    and "steady e (time_Sleep d e')"
  by (rule same_queue_steady [OF same_queue_trans [OF job_send_result(2) [OF assms]]], rule settled_same)+

lemma worker_step_steady:
  "worker_step x s t \<Longrightarrow> base_inv s \<Longrightarrow> steady (qs_env s) (qs_env t)"
  by (induction rule: worker_step.induct)
    (simp_all add: set_jobs_steady send_settled_steady job_requeue_steady enqueue_job_steady base_inv_def)

lemmas token_defs = tokens_def qs_buf_def deliveries_def max_tries_def

text \<open>Writing the outcome of a job lets it go.\<close>

lemma owned_settled:
  assumes "owned L s" and "working s" and "notification_deliveries e = deliveries s" and "same_queue (qs_env s) e"
    and "int4 a" and "int4 r" and "st \<noteq> ''pending''"
    and "qs_env t = snd (notif_UpdateDelivery (jb_DeliveryID job) st a r m e)"
    and jobs: "jb_DeliveryID ` set (tokens s) \<subseteq> insert (jb_DeliveryID job) (jb_DeliveryID ` set (tokens t))"
    and "set (qs_flight t) \<subseteq> set (qs_flight s)"
  shows "owned L t"
proof -
  have "reliable e" using assms(2,4) by (simp add: working_def same_queue_working)
  then have pending: "d \<in> set (deliveries s) \<and> de_ID d \<noteq> jb_DeliveryID job"
    if "d \<in> set (deliveries t)" "de_Status d = ''pending''" for d
    using settle_pending [OF _ assms(5-7), of e d "jb_DeliveryID job" m] that assms(3,8)
    by (simp add: deliveries_def)
  show ?thesis
    unfolding owned_def
  proof (intro conjI ballI impI allI)
    fix d
    assume d: "d \<in> set (deliveries t)" "de_Status d = ''pending''" "de_ID d \<notin> L"
    then have "de_ID d \<in> jb_DeliveryID ` set (tokens s)" "de_ID d \<noteq> jb_DeliveryID job"
      using assms(1) pending unfolding owned_def by blast+
    then show "de_ID d \<in> jb_DeliveryID ` set (tokens t)" using jobs by blast
  next
    fix j r e
    assume "Backoff j r e \<in> set (qs_flight t)"
    then show "int4 r" using assms(1,10) unfolding owned_def by blast
  qed
qed

lemma int4_attempt: "working s \<Longrightarrow> 1 \<le> a \<Longrightarrow> a \<le> max_tries s \<Longrightarrow> int4 a"
  by (simp add: working_def int4_def)

lemma sent_status_int4:
  assumes "job_send x job (qs_env s) = ((resp, err), e)" and "working s"
  shows "int4 resp"
  using job_send_status_range [of "qs_env s" x job] assms by (auto simp: working_def net_int4_def)

lemma worker_step_owned:
  assumes "worker_step x s t" and "base_inv s" and "working s" and "owned L s"
  shows "owned L t"
  using assms
proof (induction rule: worker_step.induct)
  case (take_job s job c)
  then show ?case using chan_recv_val [OF take_job(2)] by (auto simp: owned_def token_defs)
next
  case (delivered s fs job gs resp e)
  then have "1 \<le> jb_Attempt job" "jb_Attempt job \<le> max_tries s" by (simp_all add: base_inv_def)
  note a = int4_attempt [OF \<open>working s\<close> this] and r = sent_status_int4 [OF delivered(2) \<open>working s\<close>]
    and sent = job_send_result [OF delivered(2)]
  show ?case
    by (rule owned_settled [OF \<open>owned L s\<close> \<open>working s\<close> _ sent(2) a r, where st = "''delivered''" and job = job])
      (use delivered(1) sent(1,3) in \<open>auto simp: deliveries_def job_delivered_def token_defs\<close>)
next
  case (gave_up s fs job gs resp err e)
  then have "1 \<le> jb_Attempt job" "jb_Attempt job \<le> max_tries s" by (simp_all add: base_inv_def)
  note a = int4_attempt [OF \<open>working s\<close> this] and r = sent_status_int4 [OF gave_up(2) \<open>working s\<close>]
    and sent = job_send_result [OF gave_up(2)]
  show ?case
    by (rule owned_settled [OF \<open>owned L s\<close> \<open>working s\<close> _ sent(2) a r, where st = "''failed''" and job = job])
      (use gave_up(1) sent(1,3) in \<open>auto simp: deliveries_def job_failed_def token_defs\<close>)
next
  case (sleep s fs job gs resp err e)
  then show ?case
    using job_send_result(1,3) [OF sleep(2)] sent_status_int4 [OF sleep(2)]
    by (auto simp: owned_def token_defs)
next
  case (wake s fs job resp err gs)
  let ?j = "job\<lparr>jb_Attempt := jb_Attempt job + 1\<rparr>"
  have job: "1 \<le> jb_Attempt ?j" "jb_Attempt ?j \<le> max_tries s" "int4 resp" "queue_ok (qs_env s)"
    using wake by (simp_all add: base_inv_def owned_def)
  show ?case
  proof (cases "length (ch_buf (q_jobs (queue (qs_env s)))) < ch_cap (q_jobs (queue (qs_env s)))")
    case True
    then show ?thesis
      using wake job(4) by (auto simp: owned_def token_defs job_requeue_cases chan_offer_buf queue_ok_def)
  next
    case False
    show ?thesis
      by (rule owned_settled [OF \<open>owned L s\<close> \<open>working s\<close> _ same_queue_refl int4_attempt [OF \<open>working s\<close> job(1,2)] job(3),
            where st = "''failed''" and job = ?j])
        (use wake(1) False job(4) in \<open>auto simp: deliveries_def job_requeue_cases job_failed_def token_defs\<close>)
  qed
next
  case (offer s js job ks)
  have ok: "queue_ok (qs_env s)" using offer by (simp add: base_inv_def)
  show ?case
  proof (cases "length (ch_buf (q_jobs (queue (qs_env s)))) < ch_cap (q_jobs (queue (qs_env s)))")
    case True
    then show ?thesis
      using offer ok by (auto simp: owned_def token_defs enqueue_job_cases chan_offer_buf queue_ok_def)
  next
    case False
    have "int4 (0::int)" by (simp add: int4_def)
    show ?thesis
      by (rule owned_settled [OF \<open>owned L s\<close> \<open>working s\<close> _ same_queue_refl \<open>int4 0\<close> \<open>int4 0\<close>,
            where st = "''failed''" and job = job])
        (use offer(1) False ok in \<open>auto simp: deliveries_def enqueue_job_cases token_defs\<close>)
  qed
qed

lemma env_step_owned:
  assumes "env_step s t" and "working s" and "owned L s"
  shows "owned L t"
  using assms
proof (induction rule: env_step.induct)
  case (insert event a n ch s made e)
  have rel: "reliable (qs_env s)" using insert by (simp add: working_def)
  from insert(1) show ?case
  proof (cases rule: create_pending_cases)
    case nothing
    then show ?thesis using insert(3) by (auto simp: owned_def token_defs queue_frames(1))
  next
    case (lost row)
    then show ?thesis using rel by simp
  next
    case (created row j)
    then show ?thesis using insert(3) by (auto simp: owned_def token_defs queue_frames(1))
  qed
next
  case (other s e P)
  then show ?case by (auto simp: owned_def token_defs queue_frames(1))
qed

lemma env_step_steady: "env_step s t \<Longrightarrow> steady (qs_env s) (qs_env t)"
  by (induction rule: env_step.induct) (simp_all add: same_queue_steady create_pending_same)

lemma queue_step_steady: "queue_step x s t \<Longrightarrow> base_inv s \<Longrightarrow> steady (qs_env s) (qs_env t)"
  by (auto simp: queue_step_def worker_step_steady env_step_steady)

lemma steady_working:
  "steady (qs_env s) (qs_env t) \<Longrightarrow> working t = working s"
  by (simp add: working_def steady_def max_tries_def reliable_def net_int4_def)

lemma queue_step_owned:
  assumes "owned_inv L s" and "queue_step x s t"
  shows "owned_inv L t"
  using assms queue_machine.step_inv [of s x t] steady_working [OF queue_step_steady, of x s t]
  by (auto simp: owned_inv_def queue_step_def intro: worker_step_owned env_step_owned)

lemma queue_start_owned: "queue_start s \<Longrightarrow> pending_ids (qs_env s) \<subseteq> L \<Longrightarrow> owned_inv L s"
  using queue_start_base [of s] by (auto simp: owned_inv_def owned_def queue_start_def pending_ids_def deliveries_def)

interpretation owned_machine: invariant_system "\<lambda>s. queue_start s \<and> pending_ids (qs_env s) \<subseteq> L" "queue_step x" "owned_inv L"
  for L x
  by unfold_locales (auto simp: queue_start_owned queue_step_owned)

section \<open>One job per pending delivery\<close>

text \<open>
  The ids of deliveries are the readings of the clock, so two of them collide when two readings
  are equal.  As long as the readings so far give distinct ids, no two jobs share a delivery.
\<close>

definition issued :: "'a queue_env_scheme \<Rightarrow> string set" where
  "issued e = (\<lambda>p. delivery_id (clock e p)) ` {..<clock_pos e}"

definition distinct_readings :: "'a queue_env_scheme \<Rightarrow> bool" where
  "distinct_readings e \<longleftrightarrow> inj_on (\<lambda>p. delivery_id (clock e p)) {..<clock_pos e}"

definition token_ids :: "'a queue_sys \<Rightarrow> string list" where
  "token_ids s = map jb_DeliveryID (tokens s)"

definition unique :: "'a queue_sys \<Rightarrow> bool" where
  "unique s \<longleftrightarrow>
     distinct (token_ids s) \<and> set (token_ids s) \<subseteq> issued (qs_env s) \<and>
     (\<forall>d \<in> set (deliveries s). de_ID d \<in> set (token_ids s) \<longrightarrow> de_Status d = ''pending'')"

definition unique_inv :: "'a queue_sys \<Rightarrow> bool" where
  "unique_inv s \<longleftrightarrow> base_inv s \<and> (distinct_readings (qs_env s) \<longrightarrow> unique s)"

lemma distinct_readings_back:
  "steady e e' \<Longrightarrow> distinct_readings e' \<Longrightarrow> distinct_readings e"
  by (auto simp: steady_def distinct_readings_def intro: inj_on_subset)

lemma issued_mono: "steady e e' \<Longrightarrow> issued e \<subseteq> issued e'"
  by (auto simp: steady_def issued_def)

lemma issued_fresh:
  assumes "steady e e'" and "clock_pos e < clock_pos e'" and "distinct_readings e'"
  shows "delivery_id (clock e (clock_pos e)) \<in> issued e' - issued e"
  using assms by (auto simp: steady_def issued_def distinct_readings_def dest: inj_onD)

text \<open>Writing the outcome of a delivery leaves the rows of all others alone.\<close>

lemma settled_rows:
  assumes "d \<in> set (notification_deliveries (snd (notif_UpdateDelivery i st a r m e)))"
  shows "d \<in> set (notification_deliveries e) \<or> de_ID d = i"
  using UpdateDelivery_deliveries [of i st a r m e] assms by (auto simp: marked_member)

lemma settled_rows_kept:
  assumes "d \<in> set (notification_deliveries e)" and "de_ID d \<noteq> i"
  shows "d \<in> set (notification_deliveries (snd (notif_UpdateDelivery i st a r m e)))"
  using UpdateDelivery_deliveries [of i st a r m e] assms by (auto simp: marked_member)

lemma unique_settled:
  assumes "unique s" and "steady (qs_env s) e'"
    and ids: "mset (token_ids s) = add_mset i (mset (token_ids t))" and "qs_env t = e'"
    and rows: "\<And>d. d \<in> set (notification_deliveries e') \<Longrightarrow> d \<in> set (deliveries s) \<or> de_ID d = i"
  shows "unique t"
proof -
  have dist: "distinct (i # token_ids t)"
    using assms(1) ids mset_eq_imp_distinct_iff [of "token_ids s" "i # token_ids t"]
    by (simp add: unique_def)
  have set: "set (token_ids s) = insert i (set (token_ids t))"
    using ids by (metis set_mset_add_mset_insert set_mset_mset)
  show ?thesis
    unfolding unique_def
  proof (intro conjI ballI impI)
    show "distinct (token_ids t)" using dist by simp
    show "set (token_ids t) \<subseteq> issued (qs_env t)"
      using assms(1,4) set issued_mono [OF assms(2)] by (auto simp: unique_def)
    show "de_Status d = ''pending''" if "d \<in> set (deliveries t)" "de_ID d \<in> set (token_ids t)" for d
      using rows [of d] that dist assms(1,4) set by (auto simp: unique_def deliveries_def)
  qed
qed

lemma unique_moved:
  assumes "unique s" and "steady (qs_env s) (qs_env t)"
    and ids: "mset (token_ids t) = mset (token_ids s)"
    and rows: "set (deliveries t) \<subseteq> set (deliveries s)"
  shows "unique t"
proof -
  have "set (token_ids t) = set (token_ids s)" using ids by (metis set_mset_mset)
  moreover have "distinct (token_ids t) = distinct (token_ids s)" by (rule mset_eq_imp_distinct_iff [OF ids])
  ultimately show ?thesis
    using assms(1) rows issued_mono [OF assms(2)] by (auto simp: unique_def)
qed

lemmas token_id_defs = token_ids_def token_defs

lemma worker_step_unique:
  assumes "worker_step x s t" and "base_inv s" and "unique s"
  shows "unique t"
  using assms
proof (induction rule: worker_step.induct)
  case (take_job s job c)
  then show ?case
    using chan_recv_val [OF take_job(2)]
    by - (rule unique_moved [of s], simp_all add: token_id_defs set_jobs_steady)
next
  case (delivered s fs job gs resp e)
  note sent = job_send_result [OF delivered(2)]
  show ?case
    using delivered sent(1) send_settled_steady(1) [OF delivered(2)] sent(3)
    by - (rule unique_settled [of s "job_delivered job resp e" "jb_DeliveryID job"],
      auto simp: token_id_defs queue_frames job_delivered_def dest: settled_rows)
next
  case (gave_up s fs job gs resp err e)
  note sent = job_send_result [OF gave_up(2)]
  show ?case
    using gave_up sent(1) send_settled_steady(2) [OF gave_up(2)] sent(3)
    by - (rule unique_settled [of s "job_failed job resp err e" "jb_DeliveryID job"],
      auto simp: token_id_defs queue_frames job_failed_def dest: settled_rows)
next
  case (sleep s fs job gs resp err e)
  note sent = job_send_result [OF sleep(2)]
  show ?case
    using sleep sent(1,3) send_settled_steady(3) [OF sleep(2)]
    by - (rule unique_moved [of s], simp_all add: token_id_defs)
next
  case (wake s fs job resp err gs)
  then have ok: "queue_ok (qs_env s)" by (simp add: base_inv_def)
  let ?j = "job\<lparr>jb_Attempt := jb_Attempt job + 1\<rparr>"
  show ?case
  proof (cases "length (ch_buf (q_jobs (queue (qs_env s)))) < ch_cap (q_jobs (queue (qs_env s)))")
    case True
    then show ?thesis
      using wake ok
      by - (rule unique_moved [of s],
        simp_all add: token_id_defs job_requeue_cases chan_offer_buf queue_ok_def set_jobs_steady)
  next
    case False
    then show ?thesis
      using wake ok
      by - (rule unique_settled [of s "job_failed ?j resp err (qs_env s)" "jb_DeliveryID job"],
        auto simp: token_id_defs job_requeue_cases queue_frames job_failed_def same_queue_steady
          UpdateDelivery_same dest: settled_rows)
  qed
next
  case (offer s js job ks)
  then have ok: "queue_ok (qs_env s)" by (simp add: base_inv_def)
  show ?case
  proof (cases "length (ch_buf (q_jobs (queue (qs_env s)))) < ch_cap (q_jobs (queue (qs_env s)))")
    case True
    then show ?thesis
      using offer ok
      by - (rule unique_moved [of s],
        simp_all add: token_id_defs enqueue_job_cases chan_offer_buf queue_ok_def set_jobs_steady)
  next
    case False
    then show ?thesis
      using offer ok
      by - (rule unique_settled [of s "enqueue_job job (qs_env s)" "jb_DeliveryID job"],
        auto simp: token_id_defs enqueue_job_cases same_queue_steady UpdateDelivery_same dest: settled_rows)
  qed
qed

lemma unique_new_token:
  assumes "unique s" and "steady (qs_env s) (qs_env t)" and "distinct_readings (qs_env t)"
    and "clock_pos (qs_env s) < clock_pos (qs_env t)"
    and i: "i = delivery_id (clock (qs_env s) (clock_pos (qs_env s)))"
    and ids: "mset (token_ids t) = mset (token_ids s) + (if token then {#i#} else {#})"
    and rows: "\<And>d. d \<in> set (deliveries t) \<Longrightarrow>
      d \<in> set (deliveries s) \<and> (token \<longrightarrow> de_ID d \<noteq> i) \<or> de_ID d = i \<and> (token \<longrightarrow> de_Status d = ''pending'')"
  shows "unique t"
proof -
  have fresh: "i \<notin> issued (qs_env s)" "i \<in> issued (qs_env t)"
    using issued_fresh [OF assms(2,4,3)] i by auto
  then have notin: "i \<notin> set (token_ids s)" using assms(1) by (auto simp: unique_def)
  have set: "set (token_ids t) = set (token_ids s) \<union> (if token then {i} else {})"
    using arg_cong [OF ids, of set_mset] by (simp split: if_splits)
  have "distinct (token_ids t)"
    using assms(1) ids notin mset_eq_imp_distinct_iff [of "token_ids t" "(if token then [i] else []) @ token_ids s"]
    by (cases token) (simp_all add: unique_def)
  moreover have "set (token_ids t) \<subseteq> issued (qs_env t)"
    using set assms(1) issued_mono [OF assms(2)] fresh by (auto simp: unique_def split: if_splits)
  moreover have "de_Status d = ''pending''" if "d \<in> set (deliveries t)" "de_ID d \<in> set (token_ids t)" for d
    using rows [OF that(1)] that(2) set notin assms(1) by (auto simp: unique_def split: if_splits)
  ultimately show ?thesis by (simp add: unique_def)
qed

lemma env_step_unique:
  assumes "env_step s t" and "unique s" and "distinct_readings (qs_env t)"
  shows "unique t"
  using assms
proof (induction rule: env_step.induct)
  case (insert event a n ch s made e)
  let ?t = "s\<lparr>qs_env := e, qs_offers := qs_offers s @ offered made\<rparr>"
  have steady: "steady (qs_env s) (qs_env ?t)" using create_pending_same [OF insert(1)] by (simp add: same_queue_steady)
  from insert(1) show ?case
  proof (cases rule: create_pending_cases)
    case nothing
    then show ?thesis
      using insert(2) steady by - (rule unique_moved [of s], simp_all add: token_id_defs queue_frames(1))
  next
    case (lost row)
    then show ?thesis
      using insert(2,3) steady
      by - (rule unique_new_token [of s ?t _ False], auto simp: token_id_defs queue_frames(1))
  next
    case (created row j)
    have "de_ID d \<noteq> de_ID row" if "d \<in> set (deliveries s)" for d
      using that created(6) by (metis deliveries_def image_eqI)
    then show ?thesis
      using insert(2,3) steady created
      by - (rule unique_new_token [of s ?t "de_ID row" True], auto simp: token_id_defs queue_frames(1))
  qed
next
  case (other s e P)
  then show ?case
    by - (rule unique_moved [of s], auto simp: token_id_defs queue_frames(1) same_queue_steady)
qed

lemma queue_step_unique:
  assumes "unique_inv s" and "queue_step x s t"
  shows "unique_inv t"
proof -
  have base: "base_inv s" "base_inv t"
    using assms queue_machine.step_inv [of s x t] by (simp_all add: unique_inv_def)
  moreover have "distinct_readings (qs_env t) \<Longrightarrow> distinct_readings (qs_env s)"
    using distinct_readings_back [OF queue_step_steady [OF assms(2) base(1)]] .
  ultimately show ?thesis
    using assms by (auto simp: unique_inv_def queue_step_def intro: worker_step_unique env_step_unique)
qed

lemma queue_start_unique: "queue_start s \<Longrightarrow> unique_inv s"
  using queue_start_base [of s]
  by (auto simp: unique_inv_def unique_def queue_start_def token_id_defs NewQueue_def)

interpretation unique_machine: invariant_system queue_start "queue_step x" unique_inv for x
  by unfold_locales (auto simp: queue_start_unique queue_step_unique)

text \<open>A delivery whose outcome is written is never touched again.\<close>

lemma not_settled_again:
  assumes "unique s" and "d \<in> set (deliveries s)" and "de_Status d \<noteq> ''pending''"
  shows "j \<in> set (tokens s) \<Longrightarrow> de_ID d \<noteq> jb_DeliveryID j"
    and "f \<in> set (qs_flight s) \<Longrightarrow> de_ID d \<noteq> jb_DeliveryID (flight_job f)"
  using assms by (auto simp: unique_def token_id_defs)

lemma worker_step_settled:
  assumes "worker_step x s t" and "base_inv s" and "unique s" and "d \<in> set (deliveries s)"
    and "de_Status d \<noteq> ''pending''"
  shows "d \<in> set (deliveries t)"
  using assms
proof (induction rule: worker_step.induct)
  case (take_job s job c)
  then show ?case by (simp add: deliveries_def)
next
  case (delivered s fs job gs resp e)
  then have "de_ID d \<noteq> jb_DeliveryID job" using not_settled_again(2) [of s d "Sending job"] by simp
  then show ?case
    using delivered job_send_result(3) [OF delivered(2)]
    by (simp add: deliveries_def job_delivered_def settled_rows_kept)
next
  case (gave_up s fs job gs resp err e)
  then have "de_ID d \<noteq> jb_DeliveryID job" using not_settled_again(2) [of s d "Sending job"] by simp
  then show ?case
    using gave_up job_send_result(3) [OF gave_up(2)]
    by (simp add: deliveries_def job_failed_def settled_rows_kept)
next
  case (sleep s fs job gs resp err e)
  then show ?case using job_send_result(3) [OF sleep(2)] by (simp add: deliveries_def)
next
  case (wake s fs job resp err gs)
  then have "de_ID d \<noteq> jb_DeliveryID job" "queue_ok (qs_env s)"
    using not_settled_again(2) [of s d "Backoff job resp err"] by (simp_all add: base_inv_def)
  then show ?case
    using wake by (simp add: deliveries_def job_requeue_cases job_failed_def settled_rows_kept)
next
  case (offer s js job ks)
  then have "de_ID d \<noteq> jb_DeliveryID job" "queue_ok (qs_env s)"
    using not_settled_again(1) [of s d job] by (simp_all add: base_inv_def tokens_def)
  then show ?case using offer by (simp add: deliveries_def enqueue_job_cases settled_rows_kept)
qed

section \<open>The operations as steps\<close>

text \<open>
  \<open>processJob\<close> and \<open>Enqueue\<close>, run without interruption, are sequences of the steps above, so what
  holds of every reachable state holds after them.
\<close>

lemma processJob_steps:
  assumes "qs_flight s = fs @ Sending job # gs"
  shows "(worker_step x)\<^sup>*\<^sup>* s (s\<lparr>qs_env := processJob x job (qs_env s), qs_flight := fs @ gs\<rparr>)"
proof -
  obtain resp err e where sent: "job_send x job (qs_env s) = ((resp, err), e)"
    by (metis prod.collapse)
  show ?thesis
  proof (cases err)
    case None
    then show ?thesis
      using worker_step.delivered [OF assms, of x resp e] sent
      by (auto simp: processJob_def)
  next
    case (Some m)
    show ?thesis
    proof (cases "job_retries job e")
      case True
      let ?s = "s\<lparr>qs_env := time_Sleep (job_backoff job) e, qs_flight := fs @ Backoff job resp m # gs\<rparr>"
      have "worker_step x s ?s"
        using worker_step.sleep [OF assms, of x resp m e] sent Some True by simp
      moreover have "worker_step x ?s
          (s\<lparr>qs_env := job_requeue job resp m (time_Sleep (job_backoff job) e), qs_flight := fs @ gs\<rparr>)"
        using worker_step.wake [of ?s fs job resp m gs x] by simp
      ultimately show ?thesis
        using True sent Some by (simp add: processJob_def)
    next
      case False
      then show ?thesis
        using worker_step.gave_up [OF assms, of x resp m e] sent Some
        by (auto simp: processJob_def)
    qed
  qed
qed

lemma enqueue_channel_steps:
  "(queue_step x)\<^sup>*\<^sup>* s (s\<lparr>qs_env := enqueue_channel event a n ch (qs_env s)\<rparr>)"
proof -
  obtain made e where run: "create_pending event a n ch (qs_env s) = (made, e)" by fastforce
  let ?u = "s\<lparr>qs_env := e, qs_offers := qs_offers s @ offered made\<rparr>"
  have first: "queue_step x s ?u" unfolding queue_step_def by (intro disjI2 env_step.insert [OF run])
  show ?thesis
  proof (cases made)
    case None
    then show ?thesis using first by (auto simp: enqueue_channel_def run)
  next
    case (Some job)
    then have "queue_step x ?u (?u\<lparr>qs_env := enqueue_job job (qs_env ?u), qs_offers := qs_offers s @ []\<rparr>)"
      unfolding queue_step_def by (intro disjI1 worker_step.offer) simp
    then show ?thesis
      using first Some by (simp add: enqueue_channel_def run converse_rtranclp_into_rtranclp r_into_rtranclp)
  qed
qed

lemma enqueue_channels_steps:
  "(queue_step x)\<^sup>*\<^sup>* s (s\<lparr>qs_env := fold (enqueue_channel event a n) chs (qs_env s)\<rparr>)"
proof (induction chs arbitrary: s)
  case Nil
  show ?case by simp
next
  case (Cons ch chs)
  let ?s = "s\<lparr>qs_env := enqueue_channel event a n ch (qs_env s)\<rparr>"
  have "(queue_step x)\<^sup>*\<^sup>* ?s (?s\<lparr>qs_env := fold (enqueue_channel event a n) chs (qs_env ?s)\<rparr>)"
    by (rule Cons.IH)
  with enqueue_channel_steps [of x s event a n ch] show ?case by simp
qed

lemma Enqueue_steps: "(queue_step x)\<^sup>*\<^sup>* s (s\<lparr>qs_env := Enqueue event a dat (qs_env s)\<rparr>)"
proof -
  have quiet: "queue_step x s (s\<lparr>qs_env := e\<rparr>)"
    if "same_queue (qs_env s) e" "notification_deliveries e = notification_deliveries (qs_env s)" for e
    unfolding queue_step_def by (intro disjI2 env_step.other [of _ _ "\<lambda>_. True"]) (use that in simp_all)
  obtain r s1 where ls: "notif_ListChannels (qs_env s) = (r, s1)" by fastforce
  have s1: "same_queue (qs_env s) s1" "notification_deliveries s1 = notification_deliveries (qs_env s)"
    using ls by (auto simp: notif_ListChannels_def same_queue_def case_prod_beta)
  show ?thesis
  proof (cases r)
    case (Inl e)
    then show ?thesis using quiet [OF s1] ls by (simp add: Enqueue_def r_into_rtranclp)
  next
    case (Inr chs)
    let ?e = "s1\<lparr>clock_pos := Suc (Suc (clock_pos s1))\<rparr>"
    have "queue_step x s (s\<lparr>qs_env := ?e\<rparr>)"
      using s1 by (intro quiet) (simp_all add: same_queue_def)
    moreover have "(queue_step x)\<^sup>*\<^sup>* (s\<lparr>qs_env := ?e\<rparr>) (s\<lparr>qs_env := Enqueue event a dat (qs_env s)\<rparr>)"
      using enqueue_channels_steps [of x "s\<lparr>qs_env := ?e\<rparr>"] ls Inr
      by (simp add: Enqueue_def time_Now_def)
    ultimately show ?thesis by (rule converse_rtranclp_into_rtranclp)
  qed
qed

lemma worker_steps_queue_steps: "(worker_step x)\<^sup>*\<^sup>* s t \<Longrightarrow> (queue_step x)\<^sup>*\<^sup>* s t"
  by (induction rule: rtranclp_induct) (auto simp: queue_step_def intro: rtranclp.rtrancl_into_rtrancl)

lemma queue_steps_steady:
  "(queue_step x)\<^sup>*\<^sup>* s t \<Longrightarrow> base_inv s \<Longrightarrow> steady (qs_env s) (qs_env t)"
proof (induction rule: rtranclp_induct)
  case base
  then show ?case by (simp add: steady_def)
next
  case (step u v)
  then show ?case
    using queue_machine.steps_inv [OF step(1)] queue_step_steady steady_trans by blast
qed

lemma queue_steps_working:
  "(queue_step x)\<^sup>*\<^sup>* s t \<Longrightarrow> base_inv s \<Longrightarrow> working t = working s"
  by (rule steady_working [OF queue_steps_steady])

section \<open>A server with one alert and one channel\<close>

definition demo_ext :: ext where
  "demo_ext = \<lparr>json_Notification = (\<lambda>n. Inr (nt_ID n)), json_slackPayload = Inr,
     NewRequest_error = (\<lambda>_. None), hmac_sha256 = (\<lambda>k b. k @ b), Format_RFC3339 = show_int\<rparr>"

definition demo_channel :: Channel where
  "demo_channel = \<lparr>cn_ID = ''chan-1'', cn_Name = ''ops'', cn_Type = ''webhook'', cn_URL = ''http://h'',
     cn_Secret = ''k'', cn_Enabled = True, cn_CreatedAt = 0, cn_UpdatedAt = 0\<rparr>"

definition demo_alert :: alert_row where
  "demo_alert = \<lparr>ar_id = ''alert-1'', ar_rule_id = ''r'', ar_agent_id = ''a'', ar_status = ''firing'',
     ar_started_at = 0, ar_acknowledged_at = None, ar_acknowledged_by = None,
     ar_acknowledged_comment = None, ar_resolved_at = None, ar_last_value = PosInf, ar_message = '''',
     ar_created_at = 0, ar_updated_at = 0\<rparr>"

definition demo_failed :: Delivery where
  "demo_failed = \<lparr>de_ID = ''del-old'', de_ChannelID = ''chan-1'', de_AlertID = ''alert-1'',
     de_EventType = ''alert.firing'', de_Status = ''failed'', de_Attempts = 3, de_ResponseStatus = 500,
     de_ErrorMessage = ''x'', de_CreatedAt = 0, de_SentAt = None\<rparr>"

definition demo_env :: queue_env where
  "demo_env = \<lparr>clock = int, clock_pos = 0, faults = (\<lambda>_. F_ok), fault_pos = 0,
     agents = [], telemetry = [], alert_rules = [], alerts = [demo_alert], alert_comments = [],
     notification_channels = [demo_channel], notification_deliveries = [demo_failed], api_tokens = [],
     telemetry_hourly = [], hub = NewHub, net = (\<lambda>i. if i = 0 then Net_status 500 else Net_status 204),
     net_pos = 0, net_log = [], queue = NewQueue 4 256 3 (10 * time_Second), queue_panic = False,
     sleeps = []\<rparr>"

definition demo_start :: "unit queue_sys" where
  "demo_start = \<lparr>qs_env = demo_env, qs_flight = [], qs_offers = []\<rparr>"

definition demo_queued :: "unit queue_sys" where
  "demo_queued = demo_start\<lparr>qs_env := Enqueue ''alert.firing'' ''alert-1'' (NA_Map []) demo_env\<rparr>"

lemma demo_start_ok: "queue_start demo_start"
  unfolding queue_start_def
  by (intro conjI exI [of _ 4] exI [of _ 256] exI [of _ 3] exI [of _ "10 * time_Second"])
    (simp_all add: demo_start_def demo_env_def demo_failed_def deliveries_def row_ok_def max_tries_def
      NewQueue_def)

lemma demo_reachable: "(queue_step x)\<^sup>*\<^sup>* demo_start demo_queued"
  using Enqueue_steps [of x demo_start "''alert.firing''" "''alert-1''" "NA_Map []"]
  by (simp add: demo_queued_def demo_start_def)

lemma demo_working: "working demo_queued"
proof -
  have "working demo_start"
    by (auto simp: working_def demo_start_def demo_env_def reliable_def net_int4_def max_tries_def
        NewQueue_def int4_def split: if_splits)
  then show ?thesis
    using queue_steps_working [OF demo_reachable queue_start_base [OF demo_start_ok]] by simp
qed

section \<open>Properties\<close>

text \<open>
  The queue stays within its bounds and its log is truthful.  In every state the workers and
  the rest of the program can reach, no worker has sent on a closed channel, the channel and the
  set of busy workers are within their capacities, every job is in an attempt between 1 and
  maxRetries, and every delivery row is pending and untried, or delivered after at most
  maxRetries attempts with a 2xx answer and a time, or failed after at most maxRetries attempts.
\<close>

theorem queue_safe:
  assumes "queue_start s0" and "(queue_step x)\<^sup>*\<^sup>* s0 s"
  shows "\<not> queue_panic (qs_env s) \<and>
         length (qs_buf s) \<le> ch_cap (q_jobs (queue (qs_env s))) \<and>
         length (qs_flight s) \<le> q_workerCount (queue (qs_env s)) \<and>
         (\<forall>j \<in> set (tokens s). 1 \<le> jb_Attempt j \<and> jb_Attempt j \<le> max_tries s) \<and>
         (\<forall>d \<in> set (deliveries s). row_ok (max_tries s) d)"
  using queue_machine.reachable_inv [OF assms]
  by (auto simp: base_inv_def queue_ok_def token_defs flight_ok_def)

text \<open>
  The queue drains.  From every reachable state, with a working database and HTTP statuses of
  32 bits, the workers and the offers take at most \<open>work s\<close> steps before something new arrives, and
  when they can do nothing more the channel is empty, no worker is busy, nothing is left to offer, and
  the only pending deliveries are those that were pending at the start.
\<close>

theorem queue_drains:
  assumes "queue_start s0" and "(queue_step x)\<^sup>*\<^sup>* s0 s" and "working s"
  shows "(\<forall>n t. (worker_step x ^^ n) s t \<longrightarrow> n \<le> work s) \<and>
         (\<forall>t. (worker_step x)\<^sup>*\<^sup>* s t \<longrightarrow> (\<nexists>u. worker_step x t u) \<longrightarrow>
            qs_buf t = [] \<and> qs_flight t = [] \<and> qs_offers t = [] \<and>
            pending_ids (qs_env t) \<subseteq> pending_ids (qs_env s0))"
proof (intro conjI allI impI)
  let ?L = "pending_ids (qs_env s0)"
  have base: "base_inv s" by (rule queue_machine.reachable_inv [OF assms(1,2)])
  then show "n \<le> work s" if "(worker_step x ^^ n) s t" for n t
    using worker_steps_work [OF that] by simp
  fix t
  assume run: "(worker_step x)\<^sup>*\<^sup>* s t" and stuck: "\<nexists>u. worker_step x t u"
  then obtain n where "(worker_step x ^^ n) s t" by (auto simp: rtranclp_power)
  then have "base_inv t" using worker_steps_work base by blast
  then show empty: "qs_buf t = []" "qs_flight t = []" "qs_offers t = []" using worker_stuck stuck by blast+
  have "owned_inv ?L t"
    using owned_machine.steps_inv [OF worker_steps_queue_steps [OF run]]
      owned_machine.reachable_inv [OF _ assms(2), of ?L] assms(1) by blast
  moreover have "working t"
    using queue_steps_working [OF worker_steps_queue_steps [OF run] base] assms(3) by simp
  ultimately show "pending_ids (qs_env t) \<subseteq> ?L"
    using empty by (auto simp: owned_inv_def owned_def tokens_def pending_ids_def deliveries_def)
qed

theorem queue_safe_witness:
  "\<not> queue_panic (qs_env demo_queued) \<and>
   length (qs_buf demo_queued) \<le> ch_cap (q_jobs (queue (qs_env demo_queued))) \<and>
   length (qs_flight demo_queued) \<le> q_workerCount (queue (qs_env demo_queued)) \<and>
   list_all (\<lambda>j. 1 \<le> jb_Attempt j \<and> jb_Attempt j \<le> max_tries demo_queued) (tokens demo_queued) \<and>
   list_all (row_ok (max_tries demo_queued)) (deliveries demo_queued)"
  using queue_safe [OF demo_start_ok demo_reachable [of demo_ext]] by (simp add: list_all_iff)

lemma reaches_stuck:
  "base_inv s \<Longrightarrow> \<exists>t. (worker_step x)\<^sup>*\<^sup>* s t \<and> (\<nexists>u. worker_step x t u)"
proof (induction "work s" arbitrary: s rule: less_induct)
  case less
  show ?case
  proof (cases "\<exists>u. worker_step x s u")
    case True
    then obtain u where u: "worker_step x s u" by blast
    then obtain t where "(worker_step x)\<^sup>*\<^sup>* u t" "\<nexists>v. worker_step x t v"
      using less worker_step_work [OF u] worker_step_base [OF u] by blast
    then show ?thesis using u by (meson converse_rtranclp_into_rtranclp)
  qed blast
qed

theorem queue_drains_witness:
  "\<exists>t. (worker_step demo_ext)\<^sup>*\<^sup>* demo_queued t \<and> qs_buf t = [] \<and> qs_flight t = [] \<and>
       list_all (\<lambda>d. de_Status d \<noteq> ''pending'') (deliveries t)"
proof -
  obtain t where "(worker_step demo_ext)\<^sup>*\<^sup>* demo_queued t" "\<nexists>u. worker_step demo_ext t u"
    using reaches_stuck queue_machine.reachable_inv [OF demo_start_ok demo_reachable] by blast
  moreover from this queue_drains [OF demo_start_ok demo_reachable demo_working, of demo_ext]
  have "qs_buf t = []" "qs_flight t = []" "pending_ids (qs_env t) \<subseteq> pending_ids (qs_env demo_start)"
    by auto
  moreover from this(3) have "list_all (\<lambda>d. de_Status d \<noteq> ''pending'') (deliveries t)"
    by (auto simp: pending_ids_def list_all_iff deliveries_def demo_start_def demo_env_def demo_failed_def)
  ultimately show ?thesis by blast
qed

text \<open>
  One job per pending delivery.  In every reachable state, with a working database and clock
  readings that give distinct ids, a delivery that was not pending at the start is pending exactly
  when one job carries it (with the Enqueue that inserted it, in the channel, or with a worker), and
  then only one; a settled delivery has none.
\<close>

theorem one_job_per_pending:
  assumes "queue_start s0" and "(queue_step x)\<^sup>*\<^sup>* s0 s" and "working s"
    and "distinct_readings (qs_env s)" and "d \<in> set (deliveries s)" and "de_ID d \<notin> pending_ids (qs_env s0)"
  shows "length (filter (\<lambda>j. jb_DeliveryID j = de_ID d) (tokens s)) =
           (if de_Status d = ''pending'' then 1 else 0)"
proof -
  have "unique s"
    using unique_machine.reachable_inv [OF assms(1,2)] assms(4) by (simp add: unique_inv_def)
  have "owned (pending_ids (qs_env s0)) s"
    using owned_machine.reachable_inv [OF _ assms(2), of "pending_ids (qs_env s0)"] assms(1,3) by (simp add: owned_inv_def)
  have "distinct (map jb_DeliveryID (tokens s))"
    using \<open>unique s\<close> by (simp add: unique_def token_ids_def)
  show ?thesis
  proof (cases "de_Status d = ''pending''")
    case True
    then obtain j where j: "j \<in> set (tokens s)" "jb_DeliveryID j = de_ID d"
      using \<open>owned _ s\<close> assms(5,6) unfolding owned_def by force
    then have "filter (\<lambda>j. jb_DeliveryID j = de_ID d) (tokens s) = [j]"
      using \<open>distinct (map jb_DeliveryID (tokens s))\<close> by (intro filter_key [where k = jb_DeliveryID]) simp_all
    then show ?thesis using True by simp
  next
    case False
    then have "de_ID d \<notin> set (token_ids s)" using \<open>unique s\<close> assms(5) by (auto simp: unique_def)
    then have "filter (\<lambda>j. jb_DeliveryID j = de_ID d) (tokens s) = []"
      unfolding token_ids_def filter_empty_conv by (metis image_eqI list.set_map)
    then show ?thesis using False by simp
  qed
qed

lemma demo_queued_clock: "clock (qs_env demo_queued) = int"
  using queue_steps_steady [OF demo_reachable queue_start_base [OF demo_start_ok]]
  by (simp add: steady_def demo_start_def demo_env_def)

lemma demo_queued_log:
  "clock_pos (qs_env demo_queued) = 4"
  "map (\<lambda>d. (de_ID d, de_Status d)) (deliveries demo_queued) =
     [(''del-old'', ''failed''), (''del-2'', ''pending'')]"
  "qs_flight demo_queued = []" "qs_offers demo_queued = []" "map jb_DeliveryID (qs_buf demo_queued) = [''del-2'']"
  by code_simp+

lemma distinct_readings_int:
  assumes "clock e = int" and "clock_pos e \<le> 1000"
  shows "distinct_readings e"
proof (unfold distinct_readings_def, rule inj_onI)
  fix p q
  assume "p \<in> {..<clock_pos e}" "q \<in> {..<clock_pos e}"
    and eq: "delivery_id (clock e p) = delivery_id (clock e q)"
  then have "UnixNano (int p) = int p" "UnixNano (int q) = int q"
    using assms(2) by (simp_all add: UnixNano_def int64_wrap_id)
  then show "p = q" using eq show_int_inj [of "int p" "int q"] by (simp add: delivery_id_def assms(1))
qed

theorem one_job_per_pending_witness:
  "length (filter (\<lambda>j. jb_DeliveryID j = ''del-2'') (tokens demo_queued)) = 1"
proof -
  obtain d where d: "d \<in> set (deliveries demo_queued)" "de_ID d = ''del-2''" "de_Status d = ''pending''"
  proof -
    have "(''del-2'', ''pending'') \<in> set (map (\<lambda>d. (de_ID d, de_Status d)) (deliveries demo_queued))"
      by (simp add: demo_queued_log(2))
    then show thesis using that by (auto simp del: demo_queued_log(2))
  qed
  have "distinct_readings (qs_env demo_queued)"
    using demo_queued_log demo_queued_clock by (intro distinct_readings_int) simp_all
  then show ?thesis
    using one_job_per_pending [OF demo_start_ok demo_reachable demo_working _ d(1)] d
    by (auto simp: pending_ids_def demo_start_def demo_env_def demo_failed_def)
qed

text \<open>
  Outcomes are final.  Once the outcome of a delivery is in the log, no worker changes it,
  as long as the clock readings give distinct ids.
\<close>

theorem outcomes_are_final:
  assumes "queue_start s0" and "(queue_step x)\<^sup>*\<^sup>* s0 s" and "(worker_step x)\<^sup>*\<^sup>* s t"
    and "distinct_readings (qs_env t)" and "d \<in> set (deliveries s)" and "de_Status d \<noteq> ''pending''"
  shows "d \<in> set (deliveries t)"
  using assms(3,4)
proof (induction rule: rtranclp_induct)
  case base
  show ?case by (rule assms(5))
next
  case (step u v)
  have run: "(queue_step x)\<^sup>*\<^sup>* s0 u"
    using assms(2) worker_steps_queue_steps [OF step(1)] by simp
  have "base_inv u" by (rule queue_machine.reachable_inv [OF assms(1) run])
  then have "distinct_readings (qs_env u)"
    using distinct_readings_back [OF worker_step_steady [OF step(2)] step(4)] by blast
  moreover from this have "unique u"
    using unique_machine.reachable_inv [OF assms(1) run] by (simp add: unique_inv_def)
  ultimately show ?case
    using worker_step_settled [OF step(2) \<open>base_inv u\<close>] step(3) assms(6) by blast
qed

definition demo_taken :: "unit queue_sys" where
  "demo_taken =
     (case chan_recv (q_jobs (queue (qs_env demo_queued))) of
        (Recv_val j, c) \<Rightarrow> demo_queued\<lparr>qs_env := set_jobs c (qs_env demo_queued), qs_flight := [Sending j]\<rparr>
      | _ \<Rightarrow> demo_queued)"

theorem outcomes_are_final_witness:
  "demo_failed \<in> set (deliveries demo_queued) \<and> worker_step demo_ext demo_queued demo_taken \<and>
   demo_failed \<in> set (deliveries demo_taken)"
proof -
  have log: "demo_failed \<in> set (deliveries demo_queued)" by code_simp
  note flight = demo_queued_log(3) and clk = demo_queued_clock demo_queued_log(1)
  have "qs_buf demo_queued \<noteq> []" using demo_queued_log(5) by auto
  then obtain j c where recv: "chan_recv (q_jobs (queue (qs_env demo_queued))) = (Recv_val j, c)"
    by (cases "qs_buf demo_queued") (auto simp: qs_buf_def chan_recv_def)
  have "worker_step demo_ext demo_queued demo_taken"
    using worker_step.take_job [OF _ recv] flight
      queue_machine.reachable_inv [OF demo_start_ok demo_reachable]
    by (simp add: demo_taken_def recv base_inv_def queue_ok_def)
  moreover have "distinct_readings (qs_env demo_taken)"
    using clk by (intro distinct_readings_int) (simp_all add: demo_taken_def recv)
  moreover have "de_Status demo_failed \<noteq> ''pending''" by (simp add: demo_failed_def)
  ultimately show ?thesis
    using outcomes_are_final [OF demo_start_ok demo_reachable r_into_rtranclp _ log, where t = demo_taken and x = demo_ext] log
    by blast
qed

text \<open>
  A failed retry is counted without having been made.  When an attempt failed, retries are
  left and the channel is full after the backoff, the log says the delivery failed after one
  attempt more than was made: the counter is raised before the job is given up, although that
  attempt's request is never sent.
\<close>

theorem requeue_full_overcounts:
  fixes s :: queue_env
  assumes "job_send x job s = ((resp, Some err), s1)" and "job_retries job s1"
    and "\<not> ch_closed (q_jobs (queue s))" and "length (ch_buf (q_jobs (queue s))) \<ge> ch_cap (q_jobs (queue s))"
    and "reliable s" and "int4 (jb_Attempt job + 1)" and "int4 resp"
    and "d \<in> set (notification_deliveries s)" and "de_ID d = jb_DeliveryID job"
  shows "(\<exists>rqs. net_log (processJob x job s) = net_log s @ rqs \<and> length rqs \<le> 1) \<and>
         (\<exists>d' \<in> set (notification_deliveries (processJob x job s)).
            de_ID d' = de_ID d \<and> de_Status d' = ''failed'' \<and> de_Attempts d' = jb_Attempt job + 1)"
proof -
  note sent = job_send_result [OF assms(1)]
  let ?job = "job\<lparr>jb_Attempt := jb_Attempt job + 1\<rparr>"
  let ?s2 = "time_Sleep (job_backoff job) s1"
  have run: "processJob x job s = snd (notif_UpdateDelivery (jb_DeliveryID job) ''failed'' (jb_Attempt job + 1) resp err ?s2)"
    using assms(1-4) sent(1)
    by (simp add: processJob_def job_requeue_def Let_def chan_try_send_def job_failed_def)
  obtain rqs where rqs: "net_log s1 = net_log s @ rqs" "length rqs \<le> 1"
    using job_send_at_most_one [of x job s] by (auto simp: assms(1))
  have "net_log (processJob x job s) = net_log ?s2"
    unfolding run notif_UpdateDelivery_def
    by (rule db_run_state) (simp_all add: update_delivery_def time_Now_def)
  then have "net_log (processJob x job s) = net_log s @ rqs" using rqs(1) by (simp add: time_Sleep_def)
  moreover have "reliable ?s2" using assms(5) sent(2) by (simp add: same_queue_working time_Sleep_def reliable_def same_queue_def)
  then obtain now where "notification_deliveries (processJob x job s) =
      marked (jb_DeliveryID job) ''failed'' (jb_Attempt job + 1) resp err now (notification_deliveries s)"
    using UpdateDelivery_reliable [OF _ assms(6,7), of ?s2 "jb_DeliveryID job" "''failed''" err] sent(3)
    by (auto simp: run)
  then have "mark_delivery ''failed'' (jb_Attempt job + 1) resp err now d \<in> set (notification_deliveries (processJob x job s))"
    using assms(8,9) by (auto simp: marked_member)
  ultimately show ?thesis using rqs(2) by (intro conjI exI [of _ rqs] bexI) (simp_all add: assms(9))
qed

definition demo_job :: "string \<Rightarrow> Job" where
  "demo_job i = \<lparr>jb_DeliveryID = i, jb_Channel = demo_channel,
     jb_Notification = \<lparr>nt_ID = ''n'', nt_Event = ''alert.firing'', nt_Timestamp = 0,
       nt_Alert = NA_Map [], nt_Agent = None\<rparr>, jb_Attempt = 1\<rparr>"

text \<open>A queue of one place that is taken, while a worker holds the job of the delivery del-1.\<close>

definition demo_full :: queue_env where
  "demo_full = demo_env\<lparr>
     notification_deliveries := [new_delivery ''del-1'' demo_channel ''alert-1'' ''alert.firing''],
     queue := (NewQueue 1 1 3 0)\<lparr>q_jobs := chan_offer (demo_job ''del-9'') (make_chan 1)\<rparr>\<rparr>"

theorem requeue_full_overcounts_witness:
  "(\<exists>rqs. net_log (processJob demo_ext (demo_job ''del-1'') demo_full) = net_log demo_full @ rqs \<and> length rqs \<le> 1) \<and>
   (\<exists>d' \<in> set (notification_deliveries (processJob demo_ext (demo_job ''del-1'') demo_full)).
      de_ID d' = ''del-1'' \<and> de_Status d' = ''failed'' \<and> de_Attempts d' = 2)"
proof -
  let ?r = "job_send demo_ext (demo_job ''del-1'') demo_full"
  let ?d = "new_delivery ''del-1'' demo_channel ''alert-1'' ''alert.firing''"
  have r: "fst (fst ?r) = 500" "snd (fst ?r) = Some ''webhook responded with HTTP 500''"
      "q_maxRetries (queue (snd ?r)) = 3"
      "ch_closed (q_jobs (queue demo_full)) = False"
      "length (ch_buf (q_jobs (queue demo_full))) = 1" "ch_cap (q_jobs (queue demo_full)) = 1"
    by code_simp+
  have "?r = ((500, Some ''webhook responded with HTTP 500''), snd ?r)"
    using r by (simp add: prod_eq_iff)
  moreover have "reliable demo_full" by (simp add: reliable_def demo_full_def demo_env_def)
  moreover have "?d \<in> set (notification_deliveries demo_full)" by (simp add: demo_full_def)
  ultimately show ?thesis
    using requeue_full_overcounts [of demo_ext "demo_job ''del-1''" demo_full 500
        "''webhook responded with HTTP 500''" "snd ?r" ?d] r
    by (simp add: job_retries_def demo_job_def int4_def new_delivery_def)
qed

text \<open>
  Stopping the queue under a retry panics.  \<open>Stop\<close> closes the channel first, so a worker that
  wakes from its backoff afterwards sends on a closed channel.
\<close>

theorem stop_during_backoff_panics:
  "queue_panic (job_requeue job resp err (Queue_Stop_close s))"
  by (cases "ch_closed (q_jobs (queue s))")
    (simp_all add: Queue_Stop_close_def chan_close_def job_requeue_def Let_def chan_try_send_def)

end
