(* ===== verification/Notif_Handler.thy ===== *)
theory Notif_Handler
  imports Queue_System
begin

text \<open>
  internal/notifications/handler.go: the validation of a new channel and the endpoints for
  channels and deliveries.  \<open>url_Parse\<close> is net/url's: the scheme, the host and the printed form of
  a URL, or nothing when it does not parse.
\<close>

record createChannelRequest =
  cr_Name :: string
  cr_Type :: string
  cr_URL :: string
  cr_Secret :: string
  cr_Enabled :: "bool option"

type_synonym url_parser = "string \<Rightarrow> (string \<times> string \<times> string) option"

definition createChannelRequest_normalize :: "url_parser \<Rightarrow> createChannelRequest \<Rightarrow> string + Channel" where
  "createChannelRequest_normalize url_Parse r =
     (if TrimSpace (cr_Name r) = '''' then Inl ''name is required''
      else if TrimSpace (cr_URL r) = '''' then Inl ''url is required''
      else
        (case url_Parse (TrimSpace (cr_URL r)) of
           None \<Rightarrow> Inl ''url must be a valid http or https URL''
         | Some (scheme, host, printed) \<Rightarrow>
             if scheme = '''' \<or> host = '''' then Inl ''url must be a valid http or https URL''
             else if scheme \<noteq> ''http'' \<and> scheme \<noteq> ''https'' then Inl ''url must use http or https''
             else
               let typeValue = (if TrimSpace (cr_Type r) = '''' then ''webhook'' else TrimSpace (cr_Type r)) in
               if typeValue \<noteq> ''webhook'' \<and> typeValue \<noteq> ''slack_webhook''
               then Inl ''type must be either webhook or slack_webhook''
               else Inr \<lparr>cn_ID = '''', cn_Name = TrimSpace (cr_Name r), cn_Type = typeValue,
                         cn_URL = printed, cn_Secret = TrimSpace (cr_Secret r),
                         cn_Enabled = (case cr_Enabled r of None \<Rightarrow> True | Some b \<Rightarrow> b),
                         cn_CreatedAt = zero_time, cn_UpdatedAt = zero_time\<rparr>))"

text \<open>The JSON values the endpoints write.\<close>

datatype notif_json =
    NJ_channels "Channel list"
  | NJ_channel Channel
  | NJ_deliveries "Delivery list"
  | NJ_test_failed int string
  | NJ_test_delivered int

type_synonym 'a notif_handler =
  "notif_json response \<Rightarrow> request \<Rightarrow> 'a queue_env_scheme \<Rightarrow> notif_json response \<times> 'a queue_env_scheme"

definition ListChannels_h :: "'a notif_handler" where
  "ListChannels_h w r s =
     (if Method r \<noteq> ''GET'' then (sendError_nested ''method not allowed'' 405 w, s)
      else (case notif_ListChannels s of
          (Inl _, s1) \<Rightarrow> (sendError_nested ''failed to list notification channels'' 500 w, s1)
        | (Inr chs, s1) \<Rightarrow> (sendJSON 200 (NJ_channels chs) w, s1)))"

definition channel_id :: "time \<Rightarrow> string" where
  "channel_id now = ''chan-'' @ show_int (UnixNano now)"

definition CreateChannel_h ::
  "url_parser \<Rightarrow> createChannelRequest decoder \<Rightarrow> 'a notif_handler"
where
  "CreateChannel_h url_Parse decode w r s =
     (if Method r \<noteq> ''POST'' then (sendError_nested ''method not allowed'' 405 w, s)
      else (case decode (Body r) of (req, bad) \<Rightarrow>
        if bad then (sendError_nested ''invalid notification channel payload'' 400 w, s)
        else (case createChannelRequest_normalize url_Parse req of
            Inl err \<Rightarrow> (sendError_nested err 400 w, s)
          | Inr channel \<Rightarrow>
              (case (if cn_ID channel = ''''
                     then (case time_Now s of (now, s1) \<Rightarrow> (channel\<lparr>cn_ID := channel_id now\<rparr>, s1))
                     else (channel, s)) of (ch, s1) \<Rightarrow>
                (case notif_CreateChannel ch s1 of
                   (Inl _, s2) \<Rightarrow> (sendError_nested ''failed to create channel'' 500 w, s2)
                 | (Inr created, s2) \<Rightarrow> (sendJSON 201 (NJ_channel created) w, s2))))))"

definition DeleteChannel_h :: "'a notif_handler" where
  "DeleteChannel_h w r s =
     (if Method r \<noteq> ''DELETE'' then (sendError_nested ''method not allowed'' 405 w, s)
      else if PathValue r ''id'' = '''' then (sendError_nested ''channel ID is required'' 400 w, s)
      else (case notif_DeleteChannel (PathValue r ''id'') s of
          (Inl _, s1) \<Rightarrow> (sendError_nested ''failed to delete channel'' 500 w, s1)
        | (Inr _, s1) \<Rightarrow> (WriteHeader 204 w, s1)))"

definition test_Send ::
  "ext \<Rightarrow> Channel \<Rightarrow> string \<Rightarrow> string \<Rightarrow> Notification \<Rightarrow> 'a net_env_scheme \<Rightarrow>
   (int \<times> string option) \<times> 'a net_env_scheme"
where
  "test_Send x ch =
     (if cn_Type ch = ''slack_webhook''
      then SlackWebhookProvider_Send x (NewSlackWebhookProvider (10 * time_Second))
      else WebhookProvider_Send x (NewWebhookProvider (10 * time_Second)))"

definition TestChannel_h :: "ext \<Rightarrow> 'a notif_handler" where
  "TestChannel_h x w r s =
     (if Method r \<noteq> ''POST'' then (sendError_nested ''method not allowed'' 405 w, s)
      else if PathValue r ''id'' = '''' then (sendError_nested ''channel ID is required'' 400 w, s)
      else (case notif_GetChannelByID (PathValue r ''id'') s of
          (Inl _, s1) \<Rightarrow> (sendError_nested ''notification channel not found'' 404 w, s1)
        | (Inr ch, s1) \<Rightarrow>
            (case time_Now s1 of (now, s2) \<Rightarrow>
             case time_Now s2 of (ts, s3) \<Rightarrow>
             case test_Send x ch (cn_URL ch) (cn_Secret ch)
                    \<lparr>nt_ID = ''test-'' @ show_int (UnixNano now), nt_Event = ''alert.firing'',
                     nt_Timestamp = ts,
                     nt_Alert = NA_Map [(''id'', ''test-alert''), (''rule_name'', ''Test Webhook Alert''),
                       (''status'', ''firing''),
                       (''message'', ''This is a test notification from OpsNexus.'')],
                     nt_Agent = None\<rparr> s3 of
               ((code, Some e), s4) \<Rightarrow> (sendJSON 200 (NJ_test_failed code e) w, s4)
             | ((code, None), s4) \<Rightarrow> (sendJSON 200 (NJ_test_delivered code) w, s4))))"

definition ListDeliveries_h :: "'a notif_handler" where
  "ListDeliveries_h w r s =
     (if Method r \<noteq> ''GET'' then (sendError_nested ''method not allowed'' 405 w, s)
      else (case notif_ListDeliveries 50 s of
          (Inl _, s1) \<Rightarrow> (sendError_nested ''failed to list deliveries'' 500 w, s1)
        | (Inr ds, s1) \<Rightarrow> (sendJSON 200 (NJ_deliveries ds) w, s1)))"

interpretation tested: provider "test_Send x ch" for x ch
  by (simp add: test_Send_def webhook.provider_axioms slack.provider_axioms)

section \<open>Validation\<close>

text \<open>What a request must look like, and the row it asks for.\<close>

definition valid_channel :: "url_parser \<Rightarrow> createChannelRequest \<Rightarrow> bool" where
  "valid_channel url_Parse q \<longleftrightarrow>
     TrimSpace (cr_Name q) \<noteq> '''' \<and> TrimSpace (cr_URL q) \<noteq> '''' \<and>
     TrimSpace (cr_Type q) \<in> {'''', ''webhook'', ''slack_webhook''} \<and>
     (case url_Parse (TrimSpace (cr_URL q)) of
        None \<Rightarrow> False
      | Some (scheme, host, printed) \<Rightarrow> scheme \<in> {''http'', ''https''} \<and> host \<noteq> '''')"

definition requested_channel :: "url_parser \<Rightarrow> createChannelRequest \<Rightarrow> string \<Rightarrow> time \<Rightarrow> Channel" where
  "requested_channel url_Parse q i now =
     \<lparr>cn_ID = i, cn_Name = TrimSpace (cr_Name q),
      cn_Type = (if TrimSpace (cr_Type q) = '''' then ''webhook'' else TrimSpace (cr_Type q)),
      cn_URL = (case url_Parse (TrimSpace (cr_URL q)) of Some (_, _, printed) \<Rightarrow> printed | None \<Rightarrow> ''''),
      cn_Secret = TrimSpace (cr_Secret q), cn_Enabled = (cr_Enabled q \<noteq> Some False),
      cn_CreatedAt = now, cn_UpdatedAt = now\<rparr>"

lemma requested_channel_ID:
  "cn_ID (requested_channel url_Parse q i t) = i"
  "(requested_channel url_Parse q i t)\<lparr>cn_ID := j\<rparr> = requested_channel url_Parse q j t"
  by (simp_all add: requested_channel_def)

lemma normalize_valid:
  "valid_channel url_Parse q \<Longrightarrow>
     createChannelRequest_normalize url_Parse q = Inr (requested_channel url_Parse q '''' zero_time)"
  by (auto simp: valid_channel_def createChannelRequest_normalize_def requested_channel_def Let_def
      split: option.splits prod.splits)

lemma normalize_invalid:
  "\<not> valid_channel url_Parse q \<Longrightarrow> \<exists>e. createChannelRequest_normalize url_Parse q = Inl e"
  by (auto simp: valid_channel_def createChannelRequest_normalize_def Let_def split: option.splits prod.splits)

lemma CreateChannel_reliable:
  assumes "reliable s"
  shows "notif_CreateChannel c s =
    (let s1 = s\<lparr>fault_pos := Suc (fault_pos s), clock_pos := Suc (clock_pos s)\<rparr>;
         row = c\<lparr>cn_CreatedAt := clock s (clock_pos s), cn_UpdatedAt := clock s (clock_pos s)\<rparr>
     in if cn_ID c \<in> cn_ID ` set (notification_channels s) then (Inl Constraint, s1)
        else (Inr row, s1\<lparr>notification_channels := notification_channels s @ [row]\<rparr>))"
  using assms by (simp add: notif_CreateChannel_def db_run_reliable insert_channel_def time_Now_def Let_def)


definition demo_post :: request where
  "demo_post = \<lparr>Method = ''POST'', URL_Path = '''', RemoteAddr = '''', Header_Get = (\<lambda>_. ''''),
     PathValue = (\<lambda>_. ''''), Query_Get = (\<lambda>_. ''''), Body = '''', ctx_role = None, ctx_token = None,
     ctx_request_id = None\<rparr>"

definition demo_channel_request :: createChannelRequest where
  "demo_channel_request = \<lparr>cr_Name = '' ops '', cr_Type = '' slack_webhook'', cr_URL = ''https://h/x'', cr_Secret = '''',
     cr_Enabled = None\<rparr>"

definition demo_create :: "notif_json response \<times> queue_env" where
  "demo_create =
     CreateChannel_h (\<lambda>u. Some (''https'', ''h'', u)) (\<lambda>_. (demo_channel_request, False)) new_response demo_post demo_env"


end
