(* ===== verification/Alert_Repo.thy ===== *)
theory Alert_Repo
  imports Database
begin

text \<open>
  The statements of internal/alerting/repository.go over the tables of rules, alerts and comments.
  The list functions never ask rows.Err(), and \<open>GetActiveAlert\<close> answers nil to every error.
\<close>

section \<open>Rules\<close>

definition alert_ListRules :: "'a db_env_scheme \<Rightarrow> (dberr + AlertRule list) \<times> 'a db_env_scheme" where
  "alert_ListRules s =
     (case db_Query (\<lambda>s. sort_key ru_CreatedAt (alert_rules s)) s of (r, s1) \<Rightarrow>
       ((case r of Inl e \<Rightarrow> Inl e | Inr (rows, _) \<Rightarrow> Inr rows), s1))"

definition alert_GetRuleByID ::
  "string \<Rightarrow> 'a db_env_scheme \<Rightarrow> (dberr + AlertRule) \<times> 'a db_env_scheme"
where
  "alert_GetRuleByID i = db_run (\<lambda>s. (select_one (\<lambda>r. ru_ID r = i) (alert_rules s), s))"

definition default_severity :: "AlertRule \<Rightarrow> AlertRule" where
  "default_severity r = (if ru_Severity r = '''' then r\<lparr>ru_Severity := ''warning''\<rparr> else r)"

definition rule_ints_ok :: "AlertRule \<Rightarrow> bool" where
  "rule_ints_ok r \<longleftrightarrow>
     int4 (ru_DurationSeconds r) \<and> int4 (ru_ForDurationSeconds r) \<and> int4 (ru_CooldownSeconds r)"

definition insert_rule :: "AlertRule \<Rightarrow> 'a db_env_scheme \<Rightarrow> (dberr + AlertRule) \<times> 'a db_env_scheme" where
  "insert_rule r s =
     (case time_Now s of (now, s1) \<Rightarrow>
       let row = r\<lparr>ru_CreatedAt := now, ru_UpdatedAt := now\<rparr> in
       if \<not> rule_ints_ok r then (Inl DBFail, s1)
       else if ru_ID r \<in> ru_ID ` set (alert_rules s1) then (Inl Constraint, s1)
       else (Inr row, s1\<lparr>alert_rules := alert_rules s1 @ [row]\<rparr>))"

definition alert_CreateRule ::
  "AlertRule \<Rightarrow> 'a db_env_scheme \<Rightarrow> (dberr + AlertRule) \<times> 'a db_env_scheme"
where
  "alert_CreateRule r = db_run (insert_rule (default_severity r))"

definition update_rule :: "AlertRule \<Rightarrow> 'a db_env_scheme \<Rightarrow> (dberr + AlertRule) \<times> 'a db_env_scheme" where
  "update_rule r s =
     (case time_Now s of (now, s1) \<Rightarrow>
       if \<not> rule_ints_ok r then (Inl DBFail, s1)
       else
         (case update_returning (\<lambda>old. ru_ID old = ru_ID r)
                 (\<lambda>old. r\<lparr>ru_ID := ru_ID old, ru_CreatedAt := ru_CreatedAt old, ru_UpdatedAt := now\<rparr>)
                 (alert_rules s1) of
            (res, rows) \<Rightarrow> (res, s1\<lparr>alert_rules := rows\<rparr>)))"

definition alert_UpdateRule ::
  "AlertRule \<Rightarrow> 'a db_env_scheme \<Rightarrow> (dberr + AlertRule) \<times> 'a db_env_scheme"
where
  "alert_UpdateRule r = db_run (update_rule (default_severity r))"

definition delete_rule :: "string \<Rightarrow> 'a db_env_scheme \<Rightarrow> (dberr + unit) \<times> 'a db_env_scheme" where
  "delete_rule i s =
     (let s1 = delete_alerts (\<lambda>a. ar_rule_id a = i) s in
      (Inr (), s1\<lparr>alert_rules := filter (\<lambda>r. ru_ID r \<noteq> i) (alert_rules s1)\<rparr>))"

definition alert_DeleteRule :: "string \<Rightarrow> 'a db_env_scheme \<Rightarrow> (dberr + unit) \<times> 'a db_env_scheme" where
  "alert_DeleteRule i = db_run (delete_rule i)"

section \<open>Alerts\<close>

text \<open>A row as RETURNING gives it, and joined with its rule as the queries give it.\<close>

definition scan_alert :: "alert_row \<Rightarrow> Alert" where
  "scan_alert a =
     \<lparr>al_ID = ar_id a, al_RuleID = ar_rule_id a, al_AgentID = ar_agent_id a, al_RuleName = '''',
      al_Severity = '''', al_Status = ar_status a, al_StartedAt = ar_started_at a,
      al_AcknowledgedAt = ar_acknowledged_at a,
      al_AcknowledgedBy = (case ar_acknowledged_by a of None \<Rightarrow> '''' | Some u \<Rightarrow> u),
      al_AcknowledgedComment = (case ar_acknowledged_comment a of None \<Rightarrow> '''' | Some c \<Rightarrow> c),
      al_ResolvedAt = ar_resolved_at a, al_LastValue = ar_last_value a, al_Message = ar_message a,
      al_CreatedAt = ar_created_at a, al_UpdatedAt = ar_updated_at a\<rparr>"

definition join_alert :: "alert_row \<Rightarrow> AlertRule \<Rightarrow> Alert" where
  "join_alert a r = (scan_alert a)\<lparr>al_RuleName := ru_Name r, al_Severity := ru_Severity r\<rparr>"

definition alerts_joined :: "'a db_env_scheme \<Rightarrow> Alert list" where
  "alerts_joined s =
     concat (map (\<lambda>a. map (join_alert a) (filter (\<lambda>r. ru_ID r = ar_rule_id a) (alert_rules s))) (alerts s))"

definition active_status :: "string \<Rightarrow> bool" where
  "active_status st \<longleftrightarrow> st = ''firing'' \<or> st = ''acknowledged''"

definition alert_ListAlerts ::
  "string \<Rightarrow> string \<Rightarrow> 'a db_env_scheme \<Rightarrow> (dberr + Alert list) \<times> 'a db_env_scheme"
where
  "alert_ListAlerts st agentID s =
     (case db_Query (\<lambda>s. sort_key (\<lambda>a. - al_UpdatedAt a)
              (filter (\<lambda>a. (st \<noteq> '''' \<longrightarrow> al_Status a = st) \<and> (agentID \<noteq> '''' \<longrightarrow> al_AgentID a = agentID))
                (alerts_joined s))) s of (r, s1) \<Rightarrow>
       ((case r of Inl e \<Rightarrow> Inl e | Inr (rows, _) \<Rightarrow> Inr rows), s1))"

definition alert_GetAlertByID ::
  "string \<Rightarrow> 'a db_env_scheme \<Rightarrow> (dberr + Alert) \<times> 'a db_env_scheme"
where
  "alert_GetAlertByID i = db_run (\<lambda>s. (select_one (\<lambda>a. al_ID a = i) (alerts_joined s), s))"

text \<open>The code's \<open>if err != nil { return nil, nil }\<close>: no error is ever returned.\<close>

definition alert_GetActiveAlert ::
  "string \<Rightarrow> string \<Rightarrow> 'a db_env_scheme \<Rightarrow> (dberr + Alert option) \<times> 'a db_env_scheme"
where
  "alert_GetActiveAlert ruleID agentID s =
     (case db_run (\<lambda>s. (select_one (\<lambda>a. al_RuleID a = ruleID \<and> al_AgentID a = agentID \<and>
                          active_status (al_Status a)) (alerts_joined s), s)) s of
        (Inl _, s1) \<Rightarrow> (Inr None, s1)
      | (Inr a, s1) \<Rightarrow> (Inr (Some a), s1))"

definition new_alert_row :: "Alert \<Rightarrow> time \<Rightarrow> alert_row" where
  "new_alert_row a now =
     \<lparr>ar_id = al_ID a, ar_rule_id = al_RuleID a, ar_agent_id = al_AgentID a, ar_status = ''firing'',
      ar_started_at = now, ar_acknowledged_at = None, ar_acknowledged_by = None,
      ar_acknowledged_comment = None, ar_resolved_at = None, ar_last_value = al_LastValue a,
      ar_message = al_Message a, ar_created_at = now, ar_updated_at = now\<rparr>"

definition insert_alert :: "Alert \<Rightarrow> 'a db_env_scheme \<Rightarrow> (dberr + Alert) \<times> 'a db_env_scheme" where
  "insert_alert a s =
     (case time_Now s of (now, s1) \<Rightarrow>
       if al_ID a \<in> ar_id ` set (alerts s1) \<or> al_RuleID a \<notin> ru_ID ` set (alert_rules s1)
          \<or> al_AgentID a \<notin> ag_ID ` set (agents s1) then (Inl Constraint, s1)
       else (Inr (scan_alert (new_alert_row a now)), s1\<lparr>alerts := alerts s1 @ [new_alert_row a now]\<rparr>))"

definition alert_CreateAlert ::
  "Alert \<Rightarrow> 'a db_env_scheme \<Rightarrow> (dberr + Alert) \<times> 'a db_env_scheme"
where
  "alert_CreateAlert a = db_run (insert_alert a)"

text \<open>The two updates of an alert, each guarded by the status it starts from.\<close>

definition update_alert ::
  "(alert_row \<Rightarrow> bool) \<Rightarrow> (time \<Rightarrow> alert_row \<Rightarrow> alert_row) \<Rightarrow> 'a db_env_scheme \<Rightarrow>
   (dberr + Alert) \<times> 'a db_env_scheme"
where
  "update_alert P f s =
     (case time_Now s of (now, s1) \<Rightarrow>
        case update_returning P (f now) (alerts s1) of (res, rows) \<Rightarrow>
          ((case res of Inl e \<Rightarrow> Inl e | Inr a \<Rightarrow> Inr (scan_alert a)), s1\<lparr>alerts := rows\<rparr>))"

definition acknowledge_row :: "string \<Rightarrow> string \<Rightarrow> time \<Rightarrow> alert_row \<Rightarrow> alert_row" where
  "acknowledge_row user comment now a =
     a\<lparr>ar_status := ''acknowledged'', ar_acknowledged_at := Some now, ar_acknowledged_by := Some user,
       ar_acknowledged_comment := Some comment, ar_updated_at := now\<rparr>"

definition alert_AcknowledgeAlert ::
  "string \<Rightarrow> string \<Rightarrow> string \<Rightarrow> 'a db_env_scheme \<Rightarrow> (dberr + Alert) \<times> 'a db_env_scheme"
where
  "alert_AcknowledgeAlert i user comment =
     db_run (update_alert (\<lambda>a. ar_id a = i \<and> ar_status a = ''firing'') (acknowledge_row user comment))"

definition resolve_row :: "float64 \<Rightarrow> time \<Rightarrow> alert_row \<Rightarrow> alert_row" where
  "resolve_row lastValue now a =
     a\<lparr>ar_status := ''resolved'', ar_resolved_at := Some now, ar_last_value := lastValue,
       ar_updated_at := now\<rparr>"

definition alert_ResolveAlert ::
  "string \<Rightarrow> float64 \<Rightarrow> 'a db_env_scheme \<Rightarrow> (dberr + Alert) \<times> 'a db_env_scheme"
where
  "alert_ResolveAlert i lastValue =
     db_run (update_alert (\<lambda>a. ar_id a = i \<and> active_status (ar_status a)) (resolve_row lastValue))"

section \<open>Comments\<close>

definition insert_comment ::
  "AlertComment \<Rightarrow> 'a db_env_scheme \<Rightarrow> (dberr + AlertComment) \<times> 'a db_env_scheme"
where
  "insert_comment c s =
     (case time_Now s of (now, s1) \<Rightarrow>
       let row = c\<lparr>cm_CreatedAt := now\<rparr> in
       if cm_ID c \<in> cm_ID ` set (alert_comments s1) \<or> cm_AlertID c \<notin> ar_id ` set (alerts s1)
       then (Inl Constraint, s1)
       else (Inr row, s1\<lparr>alert_comments := alert_comments s1 @ [row]\<rparr>))"

definition alert_AddComment ::
  "AlertComment \<Rightarrow> 'a db_env_scheme \<Rightarrow> (dberr + AlertComment) \<times> 'a db_env_scheme"
where
  "alert_AddComment c = db_run (insert_comment c)"

definition alert_ListComments ::
  "string \<Rightarrow> 'a db_env_scheme \<Rightarrow> (dberr + AlertComment list) \<times> 'a db_env_scheme"
where
  "alert_ListComments i s =
     (case db_Query (\<lambda>s. sort_key cm_CreatedAt (filter (\<lambda>c. cm_AlertID c = i) (alert_comments s))) s of
        (r, s1) \<Rightarrow> ((case r of Inl e \<Rightarrow> Inl e | Inr (rows, _) \<Rightarrow> Inr rows), s1))"

section \<open>They keep the schema\<close>

lemma row_updates_keep [simp]:
  "ar_id (acknowledge_row u c now a) = ar_id a" "ar_rule_id (acknowledge_row u c now a) = ar_rule_id a"
  "ar_agent_id (acknowledge_row u c now a) = ar_agent_id a"
  "ar_status (acknowledge_row u c now a) = ''acknowledged''"
  "ar_id (resolve_row v now a) = ar_id a" "ar_rule_id (resolve_row v now a) = ar_rule_id a"
  "ar_agent_id (resolve_row v now a) = ar_agent_id a" "ar_status (resolve_row v now a) = ''resolved''"
  by (simp_all add: acknowledge_row_def resolve_row_def)

lemma insert_rule_schema: "schema_ok s \<Longrightarrow> schema_ok (snd (insert_rule r s))"
  by (auto simp: insert_rule_def time_Now_def schema_defs Let_def)

lemma update_rule_schema:
  assumes "schema_ok s"
  shows "schema_ok (snd (update_rule r s))"
proof -
  let ?f = "\<lambda>old. r\<lparr>ru_ID := ru_ID old, ru_CreatedAt := ru_CreatedAt old, ru_UpdatedAt := clock s (clock_pos s)\<rparr>"
  have "map ru_ID (snd (update_returning (\<lambda>old. ru_ID old = ru_ID r) ?f (alert_rules s))) = map ru_ID (alert_rules s)"
    by (rule update_returning_keys) simp
  moreover have "ru_ID ` set (snd (update_returning (\<lambda>old. ru_ID old = ru_ID r) ?f (alert_rules s))) = ru_ID ` set (alert_rules s)"
    by (rule update_returning_image) simp
  ultimately show ?thesis
    using assms by (simp add: update_rule_def time_Now_def case_prod_beta schema_defs)
qed

lemma delete_rule_schema:
  assumes "schema_ok s"
  shows "schema_ok (snd (delete_rule i s))"
  using delete_alerts_schema [OF assms, of "\<lambda>a. ar_rule_id a = i"]
  by (auto simp: delete_rule_def Let_def schema_defs delete_alerts_def distinct_filter_key)

lemma insert_alert_schema: "schema_ok s \<Longrightarrow> schema_ok (snd (insert_alert a s))"
  by (auto simp: insert_alert_def time_Now_def schema_defs new_alert_row_def)

lemma update_alert_schema:
  assumes "schema_ok s" and "\<And>now a. ar_id (f now a) = ar_id a"
    and "\<And>now a. ar_rule_id (f now a) = ar_rule_id a" and "\<And>now a. ar_agent_id (f now a) = ar_agent_id a"
  shows "schema_ok (snd (update_alert P f s))"
proof -
  let ?r = "snd (update_returning P (f (clock s (clock_pos s))) (alerts s))"
  have "map ar_id ?r = map ar_id (alerts s)" by (rule update_returning_keys) (rule assms)
  moreover have "ar_id ` set ?r = ar_id ` set (alerts s)" by (rule update_returning_image) (rule assms)
  moreover have "ar_rule_id ` set ?r = ar_rule_id ` set (alerts s)" by (rule update_returning_image) (rule assms)
  moreover have "ar_agent_id ` set ?r = ar_agent_id ` set (alerts s)" by (rule update_returning_image) (rule assms)
  ultimately show ?thesis
    using assms(1) by (simp add: update_alert_def time_Now_def case_prod_beta schema_defs)
qed

lemma insert_comment_schema: "schema_ok s \<Longrightarrow> schema_ok (snd (insert_comment c s))"
  by (auto simp: insert_comment_def time_Now_def schema_defs Let_def)

lemma alert_schema [schema_intro]:
  "schema_ok s \<Longrightarrow> schema_ok (snd (alert_ListRules s))"
  "schema_ok s \<Longrightarrow> schema_ok (snd (alert_GetRuleByID i s))"
  "schema_ok s \<Longrightarrow> schema_ok (snd (alert_CreateRule r s))"
  "schema_ok s \<Longrightarrow> schema_ok (snd (alert_UpdateRule r s))"
  "schema_ok s \<Longrightarrow> schema_ok (snd (alert_DeleteRule i s))"
  "schema_ok s \<Longrightarrow> schema_ok (snd (alert_ListAlerts st i s))"
  "schema_ok s \<Longrightarrow> schema_ok (snd (alert_GetAlertByID i s))"
  "schema_ok s \<Longrightarrow> schema_ok (snd (alert_GetActiveAlert i j s))"
  "schema_ok s \<Longrightarrow> schema_ok (snd (alert_CreateAlert a s))"
  "schema_ok s \<Longrightarrow> schema_ok (snd (alert_AcknowledgeAlert i u m s))"
  "schema_ok s \<Longrightarrow> schema_ok (snd (alert_ResolveAlert i v s))"
  "schema_ok s \<Longrightarrow> schema_ok (snd (alert_AddComment c s))"
  "schema_ok s \<Longrightarrow> schema_ok (snd (alert_ListComments i s))"
  by (simp_all add: alert_ListRules_def alert_GetRuleByID_def alert_CreateRule_def alert_UpdateRule_def
      alert_DeleteRule_def alert_ListAlerts_def alert_GetAlertByID_def alert_GetActiveAlert_def
      alert_CreateAlert_def alert_AcknowledgeAlert_def alert_ResolveAlert_def alert_AddComment_def
      alert_ListComments_def case_prod_beta db_run_schema insert_rule_schema update_rule_schema
      delete_rule_schema insert_alert_schema update_alert_schema insert_comment_schema
      split: sum.split)

end
