(* ===== verification/Alert_Engine.thy ===== *)
theory Alert_Engine
  imports Alert_Repo Notif_Queue
begin

text \<open>
  internal/alerting/engine.go: from a telemetry report to the state of the alerts.  The state adds
  the map \<open>sustained\<close> of the engine to that of the queue; \<open>eg_hub\<close> and \<open>eg_queue\<close> say whether the
  engine has a hub and a queue.  A call of the engine is one transition here; \<open>Alert_Race\<close> looks at
  two calls that overlap.
\<close>

section \<open>The engine\<close>

record Engine =
  eg_hub :: bool
  eg_queue :: bool

record engine_env = queue_env +
  sustained :: "string \<Rightarrow> time option"

definition extractMetricValue :: "goany \<Rightarrow> string \<Rightarrow> float64 option" where
  "extractMetricValue data key =
     (case as_map data of
        None \<Rightarrow> None
      | Some m \<Rightarrow>
        (case map_of m key of
           Some (GFloat64 v) \<Rightarrow> Some v
         | Some (GFloat32 v) \<Rightarrow> Some v
         | Some (GInt i) \<Rightarrow> Some (fl_of_int i)
         | Some (GInt64 i) \<Rightarrow> Some (fl_of_int i)
         | _ \<Rightarrow> None))"

definition evaluateCondition :: "float64 \<Rightarrow> string \<Rightarrow> float64 \<Rightarrow> bool" where
  "evaluateCondition val op threshold =
     (if op = ''>'' then fl_less threshold val
      else if op = ''>='' then fl_le threshold val
      else if op = ''<'' then fl_less val threshold
      else if op = ''<='' then fl_le val threshold
      else if op = ''=='' then fl_eq val threshold
      else False)"

definition sustained_key :: "string \<Rightarrow> string \<Rightarrow> string" where
  "sustained_key ruleID agentID = ruleID @ '':'' @ agentID"

definition alert_id :: "time \<Rightarrow> string" where
  "alert_id now = ''alert-'' @ show_int (UnixNano now)"

definition alert_message :: "AlertRule \<Rightarrow> float64 \<Rightarrow> string" where
  "alert_message rule val =
     ''['' @ ru_Severity rule @ ''] '' @ ru_Name rule @ '': '' @ fmt_f1 val @ '' '' @
     ru_Operator rule @ '' '' @ fmt_f1 (ru_Threshold rule)"

definition new_alert :: "string \<Rightarrow> AlertRule \<Rightarrow> string \<Rightarrow> float64 \<Rightarrow> Alert" where
  "new_alert i rule agentID val =
     \<lparr>al_ID = i, al_RuleID = ru_ID rule, al_AgentID = agentID, al_RuleName = '''', al_Severity = '''',
      al_Status = '''', al_StartedAt = zero_time, al_AcknowledgedAt = None, al_AcknowledgedBy = '''',
      al_AcknowledgedComment = '''', al_ResolvedAt = None, al_LastValue = val,
      al_Message = alert_message rule val, al_CreatedAt = zero_time, al_UpdatedAt = zero_time\<rparr>"

definition alert_event :: "string \<Rightarrow> string \<Rightarrow> time \<Rightarrow> Alert \<Rightarrow> Event" where
  "alert_event ty agentID now a =
     new_event\<lparr>ev_Type := ty, ev_AgentID := agentID, ev_Timestamp := now, ev_Alert := Some (P_Alert a)\<rparr>"

text \<open>The two tails of \<open>processAlertState\<close>: tell the hub, then the queue.\<close>

definition announce ::
  "Engine \<Rightarrow> string \<Rightarrow> string \<Rightarrow> string \<Rightarrow> Alert \<Rightarrow> 'a queue_env_scheme \<Rightarrow> 'a queue_env_scheme"
where
  "announce g ty ntype agentID a s =
     (let s1 = (if eg_hub g
                then (case time_Now s of (now, s0) \<Rightarrow> Publish (alert_event ty agentID now a) s0)
                else s) in
      if eg_queue g then Enqueue ntype (al_ID a) (NA_Alert a) s1 else s1)"

definition processAlertState ::
  "Engine \<Rightarrow> AlertRule \<Rightarrow> string \<Rightarrow> float64 \<Rightarrow> bool \<Rightarrow> 'a queue_env_scheme \<Rightarrow> 'a queue_env_scheme"
where
  "processAlertState g rule agentID val triggered s =
     (case alert_GetActiveAlert (ru_ID rule) agentID s of
        (Inl _, s1) \<Rightarrow> s1
      | (Inr activeAlert, s1) \<Rightarrow>
          if triggered then
            (case activeAlert of
               Some _ \<Rightarrow> s1
             | None \<Rightarrow>
                 (case time_Now s1 of (now, s2) \<Rightarrow>
                  case alert_CreateAlert (new_alert (alert_id now) rule agentID val) s2 of
                    (Inl _, s3) \<Rightarrow> s3
                  | (Inr created, s3) \<Rightarrow>
                      announce g EventAlertFiring EventAlertFiring_n agentID
                        (created\<lparr>al_RuleName := ru_Name rule, al_Severity := ru_Severity rule\<rparr>) s3))
          else
            (case activeAlert of
               None \<Rightarrow> s1
             | Some a \<Rightarrow>
                 (case alert_ResolveAlert (al_ID a) val s1 of
                    (Inl _, s2) \<Rightarrow> s2
                  | (Inr resolved, s2) \<Rightarrow>
                      announce g EventAlertResolved EventAlertResolved_n agentID resolved s2)))"

definition for_duration :: "AlertRule \<Rightarrow> duration" where
  "for_duration rule = int64_wrap (ru_ForDurationSeconds rule * time_Second)"

definition processSustainedAndState ::
  "Engine \<Rightarrow> AlertRule \<Rightarrow> string \<Rightarrow> float64 \<Rightarrow> bool \<Rightarrow> 'a engine_env_scheme \<Rightarrow> 'a engine_env_scheme"
where
  "processSustainedAndState g rule agentID val triggered s =
     (let key = sustained_key (ru_ID rule) agentID in
      if triggered then
        (case (case sustained s key of
                 Some firstSeen \<Rightarrow> (firstSeen, s)
               | None \<Rightarrow>
                   (case time_Now s of (now, s1) \<Rightarrow>
                     (now, s1\<lparr>sustained := (sustained s1)(key \<mapsto> now)\<rparr>))) of (firstSeen, s2) \<Rightarrow>
          (if ru_ForDurationSeconds rule > 0
           then (case time_Now s2 of (now, s3) \<Rightarrow>
                   (if time_Sub now firstSeen < for_duration rule then s3
                    else processAlertState g rule agentID val True s3))
           else processAlertState g rule agentID val True s2))
      else
        processAlertState g rule agentID val False (s\<lparr>sustained := (sustained s)(key := None)\<rparr>))"

definition rule_value :: "(string \<times> goany) list \<Rightarrow> AlertRule \<Rightarrow> float64 option" where
  "rule_value system rule =
     (if ru_Metric rule = ''cpu_usage''
      then extractMetricValue (map_index system ''cpu'') ''usage_percent''
      else if ru_Metric rule = ''memory_usage''
      then extractMetricValue (map_index system ''memory'') ''used_percent''
      else if ru_Metric rule = ''disk_usage''
      then extractMetricValue (map_index system ''disk'') ''used_percent''
      else None)"

definition evaluate_rule ::
  "Engine \<Rightarrow> (string \<times> goany) list \<Rightarrow> string \<Rightarrow> AlertRule \<Rightarrow> 'a engine_env_scheme \<Rightarrow> 'a engine_env_scheme"
where
  "evaluate_rule g system agentID rule s =
     (if \<not> ru_Enabled rule then s
      else (case rule_value system rule of
          None \<Rightarrow> s
        | Some val \<Rightarrow>
            processSustainedAndState g rule agentID val
              (evaluateCondition val (ru_Operator rule) (ru_Threshold rule)) s))"

definition system_metrics :: "AgentTelemetry \<Rightarrow> (string \<times> goany) list option" where
  "system_metrics t = as_map (map_index (case at_Metrics t of None \<Rightarrow> [] | Some m \<Rightarrow> m) ''system'')"

definition EvaluateTelemetry ::
  "Engine \<Rightarrow> AgentTelemetry \<Rightarrow> 'a engine_env_scheme \<Rightarrow> 'a engine_env_scheme"
where
  "EvaluateTelemetry g t s =
     (case alert_ListRules s of
        (Inl _, s1) \<Rightarrow> s1
      | (Inr rules, s1) \<Rightarrow>
          (case system_metrics t of
             None \<Rightarrow> s1
           | Some system \<Rightarrow> fold (evaluate_rule g system (at_AgentID t)) rules s1))"

definition evaluate_offline_rule ::
  "Engine \<Rightarrow> string \<Rightarrow> bool \<Rightarrow> AlertRule \<Rightarrow> 'a engine_env_scheme \<Rightarrow> 'a engine_env_scheme"
where
  "evaluate_offline_rule g agentID isOffline rule s =
     (if \<not> ru_Enabled rule \<or> ru_Metric rule \<noteq> ''agent_offline'' then s
      else processSustainedAndState g rule agentID (if isOffline then Fin 1 else Fin 0) isOffline s)"

definition EvaluateAgentOffline ::
  "Engine \<Rightarrow> string \<Rightarrow> bool \<Rightarrow> 'a engine_env_scheme \<Rightarrow> 'a engine_env_scheme"
where
  "EvaluateAgentOffline g agentID isOffline s =
     (case alert_ListRules s of
        (Inl _, s1) \<Rightarrow> s1
      | (Inr rules, s1) \<Rightarrow> fold (evaluate_offline_rule g agentID isOffline) rules s1)"

section \<open>What announcing leaves alone\<close>

text \<open>
  Telling the hub and the queue moves the clock, the fault oracle, the hub, the queue and the log
  of deliveries, and nothing else: the state is the same once these are masked.
\<close>

definition mask :: "'a queue_env_scheme \<Rightarrow> 'a queue_env_scheme" where
  "mask s = s\<lparr>clock_pos := 0, fault_pos := 0, notification_deliveries := [], hub := NewHub,
     queue := NewQueue 0 0 0 0, queue_panic := False\<rparr>"

definition announces :: "'a queue_env_scheme \<Rightarrow> 'a queue_env_scheme \<Rightarrow> bool" where
  "announces s t \<longleftrightarrow> clock_pos s \<le> clock_pos t \<and> mask t = mask s"

named_theorems announcing \<open>operations that only announce\<close>

lemma announces_refl [announcing]: "announces s s"
  by (simp add: announces_def)

lemma announces_trans: "announces s t \<Longrightarrow> announces t u \<Longrightarrow> announces s u"
  by (simp add: announces_def)

lemma announces_clock [announcing]: "clock_pos s \<le> cp \<Longrightarrow> announces s (s\<lparr>clock_pos := cp\<rparr>)"
  by (simp add: announces_def mask_def)

lemma announces_fault [announcing]: "announces s (s\<lparr>fault_pos := fp\<rparr>)"
  by (simp add: announces_def mask_def)

lemma announces_parts [announcing]:
  "announces s (s\<lparr>hub := h\<rparr>)" "announces s (s\<lparr>notification_deliveries := ds\<rparr>)"
  "announces s (set_jobs c s)" "announces s (s\<lparr>queue_panic := p\<rparr>)"
  by (simp_all add: announces_def mask_def set_jobs_def)

text \<open>The fields that announcing does not move.\<close>

lemma mask_fields:
  "alerts (mask s) = alerts s" "alert_rules (mask s) = alert_rules s" "agents (mask s) = agents s"
  "clock (mask s) = clock s" "faults (mask s) = faults s" "alert_comments (mask s) = alert_comments s"
  "notification_channels (mask s) = notification_channels s" "telemetry (mask s) = telemetry s"
  "api_tokens (mask s) = api_tokens s" "telemetry_hourly (mask s) = telemetry_hourly s"
  "queue_env.more (mask s) = queue_env.more s"
  by (simp_all add: mask_def)

lemma announces_fields:
  assumes "announces s t"
  shows "alerts t = alerts s" "alert_rules t = alert_rules s" "agents t = agents s"
    "clock t = clock s" "faults t = faults s" "alert_comments t = alert_comments s"
    "notification_channels t = notification_channels s" "telemetry t = telemetry s"
    "api_tokens t = api_tokens s" "telemetry_hourly t = telemetry_hourly s"
    "clock_pos s \<le> clock_pos t" "queue_env.more t = queue_env.more s"
proof -
  from assms have m: "mask t = mask s" by (simp add: announces_def)
  show "alerts t = alerts s" using arg_cong [OF m, of alerts] by (simp add: mask_fields)
  show "alert_rules t = alert_rules s" using arg_cong [OF m, of alert_rules] by (simp add: mask_fields)
  show "agents t = agents s" using arg_cong [OF m, of agents] by (simp add: mask_fields)
  show "clock t = clock s" using arg_cong [OF m, of clock] by (simp add: mask_fields)
  show "faults t = faults s" using arg_cong [OF m, of faults] by (simp add: mask_fields)
  show "alert_comments t = alert_comments s" using arg_cong [OF m, of alert_comments] by (simp add: mask_fields)
  show "notification_channels t = notification_channels s"
    using arg_cong [OF m, of notification_channels] by (simp add: mask_fields)
  show "telemetry t = telemetry s" using arg_cong [OF m, of telemetry] by (simp add: mask_fields)
  show "api_tokens t = api_tokens s" using arg_cong [OF m, of api_tokens] by (simp add: mask_fields)
  show "telemetry_hourly t = telemetry_hourly s"
    using arg_cong [OF m, of telemetry_hourly] by (simp add: mask_fields)
  show "clock_pos s \<le> clock_pos t" using assms by (simp add: announces_def)
  show "queue_env.more t = queue_env.more s"
    using arg_cong [OF m, of queue_env.more] by (simp add: mask_fields)
qed

lemma announces_sustained: "announces s t \<Longrightarrow> sustained t = sustained s"
proof -
  assume "announces s t"
  then have "sustained (mask t) = sustained (mask s)" by (simp add: announces_def)
  then show "sustained t = sustained s" by (simp add: mask_def)
qed

lemma announces_db_run:
  assumes "\<And>u. announces u (snd (stmt u))"
  shows "announces s (snd (db_run stmt s))"
  by (rule db_run_state)
    (auto intro: announces_fault announces_trans [OF announces_fault] assms)

lemma announces_UpdateDelivery [announcing]: "announces s (snd (notif_UpdateDelivery i st a r m s))"
  unfolding notif_UpdateDelivery_def
  by (rule announces_db_run) (simp add: update_delivery_def time_Now_def announces_def mask_def)

lemma announces_CreateDelivery [announcing]: "announces s (snd (notif_CreateDelivery d s))"
  unfolding notif_CreateDelivery_def
  by (rule announces_db_run) (simp add: insert_delivery_def time_Now_def announces_def mask_def Let_def)

lemma announces_enqueue_job [announcing]: "announces s (enqueue_job j s)"
  by (auto simp: enqueue_job_def announcing split: prod.split chan_op.split)

lemma announces_create_pending [announcing]: "announces s (snd (create_pending event a n ch s))"
proof -
  have "announces s (s\<lparr>clock_pos := Suc (clock_pos s)\<rparr>)" by (simp add: announcing)
  note announces_trans [OF this announces_CreateDelivery]
  then show ?thesis
    by (simp add: create_pending_def time_Now_def case_prod_beta announcing split: sum.split)
qed

lemma announces_enqueue_channel [announcing]: "announces s (enqueue_channel event a n ch s)"
  by (simp add: enqueue_channel_def case_prod_beta announcing announces_trans [OF announces_create_pending announces_enqueue_job]
      split: option.split)

lemma announces_fold:
  "(\<And>x u. announces u (f x u)) \<Longrightarrow> announces s (fold f xs s)"
  by (induction xs arbitrary: s) (auto intro: announcing announces_trans)

lemma announces_Enqueue [announcing]: "announces s (Enqueue event a dat s)"
proof -
  let ?s1 = "s\<lparr>fault_pos := Suc (fault_pos s)\<rparr>"
  have "announces s (?s1\<lparr>clock_pos := Suc (Suc (clock_pos s))\<rparr>)"
    by (rule announces_trans [OF announces_fault announces_clock]) simp
  note channels = announces_trans [OF this announces_fold]
  show ?thesis
    by (simp add: Enqueue_def notif_ListChannels_def case_prod_beta time_Now_def announcing channels
        split: sum.split)
qed

lemma announces_Publish [announcing]: "announces s (Publish e s)"
proof -
  have "announces s (s\<lparr>clock_pos := Suc (clock_pos s)\<rparr>)" by (simp add: announcing)
  note announces_trans [OF this announces_parts(1)]
  then show ?thesis by (simp add: Publish_def time_Now_def announcing)
qed

lemma announces_announce [announcing]: "announces s (announce g ty nt agentID a s)"
proof -
  have "announces s (s\<lparr>clock_pos := Suc (clock_pos s)\<rparr>)" by (simp add: announcing)
  note pub = announces_trans [OF this announces_Publish]
  note both = announces_trans [OF pub announces_Enqueue]
  show ?thesis by (simp add: announce_def time_Now_def Let_def announcing pub both)
qed

section \<open>One report on one rule\<close>

definition active_rows :: "string \<Rightarrow> string \<Rightarrow> 'a db_env_scheme \<Rightarrow> alert_row list" where
  "active_rows ruleID agentID s =
     filter (\<lambda>a. ar_rule_id a = ruleID \<and> ar_agent_id a = agentID \<and> active_status (ar_status a)) (alerts s)"

text \<open>The part of the schema the engine relies on, and that at most one alert is active per rule and agent.\<close>

definition alerting_ok :: "'a db_env_scheme \<Rightarrow> bool" where
  "alerting_ok s \<longleftrightarrow>
     distinct (map ar_id (alerts s)) \<and> distinct (map ru_ID (alert_rules s)) \<and>
     ar_rule_id ` set (alerts s) \<subseteq> ru_ID ` set (alert_rules s) \<and>
     (\<forall>r a. length (active_rows r a s) \<le> 1)"

lemma active_rows_fault [simp]: "active_rows r a (s\<lparr>fault_pos := n\<rparr>) = active_rows r a s"
  by (simp add: active_rows_def)

lemma active_rows_alerts: "alerts t = alerts s \<Longrightarrow> active_rows r a t = active_rows r a s"
  by (simp add: active_rows_def)

lemma alerting_ok_same: "alerts t = alerts s \<Longrightarrow> alert_rules t = alert_rules s \<Longrightarrow> alerting_ok t = alerting_ok s"
  by (simp add: alerting_ok_def active_rows_def)

lemma alerts_joined_member:
  "x \<in> set (alerts_joined s) \<longleftrightarrow>
     (\<exists>a \<in> set (alerts s). \<exists>r \<in> set (alert_rules s). ru_ID r = ar_rule_id a \<and> x = join_alert a r)"
  by (auto simp: alerts_joined_def)

lemma join_alert_fields [simp]:
  "al_ID (join_alert a r) = ar_id a" "al_RuleID (join_alert a r) = ar_rule_id a"
  "al_AgentID (join_alert a r) = ar_agent_id a" "al_Status (join_alert a r) = ar_status a"
  by (simp_all add: join_alert_def scan_alert_def)

lemma GetActiveAlert_reliable:
  assumes "reliable s" and "alerting_ok s"
  obtains (none) "active_rows r a s = []" "alert_GetActiveAlert r a s = (Inr None, s\<lparr>fault_pos := Suc (fault_pos s)\<rparr>)"
  | (some) x al where "active_rows r a s = [x]" "al_ID al = ar_id x"
      "alert_GetActiveAlert r a s = (Inr (Some al), s\<lparr>fault_pos := Suc (fault_pos s)\<rparr>)"
proof -
  let ?P = "\<lambda>y. al_RuleID y = r \<and> al_AgentID y = a \<and> active_status (al_Status y)"
  let ?s1 = "s\<lparr>fault_pos := Suc (fault_pos s)\<rparr>"
  have joined: "alerts_joined ?s1 = alerts_joined s" by (simp add: alerts_joined_def)
  have rows: "set (active_rows r a s) = {x \<in> set (alerts s). ar_rule_id x = r \<and> ar_agent_id x = a \<and> active_status (ar_status x)}"
    by (auto simp: active_rows_def)
  show thesis
  proof (cases "select_one ?P (alerts_joined s)")
    case (Inl e)
    then have miss: "\<forall>y \<in> set (alerts_joined s). \<not> ?P y" by (simp add: select_one_Inl)
    have "active_rows r a s = []"
    proof (rule ccontr)
      assume "active_rows r a s \<noteq> []"
      then obtain x where x: "x \<in> set (alerts s)" "ar_rule_id x = r" "ar_agent_id x = a" "active_status (ar_status x)"
        by (metis (mono_tags, lifting) rows list.set_intros(1) mem_Collect_eq neq_Nil_conv)
      then obtain ru where "ru \<in> set (alert_rules s)" "ru_ID ru = ar_rule_id x"
        using assms(2) by (auto simp: alerting_ok_def image_subset_iff image_iff)
      with x have "join_alert x ru \<in> set (alerts_joined s)" by (auto simp: alerts_joined_member)
      with miss x show False by fastforce
    qed
    then show thesis
      using Inl by (intro none) (simp_all add: alert_GetActiveAlert_def db_run_reliable [OF assms(1)] joined)
  next
    case (Inr al)
    then have "al \<in> set (alerts_joined s)" "?P al" by (auto dest: select_one_Inr)
    then obtain x where x: "x \<in> set (active_rows r a s)" "al_ID al = ar_id x"
      by (auto simp: alerts_joined_member rows)
    have "length (active_rows r a s) \<le> 1" using assms(2) by (simp add: alerting_ok_def)
    with x have "active_rows r a s = [x]" by (cases "active_rows r a s") auto
    then show thesis
      using Inr x by (intro some [of x al]) (simp_all add: alert_GetActiveAlert_def db_run_reliable [OF assms(1)] joined)
  qed
qed

definition fresh_row :: "AlertRule \<Rightarrow> string \<Rightarrow> float64 \<Rightarrow> time \<Rightarrow> time \<Rightarrow> alert_row" where
  "fresh_row rule agentID val now1 now2 = new_alert_row (new_alert (alert_id now1) rule agentID val) now2"

definition known_pair :: "string \<Rightarrow> string \<Rightarrow> 'a db_env_scheme \<Rightarrow> bool" where
  "known_pair ruleID agentID s \<longleftrightarrow> ruleID \<in> ru_ID ` set (alert_rules s) \<and> agentID \<in> ag_ID ` set (agents s)"

definition with_alerts :: "alert_row list \<Rightarrow> 'a db_env_scheme \<Rightarrow> 'a db_env_scheme" where
  "with_alerts rows s = s\<lparr>alerts := rows\<rparr>"

lemma announces_pos: "clock_pos s \<le> cp \<Longrightarrow> announces s (s\<lparr>fault_pos := fp, clock_pos := cp\<rparr>)"
  by (simp add: announces_def mask_def)

text \<open>What creating the next alert does when the call does not fail.\<close>

lemma create_alert_ok:
  assumes "faults s (fault_pos s) = F_ok"
  shows "alert_CreateAlert (new_alert (alert_id (clock s (clock_pos s))) rule a val) (s\<lparr>clock_pos := Suc (clock_pos s)\<rparr>) =
    (let now = clock s (clock_pos s);
         t = s\<lparr>fault_pos := Suc (fault_pos s), clock_pos := Suc (Suc (clock_pos s))\<rparr>;
         row = fresh_row rule a val now (clock s (Suc (clock_pos s)))
     in if alert_id now \<in> ar_id ` set (alerts s) \<or> \<not> known_pair (ru_ID rule) a s then (Inl Constraint, t)
        else (Inr (scan_alert row), t\<lparr>alerts := alerts s @ [row]\<rparr>))"
proof -
  have "al_ID (new_alert i rule a val) = i" "al_RuleID (new_alert i rule a val) = ru_ID rule"
      "al_AgentID (new_alert i rule a val) = a" for i
    by (simp_all add: new_alert_def)
  then show ?thesis
    using assms by (auto simp: alert_CreateAlert_def db_run_ok insert_alert_def time_Now_def known_pair_def
        fresh_row_def Let_def)
qed

text \<open>
  The four outcomes of \<open>processAlertState\<close> with a working database: nothing but announcements, a
  new firing row, an insert that the database refused, or one row resolved.
\<close>

lemma processAlertState_cases:
  assumes "reliable s" and "alerting_ok s"
  obtains (quiet) "announces s (processAlertState g rule a val b s)" "b \<longleftrightarrow> active_rows (ru_ID rule) a s \<noteq> []"
  | (fires) "b" "active_rows (ru_ID rule) a s = []" "alert_id (clock s (clock_pos s)) \<notin> ar_id ` set (alerts s)"
      "known_pair (ru_ID rule) a s" "clock_pos s + 2 \<le> clock_pos (processAlertState g rule a val b s)"
      "announces (with_alerts (alerts s @
          [fresh_row rule a val (clock s (clock_pos s)) (clock s (Suc (clock_pos s)))]) s)
        (processAlertState g rule a val b s)"
  | (refused) "b" "active_rows (ru_ID rule) a s = []" "announces s (processAlertState g rule a val b s)"
      "alert_id (clock s (clock_pos s)) \<in> ar_id ` set (alerts s) \<or> \<not> known_pair (ru_ID rule) a s"
      "clock_pos s < clock_pos (processAlertState g rule a val b s)"
  | (resolves) x where "\<not> b" "active_rows (ru_ID rule) a s = [x]"
      "announces (with_alerts (map (\<lambda>y. if ar_id y = ar_id x then resolve_row val (clock s (clock_pos s)) y else y)
          (alerts s)) s) (processAlertState g rule a val b s)"
proof -
  let ?s1 = "s\<lparr>fault_pos := Suc (fault_pos s)\<rparr>"
  let ?t = "processAlertState g rule a val b s"
  have rel: "reliable ?s1" "reliable (?s1\<lparr>clock_pos := n\<rparr>)" for n using assms(1) by (simp_all add: reliable_def)
  show thesis
    using assms
  proof (cases rule: GetActiveAlert_reliable [where r = "ru_ID rule" and a = a])
    case none
    show thesis
    proof (cases b)
      case False
      then show thesis
        using none by (intro quiet) (simp_all add: processAlertState_def announces_fault)
    next
      case True
      let ?now = "clock s (clock_pos s)"
      let ?new = "new_alert (alert_id ?now) rule a val"
      let ?bad = "alert_id ?now \<in> ar_id ` set (alerts s) \<or> \<not> known_pair (ru_ID rule) a s"

      let ?s2 = "s\<lparr>fault_pos := Suc (Suc (fault_pos s)), clock_pos := Suc (Suc (clock_pos s))\<rparr>"
      have create: "alert_CreateAlert ?new (?s1\<lparr>clock_pos := Suc (clock_pos s)\<rparr>) =
          (if ?bad then (Inl Constraint, ?s2)
           else (Inr (scan_alert (fresh_row rule a val ?now (clock s (Suc (clock_pos s))))),
                 ?s2\<lparr>alerts := alerts s @ [fresh_row rule a val ?now (clock s (Suc (clock_pos s)))]\<rparr>))"
        using create_alert_ok [OF reliable_fault [OF rel(1)], of rule a val] by (simp add: Let_def known_pair_def)
      have run: "?t = (case alert_CreateAlert ?new (?s1\<lparr>clock_pos := Suc (clock_pos s)\<rparr>) of
          (Inl _, s3) \<Rightarrow> s3
        | (Inr created, s3) \<Rightarrow> announce g EventAlertFiring EventAlertFiring_n a
            (created\<lparr>al_RuleName := ru_Name rule, al_Severity := ru_Severity rule\<rparr>) s3)"
        using none True by (simp add: processAlertState_def time_Now_def)
      show thesis
      proof (cases ?bad)
        case bad: True
        then have t: "?t = ?s2" by (simp only: run create if_True prod.case sum.case)
        then show thesis
          using True none(1) bad by (intro refused) (simp_all add: announces_pos)
      next
        case False
        let ?u = "?s2\<lparr>alerts := alerts s @ [fresh_row rule a val ?now (clock s (Suc (clock_pos s)))]\<rparr>"
        obtain al where t: "?t = announce g EventAlertFiring EventAlertFiring_n a al ?u"
          using False by (simp only: run create if_False prod.case sum.case)
        have "announces (with_alerts (alerts s @ [fresh_row rule a val ?now (clock s (Suc (clock_pos s)))]) s) ?u"
          by (simp add: announces_def mask_def with_alerts_def)
        then have ann: "announces (with_alerts (alerts s @ [fresh_row rule a val ?now (clock s (Suc (clock_pos s)))]) s) ?t"
          unfolding t by (rule announces_trans) (rule announces_announce)
        have "clock_pos ?u \<le> clock_pos ?t" unfolding t by (rule announces_fields(11) [OF announces_announce])
        then show thesis using True none(1) False ann by (intro fires) auto
      qed
    qed
  next
    case (some x al)
    show thesis
    proof (cases b)
      case True
      then show thesis
        using some by (intro quiet) (simp_all add: processAlertState_def announces_fault)
    next
      case False
      have x: "x \<in> set (alerts s)" "active_status (ar_status x)"
        using some(1) by (auto simp: active_rows_def dest!: filter_ConsD)
      let ?now = "clock s (clock_pos s)"
      let ?rows = "map (\<lambda>y. if ar_id y = ar_id x then resolve_row val ?now y else y) (alerts s)"
      let ?s2 = "s\<lparr>fault_pos := Suc (Suc (fault_pos s)), clock_pos := Suc (clock_pos s)\<rparr>"
      have "update_returning (\<lambda>y. ar_id y = ar_id x \<and> active_status (ar_status y)) (resolve_row val ?now) (alerts s) =
          (Inr (resolve_row val ?now x), ?rows)"
        by (rule update_returning_key) (use assms(2) x in \<open>auto simp: alerting_ok_def\<close>)
      then have "alert_ResolveAlert (al_ID al) val ?s1 =
          (Inr (scan_alert (resolve_row val ?now x)), ?s2\<lparr>alerts := ?rows\<rparr>)"
        by (simp add: alert_ResolveAlert_def db_run_reliable [OF rel(1)] update_alert_def time_Now_def some(2))
      then have t: "?t = announce g EventAlertResolved EventAlertResolved_n a
          (scan_alert (resolve_row val ?now x)) (?s2\<lparr>alerts := ?rows\<rparr>)"
        using False some(3) by (simp add: processAlertState_def)
      have "announces (with_alerts ?rows s) (?s2\<lparr>alerts := ?rows\<rparr>)"
        by (simp add: announces_def mask_def with_alerts_def)
      then have "announces (with_alerts ?rows s) ?t"
        unfolding t by (rule announces_trans) (rule announces_announce)
      then show thesis using False some(1) by (intro resolves [of x]) auto
    qed
  qed
qed

section \<open>What a report does to the active alerts\<close>

lemma with_alerts_simps [simp]:
  "alerts (with_alerts rows s) = rows" "alert_rules (with_alerts rows s) = alert_rules s"
  "agents (with_alerts rows s) = agents s" "clock (with_alerts rows s) = clock s"
  "clock_pos (with_alerts rows s) = clock_pos s" "faults (with_alerts rows s) = faults s"
  by (simp_all add: with_alerts_def)

lemma active_after_fire:
  "active_rows r a (with_alerts (alerts s @ [fresh_row rule a0 val t1 t2]) s) =
     active_rows r a s @ (if (r, a) = (ru_ID rule, a0) then [fresh_row rule a0 val t1 t2] else [])"
  by (simp add: active_rows_def fresh_row_def new_alert_row_def new_alert_def active_status_def)

lemma active_after_resolve:
  assumes "distinct (map ar_id (alerts s))" and "active_rows r0 a0 s = [x]"
  shows "active_rows r a
      (with_alerts (map (\<lambda>y. if ar_id y = ar_id x then resolve_row val now y else y) (alerts s)) s) =
     (if (r, a) = (r0, a0) then [] else active_rows r a s)"
proof -
  let ?f = "\<lambda>y. if ar_id y = ar_id x then resolve_row val now y else y"
  let ?P = "\<lambda>y. ar_rule_id y = r \<and> ar_agent_id y = a \<and> active_status (ar_status y)"
  have x: "x \<in> set (alerts s)" "ar_rule_id x = r0" "ar_agent_id x = a0"
    using assms(2) by (auto simp: active_rows_def dest!: filter_ConsD)
  have only: "y = x" if "y \<in> set (alerts s)" "ar_rule_id y = r0" "ar_agent_id y = a0" "active_status (ar_status y)" for y
  proof -
    have "y \<in> set (active_rows r0 a0 s)" using that by (simp add: active_rows_def)
    then show ?thesis by (simp add: assms(2))
  qed
  have keep: "?P (?f y) \<longleftrightarrow> ?P y \<and> (r, a) \<noteq> (r0, a0)" if "y \<in> set (alerts s)" for y
  proof (cases "ar_id y = ar_id x")
    case True
    then have "y = x" using assms(1) that x(1) by (metis key_unique)
    then show ?thesis using x by (auto simp: active_status_def)
  next
    case False
    then show ?thesis using only [OF that] by auto
  qed
  have "filter ?P (map ?f (alerts s)) = map ?f (filter (\<lambda>y. ?P (?f y)) (alerts s))"
    by (simp add: filter_map comp_def)
  also have "filter (\<lambda>y. ?P (?f y)) (alerts s) = filter (\<lambda>y. ?P y \<and> (r, a) \<noteq> (r0, a0)) (alerts s)"
    using keep by (intro filter_cong) auto
  also have "map ?f \<dots> = filter (\<lambda>y. ?P y \<and> (r, a) \<noteq> (r0, a0)) (alerts s)"
  proof (rule map_idI)
    fix y
    assume "y \<in> set (filter (\<lambda>y. ?P y \<and> (r, a) \<noteq> (r0, a0)) (alerts s))"
    then have y: "y \<in> set (alerts s)" "?P y" "(r, a) \<noteq> (r0, a0)" by auto
    then have "ar_id y \<noteq> ar_id x" using x assms(1) by (metis key_unique)
    then show "?f y = y" by simp
  qed
  finally show ?thesis by (simp add: active_rows_def)
qed

lemma resolve_ids: "map ar_id (map (\<lambda>y. if ar_id y = i then resolve_row val now y else y) rows) = map ar_id rows"
  "ar_rule_id ` set (map (\<lambda>y. if ar_id y = i then resolve_row val now y else y) rows) = ar_rule_id ` set rows"
  by (induction rows) auto

lemma resolve_ids_set:
  "ar_id ` set (map (\<lambda>y. if ar_id y = i then resolve_row val now y else y) rows) = ar_id ` set rows"
  by (induction rows) auto

lemma alerting_ok_after_fire:
  assumes "alerting_ok s" and "active_rows (ru_ID rule) a s = []" and "alert_id t1 \<notin> ar_id ` set (alerts s)"
    and "known_pair (ru_ID rule) a s"
  shows "alerting_ok (with_alerts (alerts s @ [fresh_row rule a val t1 t2]) s)"
proof -
  have row: "ar_id (fresh_row rule a val t1 t2) = alert_id t1" "ar_rule_id (fresh_row rule a val t1 t2) = ru_ID rule"
    by (simp_all add: fresh_row_def new_alert_row_def new_alert_def)
  then show ?thesis
    using assms by (auto simp: alerting_ok_def known_pair_def active_after_fire)
qed

lemma alerting_ok_after_resolve:
  assumes "alerting_ok s" and "active_rows r a s = [x]"
  shows "alerting_ok (with_alerts (map (\<lambda>y. if ar_id y = ar_id x then resolve_row val now y else y) (alerts s)) s)"
proof -
  have dist: "distinct (map ar_id (alerts s))" using assms(1) by (simp add: alerting_ok_def)
  show ?thesis
    using assms(1) active_after_resolve [OF dist assms(2), of _ _ val now]
    unfolding alerting_ok_def by (simp only: with_alerts_simps resolve_ids) simp
qed

lemma announces_alerting: "announces s t \<Longrightarrow> alerting_ok s \<Longrightarrow> alerting_ok t"
  using alerting_ok_same [of t s] by (simp add: announces_fields)

lemma announces_active: "announces s t \<Longrightarrow> active_rows r a t = active_rows r a s"
  by (rule active_rows_alerts) (rule announces_fields)

text \<open>Whatever a report does, it keeps the invariant, the rules, the agents and the oracles.\<close>

lemma processAlertState_keeps:
  assumes "reliable s" and "alerting_ok s"
  shows "alerting_ok (processAlertState g rule a val b s)"
    and "alert_rules (processAlertState g rule a val b s) = alert_rules s"
    and "agents (processAlertState g rule a val b s) = agents s"
    and "clock (processAlertState g rule a val b s) = clock s"
    and "faults (processAlertState g rule a val b s) = faults s"
    and "clock_pos s \<le> clock_pos (processAlertState g rule a val b s)"
proof -
  have "\<exists>u. announces u (processAlertState g rule a val b s) \<and> alerting_ok u \<and>
      alert_rules u = alert_rules s \<and> agents u = agents s \<and> clock u = clock s \<and> faults u = faults s \<and>
      clock_pos u = clock_pos s"
    using assms
  proof (cases rule: processAlertState_cases [where g = g and rule = rule and a = a and val = val and b = b])
    case quiet
    then show ?thesis using assms(2) by blast
  next
    case fires
    show ?thesis
      by (rule exI, rule conjI, rule fires(6)) (simp add: alerting_ok_after_fire assms fires(2-4))
  next
    case refused
    then show ?thesis using assms(2) by blast
  next
    case (resolves x)
    show ?thesis
      by (rule exI, rule conjI, rule resolves(3)) (simp add: alerting_ok_after_resolve [OF assms(2) resolves(2)])
  qed
  then obtain u where u: "announces u (processAlertState g rule a val b s)" "alerting_ok u"
      "alert_rules u = alert_rules s" "agents u = agents s" "clock u = clock s" "faults u = faults s"
      "clock_pos u = clock_pos s"
    by blast
  note f = announces_fields [OF u(1)]
  show "alerting_ok (processAlertState g rule a val b s)" by (rule announces_alerting [OF u(1,2)])
  show "alert_rules (processAlertState g rule a val b s) = alert_rules s" by (simp add: f(2) u)
  show "agents (processAlertState g rule a val b s) = agents s" by (simp add: f(3) u)
  show "clock (processAlertState g rule a val b s) = clock s" by (simp add: f(4) u)
  show "faults (processAlertState g rule a val b s) = faults s" by (simp add: f(5) u)
  show "clock_pos s \<le> clock_pos (processAlertState g rule a val b s)" using f(11) by (simp add: u)
qed

lemma processAlertState_active:
  assumes "reliable s" and "alerting_ok s" and "known_pair (ru_ID rule) a s"
    and "alert_id (clock s (clock_pos s)) \<notin> ar_id ` set (alerts s) \<or> \<not> b \<or> active_rows (ru_ID rule) a s \<noteq> []"
  shows "active_rows r' a' (processAlertState g rule a val b s) \<noteq> [] \<longleftrightarrow>
     (if (r', a') = (ru_ID rule, a) then b else active_rows r' a' s \<noteq> [])"
  using assms(1,2)
proof (cases rule: processAlertState_cases [where g = g and rule = rule and a = a and val = val and b = b])
  case quiet
  then show ?thesis unfolding announces_active [OF quiet(1)] by auto
next
  case fires
  show ?thesis
    unfolding announces_active [OF fires(6)] active_after_fire using fires(1,2) by auto
next
  case refused
  then show ?thesis using assms(3,4) by auto
next
  case (resolves x)
  have dist: "distinct (map ar_id (alerts s))" using assms(2) by (simp add: alerting_ok_def)
  show ?thesis
    unfolding announces_active [OF resolves(3)] active_after_resolve [OF dist resolves(2)]
    using resolves(1) by auto
qed

section \<open>The contract of an incident tracker\<close>

text \<open>
  What the rules promise their readers: reporting a condition makes its incident active exactly
  when the condition holds and touches no other incident.  \<open>inv\<close> is kept by every report; \<open>fresh\<close>
  says that the identities drawn so far did not collide.
\<close>

locale incident_tracker =
  fixes inv :: "'s \<Rightarrow> bool" and fresh :: "'s \<Rightarrow> bool" and known :: "'k \<Rightarrow> 's \<Rightarrow> bool"
    and active :: "'k \<Rightarrow> 's \<Rightarrow> bool" and report :: "'k \<Rightarrow> bool \<Rightarrow> 's \<Rightarrow> 's"
  assumes report_inv: "inv s \<Longrightarrow> inv (report k b s)"
    and fresh_back: "inv s \<Longrightarrow> fresh (report k b s) \<Longrightarrow> fresh s"
    and report_known: "inv s \<Longrightarrow> known k' (report k b s) = known k' s"
    and report_active: "inv s \<Longrightarrow> fresh (report k b s) \<Longrightarrow> known k s \<Longrightarrow>
      active k' (report k b s) = (if k' = k then b else active k' s)"
begin

definition reports :: "('k \<times> bool) list \<Rightarrow> 's \<Rightarrow> 's" where
  "reports ks s = fold (\<lambda>(k, b). report k b) ks s"

lemma reports_simps [simp]:
  "reports [] s = s" "reports ((k, b) # ks) s = reports ks (report k b s)"
  by (simp_all add: reports_def)

lemma reports_inv: "inv s \<Longrightarrow> inv (reports ks s)"
  by (induction ks arbitrary: s) (auto simp: report_inv)

lemma reports_fresh_back: "inv s \<Longrightarrow> fresh (reports ks s) \<Longrightarrow> fresh s"
proof (induction ks arbitrary: s)
  case Nil
  then show ?case by simp
next
  case (Cons kb ks)
  then show ?case
    using report_inv [of s "fst kb" "snd kb"] fresh_back [of s "fst kb" "snd kb"] by (cases kb) simp
qed

text \<open>After any sequence of reports an incident is active exactly when its last report said so.\<close>

lemma last_report_decides:
  assumes "inv s" and "fresh (reports ks s)" and "\<And>k b. (k, b) \<in> set ks \<Longrightarrow> known k s"
  shows "active k (reports ks s) = (case map_of (rev ks) k of Some b \<Rightarrow> b | None \<Rightarrow> active k s)"
  using assms
proof (induction ks arbitrary: s)
  case Nil
  then show ?case by simp
next
  case (Cons kb ks)
  obtain k0 b0 where kb: "kb = (k0, b0)" by fastforce
  let ?s = "report k0 b0 s"
  have "inv ?s" "fresh (reports ks ?s)" using Cons.prems by (simp_all add: kb report_inv)
  moreover have "known k' ?s" if "(k', b') \<in> set ks" for k' b'
    using that Cons.prems(1,3) by (auto simp: kb report_known)
  ultimately have "active k (reports ks ?s) = (case map_of (rev ks) k of Some b \<Rightarrow> b | None \<Rightarrow> active k ?s)"
    by (rule Cons.IH)
  moreover have "active k ?s = (if k = k0 then b0 else active k s)"
    using Cons.prems reports_fresh_back [OF \<open>inv ?s\<close>, of ks] by (intro report_active) (auto simp: kb)
  ultimately show ?case by (simp add: kb map_add_def split: option.split)
qed

end

definition ids_ok :: "string set \<Rightarrow> 'a db_env_scheme \<Rightarrow> bool" where
  "ids_ok old s \<longleftrightarrow> ar_id ` set (alerts s) \<subseteq> old \<union> (\<lambda>p. alert_id (clock s p)) ` {..<clock_pos s}"

definition fresh_clock :: "string set \<Rightarrow> 'a db_env_scheme \<Rightarrow> bool" where
  "fresh_clock old s \<longleftrightarrow>
     inj_on (\<lambda>p. alert_id (clock s p)) {..<clock_pos s} \<and>
     (\<forall>p < clock_pos s. alert_id (clock s p) \<notin> old)"

definition tracker_inv :: "string set \<Rightarrow> 'a db_env_scheme \<Rightarrow> bool" where
  "tracker_inv old s \<longleftrightarrow> reliable s \<and> alerting_ok s \<and> ids_ok old s"

lemma ids_ok_mono:
  "ar_id ` set (alerts t) \<subseteq> ar_id ` set (alerts s) \<Longrightarrow> clock t = clock s \<Longrightarrow> clock_pos s \<le> clock_pos t \<Longrightarrow>
   ids_ok old s \<Longrightarrow> ids_ok old t"
  unfolding ids_ok_def by (erule subset_trans) (auto dest!: subsetD)

lemma processAlertState_ids:
  assumes "reliable s" and "alerting_ok s" and "ids_ok old s"
  shows "ids_ok old (processAlertState g rule a val b s)"
proof -
  note keeps = processAlertState_keeps [OF assms(1,2), of g rule a val b]
  have same: "ids_ok old (processAlertState g rule a val b s)"
    if "ar_id ` set (alerts (processAlertState g rule a val b s)) \<subseteq> ar_id ` set (alerts s)"
    using that keeps(4,6) assms(3) by (rule ids_ok_mono)
  show ?thesis
    using assms(1,2)
  proof (cases rule: processAlertState_cases [where g = g and rule = rule and a = a and val = val and b = b])
    case quiet
    then show ?thesis by (intro same) (simp add: announces_fields(1))
  next
    case fires
    let ?t = "processAlertState g rule a val b s"
    let ?F = "\<lambda>n. (\<lambda>p. alert_id (clock s p)) ` {..<n}"
    have ids: "ar_id ` set (alerts ?t) = insert (alert_id (clock s (clock_pos s))) (ar_id ` set (alerts s))"
      unfolding announces_fields(1) [OF fires(6)] by (simp add: fresh_row_def new_alert_row_def new_alert_def)
    have new: "alert_id (clock s (clock_pos s)) \<in> old \<union> ?F (clock_pos ?t)"
      using fires(5) by (intro UnI2 imageI) simp
    have "?F (clock_pos s) \<subseteq> ?F (clock_pos ?t)" using keeps(6) by (intro image_mono) auto
    then have "old \<union> ?F (clock_pos s) \<subseteq> old \<union> ?F (clock_pos ?t)" by (rule sup_mono [OF order_refl])
    with assms(3) have "ar_id ` set (alerts s) \<subseteq> old \<union> ?F (clock_pos ?t)"
      unfolding ids_ok_def by (rule subset_trans)
    then show ?thesis unfolding ids_ok_def keeps(4) ids using new by (rule insert_subsetI [rotated])
  next
    case refused
    then show ?thesis by (intro same) (simp add: announces_fields(1))
  next
    case (resolves x)
    show ?thesis
      by (rule same) (simp only: announces_fields(1) [OF resolves(3)] with_alerts_simps resolve_ids_set order_refl)
  qed
qed

lemma fresh_clock_back:
  "clock t = clock s \<Longrightarrow> clock_pos s \<le> clock_pos t \<Longrightarrow> fresh_clock old t \<Longrightarrow> fresh_clock old s"
  by (auto simp: fresh_clock_def intro: inj_on_subset)

lemma fresh_alert_id:
  assumes "ids_ok old s" and "fresh_clock old t" and "clock t = clock s" and "clock_pos s < clock_pos t"
  shows "alert_id (clock s (clock_pos s)) \<notin> ar_id ` set (alerts s)"
proof
  assume "alert_id (clock s (clock_pos s)) \<in> ar_id ` set (alerts s)"
  then consider "alert_id (clock s (clock_pos s)) \<in> old"
    | p where "p < clock_pos s" "alert_id (clock s (clock_pos s)) = alert_id (clock s p)"
    using assms(1) by (auto simp: ids_ok_def)
  then show False
  proof cases
    case 1
    then show False using assms(2-4) by (auto simp: fresh_clock_def)
  next
    case 2
    then have "clock_pos s = p"
      using assms(2-4) by (auto simp: fresh_clock_def dest: inj_onD [of _ _ "clock_pos s" p])
    then show False using 2 by simp
  qed
qed

lemma processAlertState_tracks:
  assumes "tracker_inv old s" and "fresh_clock old (processAlertState g rule a val b s)"
    and "known_pair (ru_ID rule) a s"
  shows "active_rows r' a' (processAlertState g rule a val b s) \<noteq> [] \<longleftrightarrow>
     (if (r', a') = (ru_ID rule, a) then b else active_rows r' a' s \<noteq> [])"
proof -
  have inv: "reliable s" "alerting_ok s" "ids_ok old s" using assms(1) by (simp_all add: tracker_inv_def)
  have "alert_id (clock s (clock_pos s)) \<notin> ar_id ` set (alerts s) \<or> \<not> b \<or> active_rows (ru_ID rule) a s \<noteq> []"
    using inv(1,2)
  proof (cases rule: processAlertState_cases [where g = g and rule = rule and a = a and val = val and b = b])
    case refused
    then show ?thesis
      using fresh_alert_id [OF inv(3) assms(2) processAlertState_keeps(4) [OF inv(1,2)]] by blast
  qed auto
  then show ?thesis by (rule processAlertState_active [OF inv(1,2) assms(3)])
qed

lemma processAlertState_tracker_inv:
  assumes "tracker_inv old s"
  shows "tracker_inv old (processAlertState g rule a val b s)"
  using assms processAlertState_keeps [of s g rule a val b] processAlertState_ids [of s old g rule a val b]
  by (simp add: tracker_inv_def reliable_def)

text \<open>The rule of an id and the value reported are free: \<open>rl\<close> and \<open>vl\<close>.\<close>

interpretation alert_tracker:
  incident_tracker "tracker_inv old" "fresh_clock old" "\<lambda>(r, a) s. known_pair r a s"
    "\<lambda>(r, a) s. active_rows r a s \<noteq> []"
    "\<lambda>(r, a) b. processAlertState g ((rl r)\<lparr>ru_ID := r\<rparr>) a (vl (r, a)) b"
  for old g rl vl
proof (unfold_locales, goal_cases)
  case (1 s k b)
  then show ?case by (cases k) (simp add: processAlertState_tracker_inv)
next
  case (2 s k b)
  then have "reliable s" "alerting_ok s" by (simp_all add: tracker_inv_def)
  then show ?case
    using 2 fresh_clock_back [OF processAlertState_keeps(4,6)] by (cases k) auto
next
  case (3 s k' k b)
  then have "reliable s" "alerting_ok s" by (simp_all add: tracker_inv_def)
  from processAlertState_keeps(2,3) [OF this] show ?case
    by (cases k; cases k') (simp add: known_pair_def)
next
  case (4 s k b k')
  then show ?case
    using processAlertState_tracks [of old s g "(rl (fst k))\<lparr>ru_ID := fst k\<rparr>" "snd k" "vl k" b "fst k'" "snd k'"]
    by (cases k; cases k') simp
qed

end
