(* ===== verification/Alert_Sustain.thy ===== *)
theory Alert_Sustain
  imports Alert_Engine
begin

text \<open>
  The duration condition of the rules and whole evaluations: how \<open>sustained\<close> follows the samples of
  a rule on an agent, when a report reaches \<open>processAlertState\<close>, and what one telemetry report does
  to every rule.
\<close>

section \<open>Reports leave the sustained map alone\<close>

text \<open>A report changes nothing but the alerts and what announcing moves, whatever the database does.\<close>

definition alerts_only :: "'a queue_env_scheme \<Rightarrow> 'a queue_env_scheme \<Rightarrow> bool" where
  "alerts_only s t \<longleftrightarrow> clock_pos s \<le> clock_pos t \<and> mask (with_alerts [] t) = mask (with_alerts [] s)"

named_theorems reporting \<open>operations that change only alerts\<close>

lemma alerts_only_refl [reporting]: "alerts_only s s"
  by (simp add: alerts_only_def)

lemma alerts_only_trans: "alerts_only s t \<Longrightarrow> alerts_only t u \<Longrightarrow> alerts_only s u"
  by (simp add: alerts_only_def)

lemma alerts_only_pos [reporting]:
  "alerts_only s (s\<lparr>fault_pos := n\<rparr>)" "clock_pos s \<le> m \<Longrightarrow> alerts_only s (s\<lparr>clock_pos := m\<rparr>)"
  by (simp_all add: alerts_only_def mask_def with_alerts_def)

lemma mask_with_alerts: "mask (with_alerts rows s) = with_alerts rows (mask s)"
  by (simp add: mask_def with_alerts_def)

lemma announces_alerts_only: "announces s t \<Longrightarrow> alerts_only s t"
  by (simp add: announces_def alerts_only_def mask_with_alerts)

lemma alerts_only_fields:
  assumes "alerts_only s t"
  shows "alert_rules t = alert_rules s" "agents t = agents s" "clock t = clock s" "faults t = faults s"
    "clock_pos s \<le> clock_pos t"
proof -
  from assms have m: "mask (with_alerts [] t) = mask (with_alerts [] s)" by (simp add: alerts_only_def)
  show "alert_rules t = alert_rules s" using arg_cong [OF m, of alert_rules] by (simp add: mask_fields)
  show "agents t = agents s" using arg_cong [OF m, of agents] by (simp add: mask_fields)
  show "clock t = clock s" using arg_cong [OF m, of clock] by (simp add: mask_fields)
  show "faults t = faults s" using arg_cong [OF m, of faults] by (simp add: mask_fields)
  show "clock_pos s \<le> clock_pos t" using assms by (simp add: alerts_only_def)
qed

lemma alerts_only_sustained:
  assumes "alerts_only s t"
  shows "sustained t = sustained s"
proof -
  from assms have "mask (with_alerts [] t) = mask (with_alerts [] s)" by (simp add: alerts_only_def)
  then have "sustained (mask (with_alerts [] t)) = sustained (mask (with_alerts [] s))" by simp
  then show ?thesis by (simp add: mask_def with_alerts_def)
qed

lemma alerts_only_db_run:
  assumes "\<And>u. alerts_only u (snd (stmt u))"
  shows "alerts_only s (snd (db_run stmt s))"
  by (rule db_run_state) (auto intro: alerts_only_pos alerts_only_trans [OF alerts_only_pos(1)] assms)

lemma alerts_only_Get [reporting]: "alerts_only s (snd (alert_GetActiveAlert r a s))"
proof -
  have "alerts_only s (snd (db_run (\<lambda>s. (q s, s)) s))" for q :: "_ \<Rightarrow> dberr + Alert"
    by (rule alerts_only_db_run) (simp add: reporting)
  then show ?thesis by (simp add: alert_GetActiveAlert_def case_prod_beta split: sum.split)
qed

lemma alerts_only_Create [reporting]: "alerts_only s (snd (alert_CreateAlert a s))"
  unfolding alert_CreateAlert_def
  by (rule alerts_only_db_run)
    (simp add: insert_alert_def time_Now_def alerts_only_def mask_def with_alerts_def)

lemma alerts_only_Resolve [reporting]: "alerts_only s (snd (alert_ResolveAlert i v s))"
  unfolding alert_ResolveAlert_def
  by (rule alerts_only_db_run)
    (simp add: update_alert_def time_Now_def alerts_only_def mask_def with_alerts_def case_prod_beta)

lemma processAlertState_alerts_only [reporting]: "alerts_only s (processAlertState g rule a val b s)"
proof -
  note get = alerts_only_Get [of s "ru_ID rule" a]
  note ann = announces_alerts_only [OF announces_announce]
  let ?s1 = "snd (alert_GetActiveAlert (ru_ID rule) a s)"
  have "alerts_only s (?s1\<lparr>clock_pos := Suc (clock_pos ?s1)\<rparr>)"
    by (rule alerts_only_trans [OF get]) (simp add: reporting)
  note create = alerts_only_trans [OF this alerts_only_Create]
  note create_ann = alerts_only_trans [OF create ann]
  note res = alerts_only_trans [OF get alerts_only_Resolve]
  note res_ann = alerts_only_trans [OF res ann]
  show ?thesis
    by (simp add: processAlertState_def case_prod_beta time_Now_def get create create_ann res res_ann
        split: sum.split option.split)
qed

section \<open>The duration condition\<close>

text \<open>A duration of 32 bits of seconds does not overflow, and the saturation of Sub does not matter.\<close>

lemma for_duration_exact:
  assumes "int4 (ru_ForDurationSeconds rule)"
  shows "for_duration rule = ru_ForDurationSeconds rule * 1000000000"
  using assms unfolding for_duration_def time_Second_def
  by (intro int64_wrap_id) (simp_all add: int4_def)

lemma time_Sub_less: "- (2 ^ 63) < d \<Longrightarrow> d < 2 ^ 63 \<Longrightarrow> time_Sub t u < d \<longleftrightarrow> t - u < d"
  by (auto simp: time_Sub_def)

definition first_seen :: "AlertRule \<Rightarrow> string \<Rightarrow> 'a engine_env_scheme \<Rightarrow> time" where
  "first_seen rule a s =
     (case sustained s (sustained_key (ru_ID rule) a) of Some f \<Rightarrow> f | None \<Rightarrow> clock s (clock_pos s))"

text \<open>The reading of time.Since: the next one after the possible first one.\<close>

definition since_reading :: "AlertRule \<Rightarrow> string \<Rightarrow> 'a engine_env_scheme \<Rightarrow> time" where
  "since_reading rule a s =
     (if sustained s (sustained_key (ru_ID rule) a) = None then clock s (Suc (clock_pos s))
      else clock s (clock_pos s))"

definition held_long_enough :: "AlertRule \<Rightarrow> string \<Rightarrow> 'a engine_env_scheme \<Rightarrow> bool" where
  "held_long_enough rule a s \<longleftrightarrow>
     ru_ForDurationSeconds rule \<le> 0 \<or>
     since_reading rule a s - first_seen rule a s \<ge> ru_ForDurationSeconds rule * 1000000000"

text \<open>How many readings a sample that holds takes: the first instant of its run, and time.Since.\<close>

definition readings :: "AlertRule \<Rightarrow> time option \<Rightarrow> nat" where
  "readings rule since =
     (if since = None then 1 else 0) + (if ru_ForDurationSeconds rule > 0 then 1 else 0)"

text \<open>What the mutex protects: the map and the clock have moved, nothing else.\<close>

definition noted :: "string \<Rightarrow> time option \<Rightarrow> nat \<Rightarrow> 'a engine_env_scheme \<Rightarrow> 'a engine_env_scheme" where
  "noted key v n s = s\<lparr>clock_pos := clock_pos s + n, sustained := (sustained s)(key := v)\<rparr>"

lemma sustained_clock_commute:
  "s\<lparr>sustained := m, clock_pos := n\<rparr> = s\<lparr>clock_pos := n, sustained := m\<rparr>"
  by simp

lemma noted_simps [simp]:
  "sustained (noted key v n s) = (sustained s)(key := v)" "clock (noted key v n s) = clock s"
  "clock_pos (noted key v n s) = clock_pos s + n" "alerts (noted key v n s) = alerts s"
  "alert_rules (noted key v n s) = alert_rules s" "agents (noted key v n s) = agents s"
  "faults (noted key v n s) = faults s"
  by (simp_all add: noted_def)

lemma processSustained_cases:
  assumes "int4 (ru_ForDurationSeconds rule)"
  obtains (waits) n where "b" "\<not> held_long_enough rule a s" "n = readings rule (sustained s (sustained_key (ru_ID rule) a))"
      "processSustainedAndState g rule a val b s =
         noted (sustained_key (ru_ID rule) a) (Some (first_seen rule a s)) n s"
  | (reports) n where "b" "held_long_enough rule a s" "n = readings rule (sustained s (sustained_key (ru_ID rule) a))"
      "processSustainedAndState g rule a val b s =
         processAlertState g rule a val True
           (noted (sustained_key (ru_ID rule) a) (Some (first_seen rule a s)) n s)"
  | (clears) "\<not> b"
      "processSustainedAndState g rule a val b s =
         processAlertState g rule a val False (noted (sustained_key (ru_ID rule) a) None 0 s)"
proof -
  let ?key = "sustained_key (ru_ID rule) a"
  let ?n = "readings rule (sustained s ?key)"
  show thesis
  proof (cases b)
    case False
    then show thesis
      by (intro clears) (simp_all add: processSustainedAndState_def Let_def noted_def)
  next
    case True
    have same: "s\<lparr>sustained := (sustained s)(?key \<mapsto> f)\<rparr> = s" if "sustained s ?key = Some f" for f
      using that by (simp add: fun_upd_idem)
    have sub: "time_Sub t u < for_duration rule \<longleftrightarrow> t - u < ru_ForDurationSeconds rule * 1000000000" for t u
      using assms by (simp add: for_duration_exact time_Sub_less int4_def)
    have run: "processSustainedAndState g rule a val b s =
        (if held_long_enough rule a s
         then processAlertState g rule a val True (noted ?key (Some (first_seen rule a s)) ?n s)
         else noted ?key (Some (first_seen rule a s)) ?n s)"
    proof (cases "sustained s ?key")
      case None
      then show ?thesis
        using True
        by (simp add: processSustainedAndState_def Let_def time_Now_def sub held_long_enough_def
            first_seen_def since_reading_def noted_def readings_def not_less sustained_clock_commute)
    next
      case (Some f)
      then show ?thesis
        using True same [OF Some]
        by (simp add: processSustainedAndState_def Let_def time_Now_def sub held_long_enough_def
            first_seen_def since_reading_def noted_def readings_def not_less fun_upd_idem)
    qed
    show thesis
    proof (cases "held_long_enough rule a s")
      case held: True
      then have "processSustainedAndState g rule a val b s =
          processAlertState g rule a val True (noted ?key (Some (first_seen rule a s)) ?n s)"
        by (simp only: run if_True)
      then show thesis by (rule reports [OF True held refl])
    next
      case waiting: False
      then have "processSustainedAndState g rule a val b s = noted ?key (Some (first_seen rule a s)) ?n s"
        by (simp only: run if_False)
      then show thesis by (rule waits [OF True waiting refl])
    qed
  qed
qed
lemma noted_inv:
  "tracker_inv old s \<Longrightarrow> tracker_inv old (noted key v n s)"
proof -
  assume inv: "tracker_inv old s"
  then have "ids_ok old (noted key v n s)"
    by - (rule ids_ok_mono [of _ s], simp_all add: tracker_inv_def)
  then show ?thesis
    using inv alerting_ok_same [of "noted key v n s" s] by (simp add: tracker_inv_def reliable_def)
qed

lemma noted_active [simp]: "active_rows r a (noted key v n s) = active_rows r a s"
  by (rule active_rows_alerts) simp

lemma known_pair_noted [simp]: "known_pair r a (noted key v n s) = known_pair r a s"
  by (simp add: known_pair_def)

lemma processSustained_sustained:
  assumes "int4 (ru_ForDurationSeconds rule)"
  shows "sustained (processSustainedAndState g rule a val b s) =
    (sustained s)(sustained_key (ru_ID rule) a := (if b then Some (first_seen rule a s) else None))"
  using assms
proof (cases rule: processSustained_cases [where a = a and s = s and b = b and g = g and val = val])
  case (waits n)
  then show ?thesis by simp
next
  case (reports n)
  show ?thesis
    unfolding reports(4) alerts_only_sustained [OF processAlertState_alerts_only] using reports(1) by simp
next
  case clears
  show ?thesis
    unfolding clears(2) alerts_only_sustained [OF processAlertState_alerts_only] using clears(1) by simp
qed

lemma processSustained_keeps:
  assumes "int4 (ru_ForDurationSeconds rule)"
  shows "tracker_inv old s \<Longrightarrow> tracker_inv old (processSustainedAndState g rule a val b s)"
    and "clock (processSustainedAndState g rule a val b s) = clock s"
    and "clock_pos s \<le> clock_pos (processSustainedAndState g rule a val b s)"
    and "alert_rules (processSustainedAndState g rule a val b s) = alert_rules s"
    and "agents (processSustainedAndState g rule a val b s) = agents s"
proof -
  let ?t = "processSustainedAndState g rule a val b s"
  have "\<exists>key v n. ?t = noted key v n s \<or> (\<exists>c. ?t = processAlertState g rule a val c (noted key v n s))"
    using assms
    by (cases rule: processSustained_cases [where a = a and s = s and b = b and g = g and val = val]) blast+
  then obtain key v n where t: "?t = noted key v n s \<or> (\<exists>c. ?t = processAlertState g rule a val c (noted key v n s))"
    by blast
  show "tracker_inv old s \<Longrightarrow> tracker_inv old ?t"
    using t noted_inv processAlertState_tracker_inv by metis
  have f: "clock (processAlertState g rule a val c (noted key v n s)) = clock s"
    "clock_pos s + n \<le> clock_pos (processAlertState g rule a val c (noted key v n s))"
    "alert_rules (processAlertState g rule a val c (noted key v n s)) = alert_rules s"
    "agents (processAlertState g rule a val c (noted key v n s)) = agents s" for c
    using alerts_only_fields [OF processAlertState_alerts_only [of "noted key v n s" g rule a val c]] by simp_all
  show "clock ?t = clock s" using t f(1) by auto
  show "clock_pos s \<le> clock_pos ?t" using t f(2) by (metis add_leD1 le_add1 noted_simps(3))
  show "alert_rules ?t = alert_rules s" using t f(3) by auto
  show "agents ?t = agents s" using t f(4) by auto
qed

lemma processSustained_tracks:
  assumes "tracker_inv old s" and "fresh_clock old (processSustainedAndState g rule a val b s)"
    and "known_pair (ru_ID rule) a s" and "int4 (ru_ForDurationSeconds rule)"
  shows "active_rows r' a' (processSustainedAndState g rule a val b s) \<noteq> [] \<longleftrightarrow>
     (if (r', a') = (ru_ID rule, a)
      then b \<and> (held_long_enough rule a s \<or> active_rows r' a' s \<noteq> [])
      else active_rows r' a' s \<noteq> [])"
  using assms(4)
proof (cases rule: processSustained_cases [where a = a and s = s and b = b and g = g and val = val])
  case (waits n)
  then show ?thesis by auto
next
  case (reports n)
  show ?thesis
    unfolding reports(4)
    using processAlertState_tracks [OF noted_inv [OF assms(1)], of g rule a val True] assms(2,3) reports(1,2)
    unfolding reports(4) by simp
next
  case clears
  show ?thesis
    unfolding clears(2)
    using processAlertState_tracks [OF noted_inv [OF assms(1)], of g rule a val False] assms(2,3) clears(1)
    unfolding clears(2) by simp
qed

section \<open>A whole telemetry report\<close>

definition rules_int4 :: "'a db_env_scheme \<Rightarrow> bool" where
  "rules_int4 s \<longleftrightarrow> (\<forall>r \<in> set (alert_rules s). int4 (ru_ForDurationSeconds r))"

text \<open>What a report says of a rule: nothing, or whether its condition holds.\<close>

definition verdict :: "(string \<times> goany) list \<Rightarrow> AlertRule \<Rightarrow> bool option" where
  "verdict system rule =
     (if \<not> ru_Enabled rule then None
      else map_option (\<lambda>v. evaluateCondition v (ru_Operator rule) (ru_Threshold rule)) (rule_value system rule))"

lemma evaluate_rule_verdict:
  "evaluate_rule g system a rule s =
     (case verdict system rule of
        None \<Rightarrow> s
      | Some b \<Rightarrow> processSustainedAndState g rule a (the (rule_value system rule)) b s)"
  by (simp add: evaluate_rule_def verdict_def split: option.split)

lemma evaluate_rule_keeps:
  assumes "int4 (ru_ForDurationSeconds rule)"
  shows "tracker_inv old s \<Longrightarrow> tracker_inv old (evaluate_rule g system a rule s)"
    and "clock (evaluate_rule g system a rule s) = clock s"
    and "clock_pos s \<le> clock_pos (evaluate_rule g system a rule s)"
    and "alert_rules (evaluate_rule g system a rule s) = alert_rules s"
    and "agents (evaluate_rule g system a rule s) = agents s"
  by (simp_all add: evaluate_rule_verdict processSustained_keeps [OF assms] split: option.split)

lemma evaluate_rules_keep:
  assumes "\<forall>r \<in> set rules. int4 (ru_ForDurationSeconds r)"
  shows "(tracker_inv old s \<longrightarrow> tracker_inv old (fold (evaluate_rule g system a) rules s)) \<and>
    clock (fold (evaluate_rule g system a) rules s) = clock s \<and>
    clock_pos s \<le> clock_pos (fold (evaluate_rule g system a) rules s) \<and>
    alert_rules (fold (evaluate_rule g system a) rules s) = alert_rules s \<and>
    agents (fold (evaluate_rule g system a) rules s) = agents s"
  using assms
proof (induction rules arbitrary: s)
  case Nil
  then show ?case by simp
next
  case (Cons r rules)
  then have r: "int4 (ru_ForDurationSeconds r)" by simp
  note keeps = evaluate_rule_keeps [OF r, where g = g and system = system and a = a and s = s]
  from Cons.IH [of "evaluate_rule g system a r s"] Cons.prems show ?case
    using keeps by (simp add: order_trans [OF keeps(3)])
qed

text \<open>
  How a rule stands for an agent: since when its condition holds, and whether its alert is active.
  What a verdict makes of it is exact: the first sample that holds notes the instant \<open>c p\<close>, and the
  alert is raised when the next reading of the clock is at least the duration after that instant.
\<close>

definition standing :: "AlertRule \<Rightarrow> string \<Rightarrow> 'a engine_env_scheme \<Rightarrow> time option \<times> bool" where
  "standing rule a s = (sustained s (sustained_key (ru_ID rule) a), active_rows (ru_ID rule) a s \<noteq> [])"

definition outcome_ok ::
  "(nat \<Rightarrow> time) \<Rightarrow> nat \<Rightarrow> nat \<Rightarrow> AlertRule \<Rightarrow> bool option \<Rightarrow> time option \<times> bool \<Rightarrow> time option \<times> bool \<Rightarrow> bool"
where
  "outcome_ok c lo hi rule vd before after \<longleftrightarrow>
     (case vd of
        None \<Rightarrow> after = before
      | Some False \<Rightarrow> after = (None, False)
      | Some True \<Rightarrow>
          (\<exists>p. lo \<le> p \<and> p + readings rule (fst before) \<le> hi \<and>
            (let since = (case fst before of None \<Rightarrow> c p | Some f \<Rightarrow> f);
                 now = c (if fst before = None then Suc p else p)
             in after = (Some since, snd before \<or> ru_ForDurationSeconds rule \<le> 0 \<or>
                  ru_ForDurationSeconds rule * 1000000000 \<le> now - since))))"

lemma outcome_ok_mono:
  assumes "outcome_ok c lo hi rule vd before after" and "lo' \<le> lo" and "hi \<le> hi'"
  shows "outcome_ok c lo' hi' rule vd before after"
proof -
  have weaken: "\<exists>p. lo' \<le> p \<and> p + n \<le> hi' \<and> P p" if "\<exists>p. lo \<le> p \<and> p + n \<le> hi \<and> P p" for n P
    using that assms(2,3) by (meson order_trans)
  consider "vd = None" | "vd = Some False" | "vd = Some True" by (cases vd) auto
  then show ?thesis
  proof cases
    case 3
    show ?thesis
      using assms(1) unfolding outcome_ok_def 3 option.case bool.case by (rule weaken)
  qed (use assms(1) in \<open>simp_all add: outcome_ok_def\<close>)
qed

lemma processSustained_readings:
  assumes "int4 (ru_ForDurationSeconds rule)" and "b"
  shows "clock_pos s + readings rule (sustained s (sustained_key (ru_ID rule) a)) \<le>
     clock_pos (processSustainedAndState g rule a val b s)"
  using assms(1)
proof (cases rule: processSustained_cases [where a = a and s = s and b = b and g = g and val = val])
  case (waits n)
  then show ?thesis by simp
next
  case (reports n)
  show ?thesis
    unfolding reports(4)
    using alerts_only_fields(5) [OF processAlertState_alerts_only
        [of "noted (sustained_key (ru_ID rule) a) (Some (first_seen rule a s)) n s" g rule a val True]] reports(3)
    by simp
next
  case clears
  then show ?thesis using assms(2) by simp
qed

lemma evaluate_rule_tracks:
  assumes "tracker_inv old s" and "fresh_clock old (evaluate_rule g system a rule s)"
    and "known_pair (ru_ID rule) a s" and "int4 (ru_ForDurationSeconds rule)"
  shows "outcome_ok (clock s) (clock_pos s) (clock_pos (evaluate_rule g system a rule s)) rule (verdict system rule)
           (standing rule a s) (standing rule a (evaluate_rule g system a rule s))"
    and "(r', a') \<noteq> (ru_ID rule, a) \<Longrightarrow>
      (active_rows r' a' (evaluate_rule g system a rule s) \<noteq> []) = (active_rows r' a' s \<noteq> [])"
    and "key \<noteq> sustained_key (ru_ID rule) a \<Longrightarrow> sustained (evaluate_rule g system a rule s) key = sustained s key"
proof -
  let ?t = "evaluate_rule g system a rule s"
  let ?val = "the (rule_value system rule)"
  have run: "?t = processSustainedAndState g rule a ?val b s" if "verdict system rule = Some b" for b
    using that by (simp add: evaluate_rule_verdict)
  have step: "active_rows r1 a1 ?t \<noteq> [] \<longleftrightarrow>
     (if (r1, a1) = (ru_ID rule, a)
      then b \<and> (held_long_enough rule a s \<or> active_rows r1 a1 s \<noteq> [])
      else active_rows r1 a1 s \<noteq> [])" if "verdict system rule = Some b" for b r1 a1
    using processSustained_tracks [OF assms(1) _ assms(3,4), of g ?val b r1 a1] assms(2) run [OF that] by simp
  have sus: "sustained ?t = (sustained s)(sustained_key (ru_ID rule) a := (if b then Some (first_seen rule a s) else None))"
    if "verdict system rule = Some b" for b
    unfolding run [OF that] by (rule processSustained_sustained [OF assms(4)])
  show "outcome_ok (clock s) (clock_pos s) (clock_pos ?t) rule (verdict system rule) (standing rule a s) (standing rule a ?t)"
  proof (cases "verdict system rule")
    case None
    then show ?thesis by (simp add: outcome_ok_def evaluate_rule_verdict)
  next
    case (Some b)
    show ?thesis
    proof (cases b)
      case False
      then show ?thesis using step [OF Some, of "ru_ID rule" a] sus [OF Some] Some by (simp add: outcome_ok_def standing_def)
    next
      case True
      have "clock_pos s + readings rule (sustained s (sustained_key (ru_ID rule) a)) \<le> clock_pos ?t"
        unfolding run [OF Some] by (rule processSustained_readings [OF assms(4) True])
      moreover have "standing rule a ?t = (Some (first_seen rule a s), active_rows (ru_ID rule) a s \<noteq> [] \<or> held_long_enough rule a s)"
        using step [OF Some, of "ru_ID rule" a] sus [OF Some] True by (auto simp: standing_def)
      ultimately show ?thesis
        using Some True unfolding outcome_ok_def
        by (auto simp: standing_def held_long_enough_def first_seen_def since_reading_def Let_def
            intro!: exI [of _ "clock_pos s"] split: option.split)
    qed
  qed
  show "(active_rows r' a' ?t \<noteq> []) = (active_rows r' a' s \<noteq> [])" if "(r', a') \<noteq> (ru_ID rule, a)"
  proof (cases "verdict system rule")
    case None
    then show ?thesis by (simp add: evaluate_rule_verdict)
  next
    case (Some b)
    from step [OF this, of r' a'] that show ?thesis by auto
  qed
  show "sustained ?t key = sustained s key" if "key \<noteq> sustained_key (ru_ID rule) a"
    using that sus by (cases "verdict system rule") (auto simp: evaluate_rule_verdict)
qed

lemma evaluate_rule_other:
  assumes "tracker_inv old s" and "fresh_clock old (evaluate_rule g system a rule s)"
    and "known_pair (ru_ID rule) a s" and "int4 (ru_ForDurationSeconds rule)" and "ru_ID q \<noteq> ru_ID rule"
  shows "standing q a (evaluate_rule g system a rule s) = standing q a s"
  using evaluate_rule_tracks(2) [OF assms(1-4), of "ru_ID q" a]
    evaluate_rule_tracks(3) [OF assms(1-4), of "sustained_key (ru_ID q) a"] assms(5)
  by (simp add: standing_def sustained_key_def)

lemma evaluate_rules_track:
  assumes "tracker_inv old s" and "fresh_clock old (fold (evaluate_rule g system a) rules s)"
    and "\<forall>r \<in> set rules. known_pair (ru_ID r) a s \<and> int4 (ru_ForDurationSeconds r)"
    and "distinct (map ru_ID rules)"
  shows "(\<forall>r \<in> set rules. outcome_ok (clock s) (clock_pos s) (clock_pos (fold (evaluate_rule g system a) rules s)) r
            (verdict system r) (standing r a s) (standing r a (fold (evaluate_rule g system a) rules s))) \<and>
         (\<forall>r' a'. a' \<noteq> a \<or> r' \<notin> ru_ID ` set rules \<longrightarrow>
            (active_rows r' a' (fold (evaluate_rule g system a) rules s) \<noteq> []) = (active_rows r' a' s \<noteq> [])) \<and>
         (\<forall>key. key \<notin> (\<lambda>r. sustained_key (ru_ID r) a) ` set rules \<longrightarrow>
            sustained (fold (evaluate_rule g system a) rules s) key = sustained s key)"
  using assms
proof (induction rules arbitrary: s)
  case Nil
  then show ?case by simp
next
  case (Cons r rules)
  let ?s = "evaluate_rule g system a r s"
  let ?t = "fold (evaluate_rule g system a) rules ?s"
  have r: "known_pair (ru_ID r) a s" "int4 (ru_ForDurationSeconds r)"
    and rules: "\<forall>r \<in> set rules. int4 (ru_ForDurationSeconds r)" using Cons.prems(3) by simp_all
  note keeps = evaluate_rule_keeps [OF r(2), where g = g and system = system and a = a and s = s]
  note pos = evaluate_rules_keep [OF rules, of old ?s g system a]
  have "tracker_inv old ?s" by (rule keeps(1) [OF Cons.prems(1)])
  moreover have "\<forall>q \<in> set rules. known_pair (ru_ID q) a ?s \<and> int4 (ru_ForDurationSeconds q)"
    using Cons.prems(3) keeps(4,5) by (simp add: known_pair_def)
  ultimately have IH: "(\<forall>q \<in> set rules. outcome_ok (clock s) (clock_pos ?s) (clock_pos ?t) q (verdict system q)
        (standing q a ?s) (standing q a ?t)) \<and>
      (\<forall>r' a'. a' \<noteq> a \<or> r' \<notin> ru_ID ` set rules \<longrightarrow>
        (active_rows r' a' ?t \<noteq> []) = (active_rows r' a' ?s \<noteq> [])) \<and>
      (\<forall>key. key \<notin> (\<lambda>r. sustained_key (ru_ID r) a) ` set rules \<longrightarrow> sustained ?t key = sustained ?s key)"
    unfolding keeps(2) [symmetric] using Cons.prems(2,4) by (intro Cons.IH) simp_all
  have "fresh_clock old ?s"
    using fresh_clock_back [of ?t ?s old] pos Cons.prems(2) by simp
  note one = evaluate_rule_tracks [OF Cons.prems(1) this r]
    and other = evaluate_rule_other [OF Cons.prems(1) this r]
  have notin: "ru_ID r \<notin> ru_ID ` set rules" using Cons.prems(4) by simp
  have "standing r a ?t = standing r a ?s"
  proof -
    have "sustained_key (ru_ID r) a \<notin> (\<lambda>r. sustained_key (ru_ID r) a) ` set rules"
      using notin by (auto simp: sustained_key_def)
    then show ?thesis using IH notin unfolding standing_def by simp
  qed
  then have mine: "outcome_ok (clock s) (clock_pos s) (clock_pos ?t) r (verdict system r) (standing r a s) (standing r a ?t)"
    using outcome_ok_mono [OF one(1) order_refl, of "clock_pos ?t"] pos by simp
  have those: "outcome_ok (clock s) (clock_pos s) (clock_pos ?t) q (verdict system q) (standing q a s) (standing q a ?t)"
    if "q \<in> set rules" for q
  proof -
    have "ru_ID q \<noteq> ru_ID r" using notin that by (metis image_eqI)
    moreover have "outcome_ok (clock s) (clock_pos ?s) (clock_pos ?t) q (verdict system q) (standing q a ?s) (standing q a ?t)"
      using IH that by blast
    ultimately show ?thesis using other [of q] outcome_ok_mono [OF _ keeps(3) order_refl] by simp
  qed
  show ?case
  proof (intro conjI ballI allI impI)
    fix q
    assume "q \<in> set (r # rules)"
    then show "outcome_ok (clock s) (clock_pos s) (clock_pos (fold (evaluate_rule g system a) (r # rules) s)) q
        (verdict system q) (standing q a s) (standing q a (fold (evaluate_rule g system a) (r # rules) s))"
      using mine those by auto
  next
    fix r' a'
    assume "a' \<noteq> a \<or> r' \<notin> ru_ID ` set (r # rules)"
    then show "(active_rows r' a' (fold (evaluate_rule g system a) (r # rules) s) \<noteq> []) = (active_rows r' a' s \<noteq> [])"
      using IH one(2) [of r' a'] by auto
  next
    fix key
    assume "key \<notin> (\<lambda>r. sustained_key (ru_ID r) a) ` set (r # rules)"
    then show "sustained (fold (evaluate_rule g system a) (r # rules) s) key = sustained s key"
      using IH one(3) [of key] by simp
  qed
qed

end
