(* ===== verification/Alert_System.thy ===== *)
theory Alert_System
  imports Alert_Sustain
begin

text \<open>
  The alerts under everything that writes them: evaluations of the engine and the requests of the
  API, one after the other.  At most one alert is active per rule and agent, and an alert only
  moves forward, from firing over acknowledged to resolved.
\<close>

section \<open>The operations as steps\<close>

inductive alert_step :: "Engine \<Rightarrow> engine_env \<Rightarrow> engine_env \<Rightarrow> bool" for g where
  telemetry: "alert_step g s (EvaluateTelemetry g t s)"
| offline: "alert_step g s (EvaluateAgentOffline g a b s)"
| acknowledge: "alert_step g s (snd (alert_AcknowledgeAlert i u c s))"
| resolve: "alert_step g s (snd (alert_ResolveAlert i v s))"
| create_rule: "alert_step g s (snd (alert_CreateRule r s))"
| update_rule: "alert_step g s (snd (alert_UpdateRule r s))"
| delete_rule: "alert_step g s (snd (alert_DeleteRule i s))"
| elsewhere: "alerts t = alerts s \<Longrightarrow> alert_rules t = alert_rules s \<Longrightarrow> faults t = faults s \<Longrightarrow> alert_step g s t"

section \<open>Forward only\<close>

definition status_rank :: "string \<Rightarrow> nat" where
  "status_rank st = (if st = ''firing'' then 0 else if st = ''acknowledged'' then 1 else 2)"

definition forward :: "alert_row \<Rightarrow> alert_row \<Rightarrow> bool" where
  "forward a b \<longleftrightarrow>
     ar_id b = ar_id a \<and> ar_rule_id b = ar_rule_id a \<and> ar_agent_id b = ar_agent_id a \<and>
     ar_started_at b = ar_started_at a \<and> ar_message b = ar_message a \<and>
     (b = a \<or> status_rank (ar_status a) < status_rank (ar_status b))"

definition evolves :: "alert_row list \<Rightarrow> alert_row list \<Rightarrow> bool" where
  "evolves as bs \<longleftrightarrow> (\<forall>a \<in> set as. \<exists>b \<in> set bs. forward a b)"

lemma forward_refl [simp]: "forward a a"
  by (simp add: forward_def)

lemma forward_trans: "forward a b \<Longrightarrow> forward b c \<Longrightarrow> forward a c"
  by (auto simp: forward_def)

lemma evolves_refl [simp]: "evolves as as"
  unfolding evolves_def using forward_refl by blast

lemma evolves_trans: "evolves as bs \<Longrightarrow> evolves bs cs \<Longrightarrow> evolves as cs"
  unfolding evolves_def by (meson forward_trans)

lemma evolves_append: "evolves as (as @ bs)"
  unfolding evolves_def set_append using forward_refl by blast

lemma evolves_map: "(\<And>a. a \<in> set as \<Longrightarrow> forward a (f a)) \<Longrightarrow> evolves as (map f as)"
  by (auto simp: evolves_def)

lemma forward_resolve: "active_status (ar_status a) \<Longrightarrow> forward a (resolve_row v now a)"
  by (auto simp: forward_def resolve_row_def status_rank_def active_status_def)

lemma forward_acknowledge: "ar_status a = ''firing'' \<Longrightarrow> forward a (acknowledge_row u c now a)"
  by (simp add: forward_def acknowledge_row_def status_rank_def)

section \<open>What each operation keeps\<close>

definition calm :: "'a db_env_scheme \<Rightarrow> bool" where
  "calm s \<longleftrightarrow> reliable s \<and> alerting_ok s"

definition keeps_alerts :: "'a db_env_scheme \<Rightarrow> 'a db_env_scheme \<Rightarrow> bool" where
  "keeps_alerts s t \<longleftrightarrow> calm t \<and> evolves (alerts s) (alerts t)"

lemma keeps_alerts_trans: "keeps_alerts s t \<Longrightarrow> keeps_alerts t u \<Longrightarrow> keeps_alerts s u"
  by (auto simp: keeps_alerts_def intro: evolves_trans)

lemma keeps_alerts_refl: "calm s \<Longrightarrow> keeps_alerts s s"
  by (simp add: keeps_alerts_def)

lemma processAlertState_keeps_alerts:
  assumes "calm s"
  shows "keeps_alerts s (processAlertState g rule a val b s)"
proof -
  have ok: "reliable s" "alerting_ok s" using assms by (simp_all add: calm_def)
  have "evolves (alerts s) (alerts (processAlertState g rule a val b s))"
    using ok
  proof (cases rule: processAlertState_cases [where g = g and rule = rule and a = a and val = val and b = b])
    case quiet
    then show ?thesis by (simp add: announces_fields(1))
  next
    case fires
    show ?thesis unfolding announces_fields(1) [OF fires(6)] by (simp add: evolves_append)
  next
    case refused
    then show ?thesis by (simp add: announces_fields(1))
  next
    case (resolves x)
    have x: "x \<in> set (alerts s)" "active_status (ar_status x)"
      using resolves(2) by (auto simp: active_rows_def dest!: filter_ConsD)
    have dist: "distinct (map ar_id (alerts s))" using ok(2) by (simp add: alerting_ok_def)
    show ?thesis
      unfolding announces_fields(1) [OF resolves(3)] with_alerts_simps
    proof (rule evolves_map)
      fix y
      assume y: "y \<in> set (alerts s)"
      then have "ar_id y = ar_id x \<Longrightarrow> y = x" using key_unique [OF dist _ x(1)] by blast
      then show "forward y (if ar_id y = ar_id x then resolve_row val (clock s (clock_pos s)) y else y)"
        using x(2) by (auto intro: forward_resolve)
    qed
  qed
  then show ?thesis
    using processAlertState_keeps [OF ok, of g rule a val b] ok(1)
    by (simp add: keeps_alerts_def calm_def reliable_def)
qed

lemma calm_same: "alerts t = alerts s \<Longrightarrow> alert_rules t = alert_rules s \<Longrightarrow> faults t = faults s \<Longrightarrow> calm t = calm s"
  using alerting_ok_same [of t s] by (simp add: calm_def reliable_def)

lemma keeps_alerts_same:
  "calm s \<Longrightarrow> alerts t = alerts s \<Longrightarrow> alert_rules t = alert_rules s \<Longrightarrow> faults t = faults s \<Longrightarrow> keeps_alerts s t"
  using calm_same [of t s] by (simp add: keeps_alerts_def)

lemma processSustained_keeps_alerts:
  assumes "calm s"
  shows "keeps_alerts s (processSustainedAndState g rule a val b s)"
proof -
  have next_reading: "keeps_alerts s (s\<lparr>clock_pos := n, sustained := m\<rparr>)"
      "keeps_alerts s (s\<lparr>clock_pos := n\<rparr>)" "keeps_alerts s (s\<lparr>sustained := m\<rparr>)"
      "keeps_alerts s (s\<lparr>sustained := m, clock_pos := n\<rparr>)" for n m
    using assms by (simp_all add: keeps_alerts_same)
  have then_report: "keeps_alerts s (processAlertState g rule a val c u)" if "keeps_alerts s u" for c u
    using that processAlertState_keeps_alerts [of u g rule a val c] keeps_alerts_trans
    by (auto simp: keeps_alerts_def intro: evolves_trans)
  show ?thesis
    using next_reading then_report assms keeps_alerts_refl [of s]
    by (simp add: processSustainedAndState_def Let_def time_Now_def split: option.split)
qed

lemma fold_keeps_alerts:
  assumes "\<And>x u. calm u \<Longrightarrow> keeps_alerts u (f x u)" and "calm s"
  shows "keeps_alerts s (fold f xs s)"
  using assms(2)
proof (induction xs arbitrary: s)
  case Nil
  then show ?case by (simp add: keeps_alerts_refl)
next
  case (Cons x xs)
  then have "keeps_alerts s (f x s)" by (intro assms(1))
  moreover from this have "keeps_alerts (f x s) (fold f xs (f x s))"
    by (intro Cons.IH) (simp add: keeps_alerts_def)
  ultimately show ?case by (simp add: keeps_alerts_trans)
qed

lemma evaluations_keep_alerts:
  assumes "calm s"
  shows "keeps_alerts s (EvaluateTelemetry g t s)" and "keeps_alerts s (EvaluateAgentOffline g a b s)"
proof -
  let ?s1 = "s\<lparr>fault_pos := Suc (fault_pos s)\<rparr>"
  have s1: "keeps_alerts s ?s1" using assms by (simp add: keeps_alerts_same)
  then have c: "calm ?s1" by (simp add: keeps_alerts_def)
  have "calm u \<Longrightarrow> keeps_alerts u (evaluate_rule g system a' r u)" for u system a' r
    by (simp add: evaluate_rule_def keeps_alerts_refl processSustained_keeps_alerts split: option.split)
  then have "keeps_alerts s (fold (evaluate_rule g system a') rules ?s1)" for system a' rules
    by (intro keeps_alerts_trans [OF s1 fold_keeps_alerts] c)
  with s1 show "keeps_alerts s (EvaluateTelemetry g t s)"
    by (simp add: EvaluateTelemetry_def alert_ListRules_def case_prod_beta split: sum.split option.split)
  have "calm u \<Longrightarrow> keeps_alerts u (evaluate_offline_rule g a b r u)" for u r
    by (simp add: evaluate_offline_rule_def keeps_alerts_refl processSustained_keeps_alerts)
  then have "keeps_alerts s (fold (evaluate_offline_rule g a b) rules ?s1)" for rules
    by (intro keeps_alerts_trans [OF s1 fold_keeps_alerts] c)
  with s1 show "keeps_alerts s (EvaluateAgentOffline g a b s)"
    by (simp add: EvaluateAgentOffline_def alert_ListRules_def case_prod_beta split: sum.split)
qed
text \<open>An update of alerts that keeps their keys and does not reactivate one.\<close>

lemma length_filter_mono: "(\<And>y. P y \<Longrightarrow> Q y) \<Longrightarrow> length (filter P xs) \<le> length (filter Q xs)"
  by (induction xs) (auto intro: le_SucI)

lemma alerting_ok_map:
  assumes "alerting_ok s" and "\<And>y. ar_id (f y) = ar_id y" and "\<And>y. ar_rule_id (f y) = ar_rule_id y"
    and "\<And>y. ar_agent_id (f y) = ar_agent_id y"
    and "\<And>y. active_status (ar_status (f y)) \<Longrightarrow> active_status (ar_status y)"
  shows "alerting_ok (with_alerts (map f (alerts s)) s)"
proof -
  have "length (active_rows r a (with_alerts (map f (alerts s)) s)) \<le> 1" for r a
  proof -
    have "length (active_rows r a (with_alerts (map f (alerts s)) s)) \<le> length (active_rows r a s)"
      unfolding active_rows_def with_alerts_simps filter_map length_map
      by (rule length_filter_mono) (use assms(3-5) in auto)
    then show ?thesis using assms(1) unfolding alerting_ok_def by (meson le_trans)
  qed
  moreover have ids: "map ar_id (map f (alerts s)) = map ar_id (alerts s)"
    and refs: "ar_rule_id ` set (map f (alerts s)) = ar_rule_id ` set (alerts s)"
    by (simp_all add: assms(2,3) image_image)
  ultimately show ?thesis
    using assms(1) unfolding alerting_ok_def with_alerts_simps ids refs by blast
qed

lemma update_alert_calm:
  assumes "calm s" and f: "\<And>now y. ar_id (f now y) = ar_id y" "\<And>now y. ar_rule_id (f now y) = ar_rule_id y"
      "\<And>now y. ar_agent_id (f now y) = ar_agent_id y"
    and P: "\<And>y. P y \<Longrightarrow> active_status (ar_status y)"
    and fwd: "\<And>now y. P y \<Longrightarrow> forward y (f now y)"
  shows "keeps_alerts s (snd (db_run (update_alert P f) s))"
proof -
  have ok: "alerting_ok s" "reliable s" using assms(1) by (simp_all add: calm_def)
  let ?now = "clock s (clock_pos s)"
  let ?f = "\<lambda>y. if P y then f ?now y else y"
  let ?t = "snd (db_run (update_alert P f) s)"
  have rows: "alerts ?t = map ?f (alerts s) \<or> alerts ?t = alerts s"
    and rest: "alert_rules ?t = alert_rules s" "faults ?t = faults s"
    by (simp_all add: db_run_reliable [OF ok(2)] update_alert_def time_Now_def case_prod_beta
        update_returning_def split: list.split)
  have "alerting_ok (with_alerts (map ?f (alerts s)) s)"
    by (rule alerting_ok_map [OF ok(1)]) (use f P in \<open>auto split: if_splits\<close>)
  then have "alerting_ok ?t"
    using rows alerting_ok_same [of ?t "with_alerts (map ?f (alerts s)) s"] alerting_ok_same [of ?t s] rest ok(1)
    by auto
  moreover have "evolves (alerts s) (alerts ?t)"
    using rows evolves_map [of "alerts s" ?f] fwd by auto
  ultimately show ?thesis using rest ok(2) by (simp add: keeps_alerts_def calm_def reliable_def)
qed

lemma acknowledge_keeps_alerts: "calm s \<Longrightarrow> keeps_alerts s (snd (alert_AcknowledgeAlert i u c s))"
  unfolding alert_AcknowledgeAlert_def
  by (rule update_alert_calm) (auto simp: active_status_def forward_acknowledge)

lemma resolve_keeps_alerts: "calm s \<Longrightarrow> keeps_alerts s (snd (alert_ResolveAlert i v s))"
  unfolding alert_ResolveAlert_def by (rule update_alert_calm) (auto simp: forward_resolve)

lemma rules_keep_alerts:
  assumes "calm s"
  shows "keeps_alerts s (snd (alert_CreateRule r s))" and "keeps_alerts s (snd (alert_UpdateRule r s))"
proof -
  have ok: "alerting_ok s" "reliable s" using assms by (simp_all add: calm_def)
  have calm: "calm t" if "alerts t = alerts s" "faults t = faults s" "distinct (map ru_ID (alert_rules t))"
      "ru_ID ` set (alert_rules s) \<subseteq> ru_ID ` set (alert_rules t)" for t
    using ok that active_rows_alerts [OF that(1)] subset_trans [OF _ that(4)]
    by (simp add: calm_def alerting_ok_def reliable_def)
  show "keeps_alerts s (snd (alert_CreateRule r s))"
    unfolding keeps_alerts_def
    by (rule conjI, rule calm)
      (use ok(1) in \<open>auto simp: alert_CreateRule_def db_run_reliable [OF ok(2)] insert_rule_def time_Now_def Let_def
        alerting_ok_def\<close>)
  let ?f = "\<lambda>old. (default_severity r)\<lparr>ru_ID := ru_ID old, ru_CreatedAt := ru_CreatedAt old,
    ru_UpdatedAt := clock s (clock_pos s)\<rparr>"
  let ?rows = "snd (update_returning (\<lambda>old. ru_ID old = ru_ID (default_severity r)) ?f (alert_rules s))"
  have upd: "map ru_ID ?rows = map ru_ID (alert_rules s)" by (rule update_returning_keys) simp
  have img: "ru_ID ` set ?rows = ru_ID ` set (alert_rules s)" by (rule update_returning_image) simp
  have run: "alerts (snd (alert_UpdateRule r s)) = alerts s" "faults (snd (alert_UpdateRule r s)) = faults s"
    "alert_rules (snd (alert_UpdateRule r s)) = ?rows \<or> alert_rules (snd (alert_UpdateRule r s)) = alert_rules s"
    by (simp_all add: alert_UpdateRule_def db_run_reliable [OF ok(2)] update_rule_def time_Now_def case_prod_beta)
  have "calm (snd (alert_UpdateRule r s))"
    by (rule calm) (use run upd img ok(1) in \<open>auto simp: alerting_ok_def\<close>)
  then show "keeps_alerts s (snd (alert_UpdateRule r s))" by (simp add: keeps_alerts_def run(1))
qed

lemma delete_rule_calm:
  assumes "calm s"
  shows "calm (snd (alert_DeleteRule i s)) \<and>
    alerts (snd (alert_DeleteRule i s)) = filter (\<lambda>a. ar_rule_id a \<noteq> i) (alerts s)"
proof -
  have ok: "alerting_ok s" "reliable s" using assms by (simp_all add: calm_def)
  let ?t = "snd (alert_DeleteRule i s)"
  have run: "alerts ?t = filter (\<lambda>a. ar_rule_id a \<noteq> i) (alerts s)"
      "alert_rules ?t = filter (\<lambda>r. ru_ID r \<noteq> i) (alert_rules s)" "faults ?t = faults s"
    by (simp_all add: alert_DeleteRule_def db_run_reliable [OF ok(2)] delete_rule_def delete_alerts_def Let_def)
  have "active_rows r a ?t = filter (\<lambda>y. ar_rule_id y \<noteq> i) (active_rows r a s)" for r a
    by (simp add: active_rows_def run(1) conj_commute)
  then have "length (active_rows r a ?t) \<le> length (active_rows r a s)" for r a by simp
  then have "length (active_rows r a ?t) \<le> 1" for r a
    using ok(1) unfolding alerting_ok_def by (meson le_trans)
  then have "alerting_ok ?t"
    using ok(1) run(1,2) by (auto simp: alerting_ok_def distinct_filter_key)
  then show ?thesis using run(1,3) ok(2) by (simp add: calm_def reliable_def)
qed

lemma alert_step_keeps:
  assumes "alert_step g s t" and "calm s"
  shows "calm t \<and> (evolves (alerts s) (alerts t) \<or> (\<exists>i. alerts t = filter (\<lambda>a. ar_rule_id a \<noteq> i) (alerts s)))"
  using assms
proof (induction rule: alert_step.induct)
  case (telemetry s t)
  then have "keeps_alerts s (EvaluateTelemetry g t s)" by (rule evaluations_keep_alerts(1))
  then show ?case by (simp add: keeps_alerts_def)
next
  case (offline s a b)
  then have "keeps_alerts s (EvaluateAgentOffline g a b s)" by (rule evaluations_keep_alerts(2))
  then show ?case by (simp add: keeps_alerts_def)
next
  case (acknowledge s i u c)
  then have "keeps_alerts s (snd (alert_AcknowledgeAlert i u c s))" by (rule acknowledge_keeps_alerts)
  then show ?case by (simp add: keeps_alerts_def)
next
  case (resolve s i v)
  then have "keeps_alerts s (snd (alert_ResolveAlert i v s))" by (rule resolve_keeps_alerts)
  then show ?case by (simp add: keeps_alerts_def)
next
  case (create_rule s r)
  then have "keeps_alerts s (snd (alert_CreateRule r s))" by (rule rules_keep_alerts(1))
  then show ?case by (simp add: keeps_alerts_def)
next
  case (update_rule s r)
  then have "keeps_alerts s (snd (alert_UpdateRule r s))" by (rule rules_keep_alerts(2))
  then show ?case by (simp add: keeps_alerts_def)
next
  case (delete_rule s i)
  then show ?case using delete_rule_calm [of s i] by blast
next
  case (elsewhere t s)
  then show ?case using calm_same [of t s] by simp
qed

interpretation alert_machine: invariant_system calm "alert_step g" calm for g
  by unfold_locales (auto dest: alert_step_keeps)

section \<open>A server with one rule and one agent\<close>

definition demo_rule :: AlertRule where
  "demo_rule = \<lparr>ru_ID = ''rule-cpu-high'', ru_Name = ''High CPU'', ru_Metric = ''cpu_usage'',
     ru_Operator = ''>'', ru_Threshold = Fin 80, ru_DurationSeconds = 300, ru_ForDurationSeconds = 0,
     ru_CooldownSeconds = 0, ru_Severity = ''warning'', ru_Enabled = True, ru_CreatedAt = 0, ru_UpdatedAt = 0\<rparr>"

definition demo_agent :: Agent where
  "demo_agent = \<lparr>ag_ID = ''a1'', ag_Name = ''web'', ag_Hostname = ''h'', ag_OS = ''linux'', ag_Arch = ''amd64'',
     ag_Version = ''1'', ag_Status = ''online'', ag_LastSeen = 0, ag_CreatedAt = 0\<rparr>"

definition engine_start :: "(nat \<Rightarrow> fault) \<Rightarrow> engine_env" where
  "engine_start fs = \<lparr>clock = int, clock_pos = 0, faults = fs, fault_pos = 0,
     agents = [demo_agent], telemetry = [], alert_rules = [demo_rule], alerts = [], alert_comments = [],
     notification_channels = [], notification_deliveries = [], api_tokens = [], telemetry_hourly = [],
     hub = NewHub, net = (\<lambda>_. Net_status 200), net_pos = 0, net_log = [],
     queue = NewQueue 4 256 3 (10 * time_Second), queue_panic = False, sleeps = [], sustained = (\<lambda>_. None)\<rparr>"

definition demo_cpu :: "rat \<Rightarrow> AgentTelemetry" where
  "demo_cpu q = \<lparr>at_AgentID = ''a1'', at_Timestamp = 0,
     at_Metrics = Some [(''system'', GMap [(''cpu'', GMap [(''usage_percent'', GFloat64 (Fin q))])])]\<rparr>"

definition both :: Engine where
  "both = \<lparr>eg_hub = True, eg_queue = True\<rparr>"

lemma engine_start_calm: "calm (engine_start (\<lambda>_. F_ok))"
  by (simp add: calm_def reliable_def engine_start_def alerting_ok_def active_rows_def)

lemma engine_start_inv: "tracker_inv {} (engine_start (\<lambda>_. F_ok))"
  using engine_start_calm by (simp add: tracker_inv_def calm_def ids_ok_def engine_start_def)

text \<open>A clock that counts gives distinct ids, for a long time.\<close>

lemma fresh_clock_int:
  assumes "clock s = int" and "clock_pos s \<le> 1000"
  shows "fresh_clock {} s"
proof -
  have "inj_on (\<lambda>p. alert_id (clock s p)) {..<clock_pos s}"
  proof (rule inj_onI)
    fix p q
    assume "p \<in> {..<clock_pos s}" "q \<in> {..<clock_pos s}" and eq: "alert_id (clock s p) = alert_id (clock s q)"
    then have "UnixNano (int p) = int p" "UnixNano (int q) = int q"
      using assms(2) by (simp_all add: UnixNano_def int64_wrap_id)
    then show "p = q" using eq show_int_inj [of "int p" "int q"] by (simp add: alert_id_def assms(1))
  qed
  then show ?thesis by (simp add: fresh_clock_def)
qed

definition demo_fired :: engine_env where
  "demo_fired = EvaluateTelemetry both (demo_cpu 95) (engine_start (\<lambda>_. F_ok))"

lemma demo_fired_facts:
  "map (\<lambda>a. (ar_id a, ar_status a)) (alerts demo_fired) = [(''alert-1'', ''firing'')]"
  "clock_pos demo_fired = 6"
  "map ar_message (alerts demo_fired) = [''[warning] High CPU: 95.0 > 80.0'']"
  by code_simp+

lemma demo_reach: "(alert_step both)\<^sup>*\<^sup>* (engine_start (\<lambda>_. F_ok)) demo_fired"
  unfolding demo_fired_def by (intro r_into_rtranclp alert_step.telemetry)

section \<open>Properties\<close>

text \<open>
  At most one alert is active.  However evaluations, acknowledgements, resolutions and changes
  of the rules follow one another, with a working database, no rule ever has two alerts that are
  firing or acknowledged for the same agent.
\<close>

theorem one_active_alert:
  assumes "calm s0" and "(alert_step g)\<^sup>*\<^sup>* s0 s"
  shows "length (active_rows ruleID agentID s) \<le> 1"
  using alert_machine.reachable_inv [OF assms] by (simp add: calm_def alerting_ok_def)

theorem one_active_alert_witness:
  "length (active_rows ''rule-cpu-high'' ''a1'' demo_fired) \<le> 1"
  by (rule one_active_alert [OF engine_start_calm demo_reach])

text \<open>
  Alerts only move forward.  In any one step of the system an existing alert is kept as it is,
  moves forward from firing to acknowledged or resolved or from acknowledged to resolved (with its
  rule, agent, start and message unchanged), or is deleted together with its rule; a resolved alert
  never changes.
\<close>

theorem alert_moves_forward:
  assumes "calm s0" and "(alert_step g)\<^sup>*\<^sup>* s0 s" and "alert_step g s t" and "a \<in> set (alerts s)"
  shows "(\<exists>b \<in> set (alerts t). forward a b) \<or>
         (\<exists>i. ar_rule_id a = i \<and> alerts t = filter (\<lambda>a. ar_rule_id a \<noteq> i) (alerts s))"
proof -
  have "calm s" by (rule alert_machine.reachable_inv [OF assms(1,2)])
  from alert_step_keeps [OF assms(3) this] consider
      "evolves (alerts s) (alerts t)" | i where "alerts t = filter (\<lambda>a. ar_rule_id a \<noteq> i) (alerts s)"
    by blast
  then show ?thesis
  proof cases
    case 1
    then show ?thesis using assms(4) by (auto simp: evolves_def)
  next
    case (2 i)
    then show ?thesis using assms(4) forward_refl [of a] by (cases "ar_rule_id a = i") auto
  qed
qed

definition demo_acked :: engine_env where
  "demo_acked = snd (alert_AcknowledgeAlert ''alert-1'' ''ann'' ''on it'' demo_fired)"

theorem alert_moves_forward_witness:
  "\<exists>b \<in> set (alerts demo_acked). forward (hd (alerts demo_fired)) b \<and> ar_status b = ''acknowledged''"
proof -
  have step: "alert_step both demo_fired demo_acked"
    unfolding demo_acked_def by (rule alert_step.acknowledge)
  have ne: "alerts demo_fired \<noteq> []" using demo_fired_facts(1) by auto
  have acked: "map ar_status (alerts demo_acked) = [''acknowledged'']" by code_simp
  then have "ar_status ` set (alerts demo_acked) = {''acknowledged''}"
    by (metis list.set_map list.simps(15) set_empty2)
  then have "\<forall>b \<in> set (alerts demo_acked). ar_status b = ''acknowledged''" by blast
  moreover have "filter (\<lambda>a. ar_rule_id a \<noteq> ar_rule_id (hd (alerts demo_fired))) (alerts demo_fired) = []"
    using demo_fired_facts(1) by (cases "alerts demo_fired") auto
  ultimately show ?thesis
    using alert_moves_forward [OF engine_start_calm demo_reach step, of "hd (alerts demo_fired)"] ne acked by auto
qed

text \<open>
  C6: The active alerts follow the reports.  After any sequence of reports (rule, agent, holds?) a
  rule is alerting for an agent exactly when the last report on the pair said that its condition
  holds, and as before when there was none; \<open>processAlertState\<close> thus implements the plain map
  from pairs to the last report, as long as the database works, the rules and agents exist and the
  clock gives distinct ids.
\<close>

theorem alerts_follow_reports:
  assumes "tracker_inv old s" and "\<forall>k \<in> set ks. known_pair (fst (fst k)) (snd (fst k)) s"
    and "t = fold (\<lambda>((r, a), b). processAlertState g ((rl r)\<lparr>ru_ID := r\<rparr>) a (vl (r, a)) b) ks s"
    and "fresh_clock old t"
  shows "(active_rows r a t \<noteq> []) =
           (case map_of (rev ks) (r, a) of Some b \<Rightarrow> b | None \<Rightarrow> active_rows r a s \<noteq> [])"
proof -
  have fold: "alert_tracker.reports g rl vl ks s = t"
    unfolding alert_tracker.reports_def assms(3)
    by (rule arg_cong [where f = "\<lambda>f. fold f ks s"]) auto
  show ?thesis
    using alert_tracker.last_report_decides [OF assms(1), of g rl vl ks "(r, a)"] assms(2,4)
    unfolding fold by fastforce
qed

theorem alerts_follow_reports_witness:
  "active_rows ''rule-cpu-high'' ''a1''
     (processAlertState both demo_rule ''a1'' (Fin 95) True (engine_start (\<lambda>_. F_ok))) \<noteq> []"
proof -
  let ?s = "engine_start (\<lambda>_. F_ok)"
  let ?t = "processAlertState both demo_rule ''a1'' (Fin 95) True ?s"
  have "clock_pos ?t \<le> 1000" by code_simp
  moreover have "clock ?t = int"
    using alerts_only_fields(3) [OF processAlertState_alerts_only [of ?s both demo_rule "''a1''" "Fin 95" True]]
    by (simp add: engine_start_def)
  ultimately have "fresh_clock {} ?t" by (intro fresh_clock_int)
  moreover have "demo_rule\<lparr>ru_ID := ''rule-cpu-high''\<rparr> = demo_rule" by (simp add: demo_rule_def)
  moreover have "known_pair ''rule-cpu-high'' ''a1'' ?s"
    by (simp add: known_pair_def engine_start_def demo_rule_def demo_agent_def)
  ultimately show ?thesis
    using alerts_follow_reports [OF engine_start_inv, of "[((''rule-cpu-high'', ''a1''), True)]" ?t both
        "\<lambda>_. demo_rule" "\<lambda>_. Fin 95" "''rule-cpu-high''" "''a1''"]
    by simp
qed

end
