(* ===== verification/Alert_Properties.thy ===== *)
theory Alert_Properties
  imports Alert_System
begin

text \<open>
  What one telemetry report does to every rule, how the duration condition follows the samples, and
  what goes wrong when the lookup of the active alert fails or two evaluations overlap.
\<close>

section \<open>A report on every rule\<close>

lemma ListRules_reliable:
  "reliable s \<Longrightarrow> alert_ListRules s = (Inr (sort_key ru_CreatedAt (alert_rules s)), s\<lparr>fault_pos := Suc (fault_pos s)\<rparr>)"
  by (simp add: alert_ListRules_def db_Query_reliable)

lemma tracker_inv_fault [simp]: "tracker_inv old (s\<lparr>fault_pos := n\<rparr>) = tracker_inv old s"
  by (simp add: tracker_inv_def reliable_def alerting_ok_def ids_ok_def)

lemma EvaluateTelemetry_run:
  assumes "reliable s" and "system_metrics t = Some system"
  shows "EvaluateTelemetry g t s =
    fold (evaluate_rule g system (at_AgentID t)) (sort_key ru_CreatedAt (alert_rules s))
      (s\<lparr>fault_pos := Suc (fault_pos s)\<rparr>)"
  using assms by (simp add: EvaluateTelemetry_def ListRules_reliable)

text \<open>
  C14: One telemetry report decides every rule, exactly.  After \<open>EvaluateTelemetry\<close>, with a working
  database, clock ids that did not collide and a known agent, each rule of the table stands for the
  reporting agent as its verdict says.  A disabled rule or one whose metric is missing stands as
  before.  A rule whose condition fails has no active alert and its run has ended.  A rule whose
  condition holds goes on with the run it is in, or starts one at an instant read during the report,
  and its alert is active afterwards exactly when it was before, or the rule has no positive
  duration, or the next instant read is at least the duration after the start of the run.  The
  alerts of every other agent and every other rule, and every other run, are as before.
\<close>

theorem evaluate_telemetry_outcome:
  assumes "tracker_inv old s" and "rules_int4 s" and "at_AgentID t \<in> ag_ID ` set (agents s)"
    and "system_metrics t = Some system" and "fresh_clock old (EvaluateTelemetry g t s)"
  shows "(\<forall>r \<in> set (alert_rules s).
            outcome_ok (clock s) (clock_pos s) (clock_pos (EvaluateTelemetry g t s)) r (verdict system r)
              (standing r (at_AgentID t) s) (standing r (at_AgentID t) (EvaluateTelemetry g t s))) \<and>
         (\<forall>r a. a \<noteq> at_AgentID t \<or> r \<notin> ru_ID ` set (alert_rules s) \<longrightarrow>
            (active_rows r a (EvaluateTelemetry g t s) \<noteq> []) = (active_rows r a s \<noteq> [])) \<and>
         (\<forall>key. key \<notin> (\<lambda>r. sustained_key (ru_ID r) (at_AgentID t)) ` set (alert_rules s) \<longrightarrow>
            sustained (EvaluateTelemetry g t s) key = sustained s key)"
proof -
  let ?rules = "sort_key ru_CreatedAt (alert_rules s)"
  let ?s1 = "s\<lparr>fault_pos := Suc (fault_pos s)\<rparr>"
  have rel: "reliable s" and ok: "alerting_ok s" using assms(1) by (simp_all add: tracker_inv_def)
  note run = EvaluateTelemetry_run [OF rel assms(4), of g]
  have "distinct (map ru_ID (alert_rules s))" using ok by (simp add: alerting_ok_def)
  then have "distinct (map ru_ID ?rules)"
    by (metis distinct_map distinct_sort set_sort)
  moreover have "\<forall>r \<in> set ?rules. known_pair (ru_ID r) (at_AgentID t) ?s1 \<and> int4 (ru_ForDurationSeconds r)"
    using assms(2,3) by (simp add: known_pair_def rules_int4_def)
  ultimately show ?thesis
    using evaluate_rules_track [of old ?s1 g system "at_AgentID t" ?rules] assms(1,5)
    by (simp add: run standing_def)
qed

theorem evaluate_telemetry_outcome_witness:
  "active_rows ''rule-cpu-high'' ''a1'' (EvaluateTelemetry both (demo_cpu 95) (engine_start (\<lambda>_. F_ok))) \<noteq> []"
proof -
  let ?s = "engine_start (\<lambda>_. F_ok)"
  let ?sys = "[(''cpu'', GMap [(''usage_percent'', GFloat64 (Fin 95))])]"
  have "system_metrics (demo_cpu 95) = Some ?sys" by code_simp
  moreover have "rules_int4 ?s" by (simp add: rules_int4_def engine_start_def demo_rule_def int4_def)
  moreover have "at_AgentID (demo_cpu 95) \<in> ag_ID ` set (agents ?s)"
    by (simp add: demo_cpu_def engine_start_def demo_agent_def)
  moreover have clk: "clock demo_fired = int"
  proof -
    have "clock demo_fired = clock ?s"
      using evaluate_rules_keep [of "sort_key ru_CreatedAt (alert_rules ?s)" "{}" "?s\<lparr>fault_pos := 1\<rparr>" both ?sys "''a1''"]
        EvaluateTelemetry_run [of ?s "demo_cpu 95" ?sys both] calculation(1,2) engine_start_calm
      by (simp add: demo_fired_def rules_int4_def calm_def, simp add: demo_cpu_def engine_start_def)
    then show ?thesis by (simp add: engine_start_def)
  qed
  moreover have "fresh_clock {} demo_fired"
    by (rule fresh_clock_int [OF clk]) (simp add: demo_fired_facts(2))
  ultimately have "\<forall>r \<in> set (alert_rules ?s). outcome_ok (clock ?s) (clock_pos ?s)
      (clock_pos (EvaluateTelemetry both (demo_cpu 95) ?s)) r (verdict ?sys r)
      (standing r (at_AgentID (demo_cpu 95)) ?s)
      (standing r (at_AgentID (demo_cpu 95)) (EvaluateTelemetry both (demo_cpu 95) ?s))"
    using evaluate_telemetry_outcome [OF engine_start_inv, of "demo_cpu 95" ?sys both]
    unfolding demo_fired_def by blast
  moreover have "demo_rule \<in> set (alert_rules ?s)" by (simp add: engine_start_def)
  ultimately have "outcome_ok (clock ?s) (clock_pos ?s) (clock_pos (EvaluateTelemetry both (demo_cpu 95) ?s))
      demo_rule (verdict ?sys demo_rule) (standing demo_rule (at_AgentID (demo_cpu 95)) ?s)
      (standing demo_rule (at_AgentID (demo_cpu 95)) (EvaluateTelemetry both (demo_cpu 95) ?s))"
    by (rule bspec)
  moreover have "verdict ?sys demo_rule = Some True" by code_simp
  ultimately show ?thesis by (auto simp: outcome_ok_def standing_def demo_rule_def demo_cpu_def Let_def)
qed

section \<open>The duration condition\<close>

definition samples ::
  "Engine \<Rightarrow> AlertRule \<Rightarrow> string \<Rightarrow> (float64 \<times> bool) list \<Rightarrow> 'a engine_env_scheme \<Rightarrow> 'a engine_env_scheme"
where
  "samples g rule a hs s = fold (\<lambda>(v, b). processSustainedAndState g rule a v b) hs s"

text \<open>The number of samples before the trailing run of samples that hold.\<close>

definition run_start :: "(float64 \<times> bool) list \<Rightarrow> nat" where
  "run_start hs = length (dropWhile snd (rev hs))"

lemma samples_snoc: "samples g rule a (hs @ [(v, b)]) s = processSustainedAndState g rule a v b (samples g rule a hs s)"
  by (simp add: samples_def)

lemma run_start_snoc: "run_start (hs @ [(v, b)]) = (if b then run_start hs else Suc (length hs))"
  by (simp add: run_start_def)

lemma run_start_le: "run_start hs \<le> length hs"
  by (simp add: run_start_def length_dropWhile_le [of snd "rev hs", simplified])

lemma samples_clock:
  "int4 (ru_ForDurationSeconds rule) \<Longrightarrow> clock (samples g rule a hs s) = clock s"
  by (induction hs rule: rev_induct)
    (auto simp: samples_snoc processSustained_keeps(2), simp add: samples_def)

text \<open>
  The clock of a rule starts with the run of samples that hold.  After any samples of one rule
  on one agent, \<open>sustained\<close> holds no instant when the last sample did not hold; otherwise the
  instant the engine read at the first sample of the trailing run of samples that held (or the one
  it had before, when the run covers them all).
\<close>

theorem sustained_follows_run:
  assumes "int4 (ru_ForDurationSeconds rule)" and "hs \<noteq> []"
  shows "sustained (samples g rule a hs s) (sustained_key (ru_ID rule) a) =
     (if run_start hs = length hs then None
      else if run_start hs = 0 \<and> sustained s (sustained_key (ru_ID rule) a) \<noteq> None
      then sustained s (sustained_key (ru_ID rule) a)
      else Some (clock s (clock_pos (samples g rule a (take (run_start hs) hs) s))))"
  using assms(2)
proof (induction hs rule: rev_induct)
  case Nil
  then show ?case by simp
next
  case (snoc h hs)
  obtain v b where h: "h = (v, b)" by fastforce
  note step = processSustained_sustained [OF assms(1), of g a v b "samples g rule a hs s"]
  show ?case
  proof (cases b)
    case False
    then have "sustained (samples g rule a (hs @ [h]) s) (sustained_key (ru_ID rule) a) = None"
      unfolding h samples_snoc step by simp
    then show ?thesis using False by (simp add: h run_start_snoc)
  next
    case True
    have take: "take (run_start hs) (hs @ [h]) = take (run_start hs) hs"
      using run_start_le [of hs] by simp
    show ?thesis
    proof (cases "hs = []")
      case empty: True
      then show ?thesis
        using True by (auto simp: h samples_def run_start_def first_seen_def processSustained_sustained [OF assms(1)]
            split: option.split)
    next
      case False
      have le: "run_start hs \<noteq> Suc (length hs)" using run_start_le [of hs] by simp
      have "sustained (samples g rule a (hs @ [h]) s) (sustained_key (ru_ID rule) a) =
          Some (first_seen rule a (samples g rule a hs s))"
        unfolding h samples_snoc step using True by simp
      then show ?thesis
        using snoc.IH [OF False] False True le take samples_clock [OF assms(1), of g a hs s]
        by (auto simp: h run_start_snoc first_seen_def split: option.split if_splits)
    qed
  qed
qed

theorem sustained_follows_run_witness:
  "sustained (samples both demo_rule ''a1'' [(Fin 95, False), (Fin 95, True), (Fin 96, True)]
      (engine_start (\<lambda>_. F_ok))) (sustained_key ''rule-cpu-high'' ''a1'') =
   Some (int (clock_pos (samples both demo_rule ''a1'' [(Fin 95, False)] (engine_start (\<lambda>_. F_ok)))))"
  using sustained_follows_run [of demo_rule "[(Fin 95, False), (Fin 95, True), (Fin 96, True)]" both "''a1''"
      "engine_start (\<lambda>_. F_ok)"]
  by (simp add: demo_rule_def int4_def run_start_def engine_start_def)

text \<open>
  What the duration condition looks at, read off the samples alone: whether the trailing run of
  samples that hold started within them, the instant the engine read at its first sample (or the one
  it had before them), and the instant it reads at sample \<open>i\<close>.
\<close>

definition run_is_new :: "(float64 \<times> bool) list \<Rightarrow> time option \<Rightarrow> bool" where
  "run_is_new hs since \<longleftrightarrow> run_start hs \<noteq> 0 \<or> since = None"

definition run_instant ::
  "Engine \<Rightarrow> AlertRule \<Rightarrow> string \<Rightarrow> (float64 \<times> bool) list \<Rightarrow> 'a engine_env_scheme \<Rightarrow> time"
where
  "run_instant g rule a hs s =
     (let since = sustained s (sustained_key (ru_ID rule) a)
      in if run_is_new hs since then clock s (clock_pos (samples g rule a (take (run_start hs) hs) s))
         else the since)"

definition sample_instant ::
  "Engine \<Rightarrow> AlertRule \<Rightarrow> string \<Rightarrow> (float64 \<times> bool) list \<Rightarrow> nat \<Rightarrow> 'a engine_env_scheme \<Rightarrow> time"
where
  "sample_instant g rule a hs i s =
     clock s (clock_pos (samples g rule a (take i hs) s) +
       (if i = run_start hs \<and> run_is_new hs (sustained s (sustained_key (ru_ID rule) a)) then 1 else 0))"

definition long_enough ::
  "Engine \<Rightarrow> AlertRule \<Rightarrow> string \<Rightarrow> (float64 \<times> bool) list \<Rightarrow> nat \<Rightarrow> 'a engine_env_scheme \<Rightarrow> bool"
where
  "long_enough g rule a hs i s \<longleftrightarrow>
     ru_ForDurationSeconds rule \<le> 0 \<or>
     ru_ForDurationSeconds rule * 1000000000 \<le> sample_instant g rule a hs i s - run_instant g rule a hs s"

lemma samples_keep:
  assumes "int4 (ru_ForDurationSeconds rule)"
  shows "(tracker_inv old s \<longrightarrow> tracker_inv old (samples g rule a hs s)) \<and>
    known_pair r b (samples g rule a hs s) = known_pair r b s"
proof (induction hs rule: rev_induct)
  case Nil
  then show ?case by (simp add: samples_def)
next
  case (snoc h hs)
  obtain v b' where h: "h = (v, b')" by fastforce
  show ?case
    unfolding h samples_snoc using snoc processSustained_keeps [OF assms, where s = "samples g rule a hs s"]
    by (simp add: known_pair_def)
qed

lemma held_long_enough_run:
  assumes "int4 (ru_ForDurationSeconds rule)"
  shows "held_long_enough rule a (samples g rule a hs s) = long_enough g rule a (hs @ [(v, True)]) (length hs) s"
proof -
  let ?u = "samples g rule a hs s"
  let ?key = "sustained_key (ru_ID rule) a"
  have take: "take (run_start hs) (hs @ [(v, True)]) = take (run_start hs) hs"
    using run_start_le [of hs] by simp
  have "first_seen rule a ?u = run_instant g rule a (hs @ [(v, True)]) s \<and>
      since_reading rule a ?u = sample_instant g rule a (hs @ [(v, True)]) (length hs) s"
  proof (cases "hs = []")
    case True
    then show ?thesis
      by (auto simp: samples_def first_seen_def since_reading_def run_instant_def sample_instant_def run_is_new_def
          run_start_def Let_def split: option.split)
  next
    case False
    show ?thesis
      using sustained_follows_run [OF assms False, of g a s] samples_clock [OF assms, of g a hs s] False take
      by (auto simp: first_seen_def since_reading_def run_instant_def sample_instant_def run_is_new_def run_start_snoc
          Let_def split: option.split if_splits)
  qed
  then show ?thesis by (simp add: held_long_enough_def long_enough_def)
qed

lemma long_enough_snoc:
  assumes "i < length hs"
  shows "long_enough g rule a (hs @ [(v, True)]) i s = long_enough g rule a hs i s"
  using assms run_start_le [of hs]
  by (simp add: long_enough_def sample_instant_def run_instant_def run_is_new_def run_start_snoc Let_def)

text \<open>
  C23: A run of samples fires its alert exactly when it has lasted long enough.  After any samples of
  a rule on an agent, with a working database and clock ids that did not collide, the alert is active
  exactly when some sample of the trailing run of samples that held was read at least the duration
  after the first sample of that run (any sample of the run will do when the duration is not
  positive), or all the samples held and the alert was active before them.  A sample that does not
  hold ends the run, so the next run starts from its own first sample.  The comparison is exact for
  every duration of 32 bits: the product with a second does not overflow, and the saturation of Sub
  does not matter.
\<close>

theorem sustained_decision:
  assumes "tracker_inv old s" and "known_pair (ru_ID rule) a s" and "int4 (ru_ForDurationSeconds rule)"
    and "fresh_clock old (samples g rule a hs s)"
  shows "active_rows (ru_ID rule) a (samples g rule a hs s) \<noteq> [] \<longleftrightarrow>
     run_start hs = 0 \<and> active_rows (ru_ID rule) a s \<noteq> [] \<or>
     (\<exists>i. run_start hs \<le> i \<and> i < length hs \<and> long_enough g rule a hs i s)"
  using assms(4)
proof (induction hs rule: rev_induct)
  case Nil
  then show ?case by (simp add: samples_def run_start_def)
next
  case (snoc h hs)
  obtain v b where h: "h = (v, b)" by fastforce
  let ?u = "samples g rule a hs s"
  note keep = samples_keep [OF assms(3), of old s g a hs "ru_ID rule" a]
  have fresh: "fresh_clock old (processSustainedAndState g rule a v b ?u)"
    using snoc.prems unfolding h samples_snoc .
  have "fresh_clock old ?u"
    by (rule fresh_clock_back [OF _ _ fresh]) (simp_all add: processSustained_keeps [OF assms(3)])
  note IH = snoc.IH [OF this]
  have step: "active_rows (ru_ID rule) a (samples g rule a (hs @ [h]) s) \<noteq> [] \<longleftrightarrow>
      b \<and> (held_long_enough rule a ?u \<or> active_rows (ru_ID rule) a ?u \<noteq> [])"
    using processSustained_tracks [OF _ fresh _ assms(3), of "ru_ID rule" a] keep assms(1,2)
    unfolding h samples_snoc by simp
  show ?case
  proof (cases b)
    case False
    then show ?thesis unfolding step by (simp add: h run_start_snoc)
  next
    case True
    have "(\<exists>i. run_start hs \<le> i \<and> i < Suc (length hs) \<and> long_enough g rule a (hs @ [h]) i s) \<longleftrightarrow>
        long_enough g rule a (hs @ [h]) (length hs) s \<or>
        (\<exists>i. run_start hs \<le> i \<and> i < length hs \<and> long_enough g rule a (hs @ [h]) i s)"
      using run_start_le [of hs] by (auto simp: less_Suc_eq)
    then show ?thesis
      unfolding step IH using True held_long_enough_run [OF assms(3), of a g hs s v] long_enough_snoc [of _ hs g rule a v s]
      by (auto simp: h run_start_snoc)
  qed
qed

definition slow_rule :: AlertRule where
  "slow_rule = demo_rule\<lparr>ru_ForDurationSeconds := 300\<rparr>"

text \<open>A clock that moves by 200 seconds from reading to reading, and a rule of 300 seconds.\<close>

definition slow_clock :: "nat \<Rightarrow> time" where
  "slow_clock n = 200000000000 * int n"

definition slow_start :: engine_env where
  "slow_start = (engine_start (\<lambda>_. F_ok))\<lparr>clock := slow_clock\<rparr>"

lemma slow_start_simps:
  "clock slow_start = slow_clock" "clock_pos slow_start = 0" "alerts slow_start = []"
  "known_pair ''rule-cpu-high'' ''a1'' slow_start" "tracker_inv {} slow_start"
  using engine_start_inv
  by (simp_all add: slow_start_def tracker_inv_def reliable_def alerting_ok_def active_rows_def ids_ok_def known_pair_def)
    (simp_all add: engine_start_def demo_rule_def demo_agent_def)

lemma slow_start_fresh:
  assumes "clock s = clock slow_start" and "clock_pos s \<le> 1000"
  shows "fresh_clock {} s"
proof -
  have "inj_on (\<lambda>p. alert_id (clock s p)) {..<clock_pos s}"
  proof (rule inj_onI)
    fix p q
    assume pq: "p \<in> {..<clock_pos s}" "q \<in> {..<clock_pos s}" "alert_id (clock s p) = alert_id (clock s q)"
    then have "UnixNano (clock s p) = clock s p" "UnixNano (clock s q) = clock s q"
      using assms(2) by (simp_all add: UnixNano_def int64_wrap_id assms(1) slow_start_simps slow_clock_def)
    then show "p = q"
      using pq(3) show_int_inj [of "clock s p" "clock s q"] by (simp add: alert_id_def assms(1) slow_start_simps slow_clock_def)
  qed
  then show ?thesis by (simp add: fresh_clock_def)
qed

lemma processSustained_quiet:
  assumes "tracker_inv old s" and "active_rows (ru_ID rule) a s = []"
  shows "processSustainedAndState g rule a val False s =
    (noted (sustained_key (ru_ID rule) a) None 0 s)\<lparr>fault_pos := Suc (fault_pos s)\<rparr>"
proof -
  let ?s = "s\<lparr>sustained := (sustained s)(sustained_key (ru_ID rule) a := None)\<rparr>"
  have "reliable ?s" "alerting_ok ?s"
    using assms(1) alerting_ok_same [of ?s s] by (simp_all add: tracker_inv_def reliable_def)
  then show ?thesis
  proof (cases rule: GetActiveAlert_reliable [where r = "ru_ID rule" and a = a])
    case none
    then show ?thesis by (simp add: processSustainedAndState_def processAlertState_def noted_def)
  next
    case (some x al)
    moreover have "active_rows (ru_ID rule) a ?s = active_rows (ru_ID rule) a s" by (rule active_rows_alerts) simp
    ultimately show ?thesis using assms(2) by simp
  qed
qed

text \<open>
  The sample that fails makes the next run start over: 400 seconds after the first sample the third
  one does not fire, because its own run is only 200 seconds old.
\<close>

theorem sustained_decision_witness:
  "active_rows ''rule-cpu-high'' ''a1''
     (samples both slow_rule ''a1'' [(Fin 95, True), (Fin 5, False), (Fin 95, True)] slow_start) = []"
proof -
  let ?hs = "[(Fin 95, True), (Fin 5, False), (Fin 95, True)]"
  let ?key = "sustained_key (ru_ID slow_rule) ''a1''"
  have i4: "int4 (ru_ForDurationSeconds slow_rule)" by (simp add: slow_rule_def int4_def)
  have slow: "ru_ForDurationSeconds slow_rule = 300" "ru_ID slow_rule = ''rule-cpu-high''"
    by (simp_all add: slow_rule_def demo_rule_def)
  have start: "sustained slow_start = Map.empty" by (simp add: slow_start_def engine_start_def)
  have one: "processSustainedAndState both slow_rule ''a1'' (Fin 95) True s =
      noted ?key (Some (first_seen slow_rule ''a1'' s)) 2 s"
    if "clock s = slow_clock" "sustained s ?key = None" for s :: engine_env
    using i4
  proof (cases rule: processSustained_cases [where a = "''a1''" and s = s and b = True and g = both and val = "Fin 95"])
    case (waits n)
    then show ?thesis using that by (simp add: readings_def slow numeral_2_eq_2)
  next
    case (reports n)
    then show ?thesis
      using that by (simp add: held_long_enough_def since_reading_def first_seen_def slow slow_clock_def)
  next
    case clears
    then show ?thesis by simp
  qed
  let ?u = "noted ?key (Some (first_seen slow_rule ''a1'' slow_start)) 2 slow_start"
  have T: "samples both slow_rule ''a1'' [(Fin 95, True)] slow_start = ?u"
    by (simp add: samples_def one start slow_start_simps)
  have "active_rows (ru_ID slow_rule) ''a1'' ?u = []" "tracker_inv {} ?u"
    using noted_inv [OF slow_start_simps(5)] by (simp_all add: active_rows_def slow_start_simps)
  note F = processSustained_quiet [OF this(2,1), of both "Fin 5"]
  have TF: "samples both slow_rule ''a1'' [(Fin 95, True), (Fin 5, False)] slow_start =
      (noted ?key None 0 ?u)\<lparr>fault_pos := Suc (fault_pos ?u)\<rparr>"
    using T F by (simp add: samples_def)
  have TFT: "clock_pos (samples both slow_rule ''a1'' ?hs slow_start) = 4"
    using one [of "samples both slow_rule ''a1'' [(Fin 95, True), (Fin 5, False)] slow_start"] TF
    by (simp add: samples_def slow_start_simps)
  have fresh: "fresh_clock {} (samples both slow_rule ''a1'' ?hs slow_start)"
    using TFT by (intro slow_start_fresh) (simp_all add: samples_clock [OF i4])
  have "known_pair (ru_ID slow_rule) ''a1'' slow_start" using slow_start_simps(4) slow by simp
  note decide = sustained_decision [OF slow_start_simps(5) this i4 fresh]
  have rs: "run_start ?hs = 2" by (simp add: run_start_def)
  have "\<not> long_enough both slow_rule ''a1'' ?hs 2 slow_start"
    using TF by (simp add: long_enough_def run_instant_def sample_instant_def run_is_new_def rs slow slow_start_simps
        slow_clock_def)
  then have "\<not> (\<exists>i. run_start ?hs \<le> i \<and> i < length ?hs \<and> long_enough both slow_rule ''a1'' ?hs i slow_start)"
    unfolding rs by (auto simp: less_Suc_eq numeral_2_eq_2)
  then show ?thesis using decide unfolding rs slow by auto
qed

text \<open>
  The keys of the duration map collide.  The key joins the ids with a colon, so two different
  pairs of a rule and an agent can share it; for one agent, or when no id contains a colon, it does
  separate the rules.
\<close>

theorem sustained_keys_collide:
  "(\<exists>r1 a1 r2 a2. (r1, a1) \<noteq> (r2, a2) \<and> sustained_key r1 a1 = sustained_key r2 a2) \<and>
   (\<forall>r1 r2 a. sustained_key r1 a = sustained_key r2 a \<longrightarrow> r1 = r2)"
proof (intro conjI)
  have "sustained_key ''a'' ''b:c'' = sustained_key ''a:b'' ''c''" by (simp add: sustained_key_def)
  then show "\<exists>r1 a1 r2 a2. (r1, a1) \<noteq> (r2, a2) \<and> sustained_key r1 a1 = sustained_key r2 a2"
    by (intro exI [of _ "''a''"] exI [of _ "''b:c''"] exI [of _ "''a:b''"] exI [of _ "''c''"]) simp
qed (simp add: sustained_key_def)

theorem sustained_keys_collide_witness:
  "\<not> (sustained_key ''r1'' ''a:b'' = sustained_key ''r2'' ''a:b'')"
proof
  assume "sustained_key ''r1'' ''a:b'' = sustained_key ''r2'' ''a:b''"
  then have "''r1'' = ''r2''" using sustained_keys_collide by blast
  then show False by simp
qed
end
