(* ===== verification/Alert_Race.thy ===== *)
theory Alert_Race
  imports Alert_System
begin

text \<open>
  Evaluations that overlap.  The telemetry handler starts every evaluation in a goroutine of its
  own, and the engine's mutex covers the map \<open>sustained\<close> only: between the lookup of
  \<open>processAlertState\<close> and the statement that acts on it other evaluations run.  A report is a
  thread with these two steps, and the threads interleave freely.
\<close>

section \<open>A report in two steps\<close>

text \<open>What \<open>processAlertState\<close> does with the answer of \<open>GetActiveAlert\<close>.\<close>

definition act_on ::
  "Engine \<Rightarrow> AlertRule \<Rightarrow> string \<Rightarrow> float64 \<Rightarrow> bool \<Rightarrow> Alert option \<Rightarrow> 'a queue_env_scheme \<Rightarrow> 'a queue_env_scheme"
where
  "act_on g rule agentID val triggered activeAlert s1 =
     (if triggered then
        (case activeAlert of
           Some _ \<Rightarrow> s1
         | None \<Rightarrow>
             (case time_Now s1 of (now, s2) \<Rightarrow>
              case alert_CreateAlert (new_alert (alert_id now) rule agentID val) s2 of
                (Inl _, s3) \<Rightarrow> s3
              | (Inr created, s3) \<Rightarrow>
                  announce g EventAlertFiring EventAlertFiring_n agentID
                    (created\<lparr>al_RuleName := ru_Name rule, al_Severity := ru_Severity rule\<rparr>) s3))
      else
        (case activeAlert of
           None \<Rightarrow> s1
         | Some a \<Rightarrow>
             (case alert_ResolveAlert (al_ID a) val s1 of
                (Inl _, s2) \<Rightarrow> s2
              | (Inr resolved, s2) \<Rightarrow>
                  announce g EventAlertResolved EventAlertResolved_n agentID resolved s2)))"

datatype report_thread =
    Looking AlertRule string float64 bool
  | Acting AlertRule string float64 bool "Alert option"
  | Finished

type_synonym race = "report_thread list \<times> engine_env"

inductive race_step :: "Engine \<Rightarrow> race \<Rightarrow> race \<Rightarrow> bool" for g where
  look: "alert_GetActiveAlert (ru_ID rule) a s = (Inr found, s') \<Longrightarrow>
    race_step g (xs @ Looking rule a v b # ys, s) (xs @ Acting rule a v b found # ys, s')"
| fail: "alert_GetActiveAlert (ru_ID rule) a s = (Inl e, s') \<Longrightarrow>
    race_step g (xs @ Looking rule a v b # ys, s) (xs @ Finished # ys, s')"
| act: "race_step g (xs @ Acting rule a v b found # ys, s) (xs @ Finished # ys, act_on g rule a v b found s)"

lemma processAlertState_two_steps:
  "processAlertState g rule a val b s =
     (case alert_GetActiveAlert (ru_ID rule) a s of
        (Inl _, s1) \<Rightarrow> s1 | (Inr found, s1) \<Rightarrow> act_on g rule a val b found s1)"
  unfolding processAlertState_def act_on_def ..

text \<open>A lookup never fails, and it moves the fault oracle only.\<close>

lemma GetActiveAlert_state:
  "snd (alert_GetActiveAlert r a s) = s\<lparr>fault_pos := Suc (fault_pos s)\<rparr>"
  "fst (alert_GetActiveAlert r a s) \<noteq> Inl e"
proof -
  have "snd (db_run (\<lambda>s. (q s, s)) s) = s\<lparr>fault_pos := Suc (fault_pos s)\<rparr>" for q :: "_ \<Rightarrow> dberr + Alert"
    by (rule db_run_state) simp_all
  then show "snd (alert_GetActiveAlert r a s) = s\<lparr>fault_pos := Suc (fault_pos s)\<rparr>"
    by (simp add: alert_GetActiveAlert_def case_prod_beta split: sum.split)
  show "fst (alert_GetActiveAlert r a s) \<noteq> Inl e"
    by (simp add: alert_GetActiveAlert_def case_prod_beta split: sum.split)
qed

section \<open>At most one alert per thread\<close>

definition pending :: "string \<Rightarrow> string \<Rightarrow> report_thread \<Rightarrow> bool" where
  "pending r a th =
     (case th of
        Looking rule a' v b \<Rightarrow> ru_ID rule = r \<and> a' = a \<and> b
      | Acting rule a' v b found \<Rightarrow> ru_ID rule = r \<and> a' = a \<and> b \<and> found = None
      | Finished \<Rightarrow> False)"

lemma active_length_create:
  "length (active_rows r a (snd (alert_CreateAlert al s))) \<le>
     length (active_rows r a s) + (if al_RuleID al = r \<and> al_AgentID al = a then 1 else 0)"
  unfolding alert_CreateAlert_def
  by (rule db_run_state) (auto simp: insert_alert_def time_Now_def active_rows_def new_alert_row_def)

lemma active_length_resolve:
  "length (active_rows r a (snd (alert_ResolveAlert i v s))) \<le> length (active_rows r a s)"
  unfolding alert_ResolveAlert_def
proof (rule db_run_state)
  let ?P = "\<lambda>a. ar_id a = i \<and> active_status (ar_status a)"
  have le: "length (active_rows r a (snd (update_alert ?P (resolve_row v) t))) \<le> length (active_rows r a t)" for t :: "'a db_env_scheme"
  proof -
    have shrink: "length (filter (Q \<circ> (\<lambda>y. if ?P y then resolve_row v n y else y)) xs) \<le> length (filter Q xs)"
      if "\<And>y. Q y \<Longrightarrow> active_status (ar_status y)" for Q n xs
    proof -
      have "\<not> Q (resolve_row v n y)" for y using that [of "resolve_row v n y"] by (auto simp: active_status_def)
      then show ?thesis by (induction xs) (simp_all add: le_SucI)
    qed
    show ?thesis
      by (simp add: update_alert_def time_Now_def update_returning_def active_rows_def case_prod_beta filter_map
          split: list.split) (auto intro!: shrink)
  qed
  then show "length (active_rows r a (snd (update_alert ?P (resolve_row v) (s\<lparr>fault_pos := Suc (fault_pos s)\<rparr>)))) \<le> length (active_rows r a s)"
    by (rule order_trans) simp
qed simp

lemma active_length_act:
  "length (active_rows r a (act_on g rule a' v b found s)) \<le>
     length (active_rows r a s) + (if pending r a (Acting rule a' v b found) then 1 else 0)"
proof -
  have ann: "active_rows r a (announce g ty nt ag al t) = active_rows r a t" for ty nt ag al and t :: "'a queue_env_scheme"
    by (rule announces_active) (rule announces_announce)
  have clk: "active_rows r a (s\<lparr>clock_pos := n\<rparr>) = active_rows r a s" for n
    by (rule active_rows_alerts) simp
  have new: "al_RuleID (new_alert i rule a' v) = ru_ID rule" "al_AgentID (new_alert i rule a' v) = a'" for i
    by (simp_all add: new_alert_def)
  show ?thesis
    using active_length_create [of r a "new_alert (alert_id (clock s (clock_pos s))) rule a' v" "s\<lparr>clock_pos := Suc (clock_pos s)\<rparr>"]
      active_length_resolve [of r a "al_ID (the found)" v s]
    by (auto simp: act_on_def time_Now_def case_prod_beta ann clk new pending_def split: option.split sum.split)
qed

lemma race_step_bound:
  assumes "race_step g (ts, s) (ts', s')"
  shows "length (active_rows r a s') + length (filter (pending r a) ts') \<le>
         length (active_rows r a s) + length (filter (pending r a) ts)"
  using assms
proof (cases rule: race_step.cases)
  case (look rule ag found xs v b ys)
  then have "s' = s\<lparr>fault_pos := Suc (fault_pos s)\<rparr>"
    using GetActiveAlert_state(1) [of "ru_ID rule" ag s] by simp
  then show ?thesis using look by (simp add: pending_def)
next
  case (fail rule ag e xs v b ys)
  then show ?thesis using GetActiveAlert_state(2) [of "ru_ID rule" ag s e] by simp
next
  case (act xs rule ag v b found ys)
  then show ?thesis
    using active_length_act [of r a g rule ag v b found s] by (auto simp: pending_def [of _ _ Finished])
qed

section \<open>Every thread that looked too early creates one\<close>

lemma act_creates:
  assumes "faults s (fault_pos s) = F_ok"
  obtains (fires) "alert_id (clock s (clock_pos s)) \<notin> ar_id ` set (alerts s)" "known_pair (ru_ID rule) a s"
      "announces (with_alerts (alerts s @
          [fresh_row rule a v (clock s (clock_pos s)) (clock s (Suc (clock_pos s)))]) s) (act_on g rule a v True None s)"
      "Suc (clock_pos s) < clock_pos (act_on g rule a v True None s)"
  | (refused) "alert_id (clock s (clock_pos s)) \<in> ar_id ` set (alerts s) \<or> \<not> known_pair (ru_ID rule) a s"
      "announces s (act_on g rule a v True None s)"
      "clock_pos s < clock_pos (act_on g rule a v True None s)"
proof -
  let ?t = "act_on g rule a v True None s"
  let ?row = "fresh_row rule a v (clock s (clock_pos s)) (clock s (Suc (clock_pos s)))"
  let ?u = "s\<lparr>fault_pos := Suc (fault_pos s), clock_pos := Suc (Suc (clock_pos s)), alerts := alerts s @ [?row]\<rparr>"
  note create = create_alert_ok [OF assms, of rule a v]
  show thesis
  proof (cases "alert_id (clock s (clock_pos s)) \<in> ar_id ` set (alerts s) \<or> \<not> known_pair (ru_ID rule) a s")
    case True
    then have "?t = s\<lparr>fault_pos := Suc (fault_pos s), clock_pos := Suc (Suc (clock_pos s))\<rparr>"
      by (auto simp: act_on_def time_Now_def create Let_def)
    then show thesis using True by (intro refused) (simp_all add: announces_pos)
  next
    case False
    then obtain al where t: "?t = announce g EventAlertFiring EventAlertFiring_n a al ?u"
      by (auto simp: act_on_def time_Now_def create Let_def)
    have "announces (with_alerts (alerts s @ [?row]) s) ?u" by (simp add: announces_def mask_def with_alerts_def)
    then have "announces (with_alerts (alerts s @ [?row]) s) ?t"
      unfolding t by (rule announces_trans) (rule announces_announce)
    moreover have "clock_pos ?u \<le> clock_pos ?t" unfolding t by (rule announces_fields(11) [OF announces_announce])
    ultimately show thesis using False by (intro fires) auto
  qed
qed

text \<open>What a thread that creates keeps, and what it adds when its id is fresh.\<close>

lemma act_keeps:
  assumes "faults s (fault_pos s) = F_ok" and "ids_ok old s"
  shows "faults (act_on g rule a v True None s) = faults s" and "ids_ok old (act_on g rule a v True None s)"
    and "clock (act_on g rule a v True None s) = clock s"
    and "clock_pos s < clock_pos (act_on g rule a v True None s)"
    and "known_pair r a' (act_on g rule a v True None s) = known_pair r a' s"
proof -
  let ?t = "act_on g rule a v True None s"
  let ?row = "fresh_row rule a v (clock s (clock_pos s)) (clock s (Suc (clock_pos s)))"
  obtain u where u: "announces u ?t" "u = s \<or> u = with_alerts (alerts s @ [?row]) s" "clock_pos s < clock_pos ?t"
    by (rule act_creates [OF assms(1), of rule a v g]) auto
  then have frame: "clock u = clock s" "faults u = faults s" "alert_rules u = alert_rules s" "agents u = agents s"
      "clock_pos u = clock_pos s"
    by auto
  note fields = announces_fields [OF u(1)]
  show "faults ?t = faults s" by (simp add: fields frame)
  show clk: "clock ?t = clock s" by (simp add: fields frame)
  show "clock_pos s < clock_pos ?t" by (rule u(3))
  show "known_pair r a' ?t = known_pair r a' s" by (simp add: known_pair_def fields frame)
  have "ar_id ?row = alert_id (clock s (clock_pos s))"
    by (simp add: fresh_row_def new_alert_row_def new_alert_def)
  then have "ar_id ` set (alerts ?t) \<subseteq> insert (alert_id (clock s (clock_pos s))) (ar_id ` set (alerts s))"
    using u(2) by (auto simp: fields(1))
  also have "\<dots> \<subseteq> old \<union> (\<lambda>p. alert_id (clock s p)) ` {..<clock_pos ?t}"
    using assms(2) u(3) unfolding ids_ok_def
    by (auto dest!: subsetD)
  finally show "ids_ok old ?t" by (simp add: ids_ok_def clk)
qed

lemma act_fires:
  assumes "faults s (fault_pos s) = F_ok" and "ids_ok old s" and "known_pair (ru_ID rule) a s"
    and "fresh_clock old t" and "clock t = clock s" and "clock_pos (act_on g rule a v True None s) \<le> clock_pos t"
  shows "length (active_rows (ru_ID rule) a (act_on g rule a v True None s)) =
         Suc (length (active_rows (ru_ID rule) a s))"
proof -
  have "clock_pos s < clock_pos t" using act_keeps(4) [OF assms(1,2)] assms(6) by (rule less_le_trans)
  then have "alert_id (clock s (clock_pos s)) \<notin> ar_id ` set (alerts s)"
    by (rule fresh_alert_id [OF assms(2,4,5)])
  with assms(3) show ?thesis
    by (cases rule: act_creates [OF assms(1), of rule a v g, case_names fires refused])
      (auto simp: announces_active active_after_fire)
qed

section \<open>All look, then all act\<close>

definition all_act :: "Engine \<Rightarrow> AlertRule \<Rightarrow> string \<Rightarrow> float64 list \<Rightarrow> engine_env \<Rightarrow> engine_env" where
  "all_act g rule a vs s =
     fold (\<lambda>v. act_on g rule a v True None) vs (s\<lparr>fault_pos := fault_pos s + length vs\<rparr>)"

lemma look_all:
  assumes "\<And>n. alert_GetActiveAlert (ru_ID rule) a (s\<lparr>fault_pos := n\<rparr>) = (Inr None, s\<lparr>fault_pos := Suc n\<rparr>)"
  shows "(race_step g)\<^sup>*\<^sup>* (xs @ map (\<lambda>v. Looking rule a v True) vs, s\<lparr>fault_pos := n\<rparr>)
    (xs @ map (\<lambda>v. Acting rule a v True None) vs, s\<lparr>fault_pos := n + length vs\<rparr>)"
proof (induction vs arbitrary: xs n)
  case Nil
  then show ?case by simp
next
  case (Cons v vs)
  have "race_step g (xs @ Looking rule a v True # map (\<lambda>v. Looking rule a v True) vs, s\<lparr>fault_pos := n\<rparr>)
      (xs @ Acting rule a v True None # map (\<lambda>v. Looking rule a v True) vs, s\<lparr>fault_pos := Suc n\<rparr>)"
    by (rule race_step.look) (rule assms)
  with Cons.IH [of "xs @ [Acting rule a v True None]" "Suc n"] show ?case
    by (simp add: converse_rtranclp_into_rtranclp)
qed

lemma act_all:
  "(race_step g)\<^sup>*\<^sup>* (xs @ map (\<lambda>v. Acting rule a v True None) vs, s)
    (xs @ map (\<lambda>v. Finished) vs, fold (\<lambda>v. act_on g rule a v True None) vs s)"
proof (induction vs arbitrary: xs s)
  case Nil
  then show ?case by simp
next
  case (Cons v vs)
  have "race_step g (xs @ Acting rule a v True None # map (\<lambda>v. Acting rule a v True None) vs, s)
      (xs @ Finished # map (\<lambda>v. Acting rule a v True None) vs, act_on g rule a v True None s)"
    by (rule race_step.act)
  with Cons.IH [of "xs @ [Finished]" "act_on g rule a v True None s"] show ?case
    by (simp add: converse_rtranclp_into_rtranclp)
qed

lemma fold_act_clock:
  assumes "reliable s" and "ids_ok old s"
  shows "clock (fold (\<lambda>v. act_on g rule a v True None) vs s) = clock s \<and>
         clock_pos s \<le> clock_pos (fold (\<lambda>v. act_on g rule a v True None) vs s)"
  using assms
proof (induction vs arbitrary: s)
  case Nil
  then show ?case by simp
next
  case (Cons v vs)
  note keeps = act_keeps [OF reliable_fault [OF Cons.prems(1)] Cons.prems(2), where g = g and rule = rule and a = a and v = v]
  have "reliable (act_on g rule a v True None s)" using Cons.prems(1) by (simp add: reliable_def keeps(1))
  from Cons.IH [OF this keeps(2)] show ?case using keeps(3,4) by simp
qed

lemma all_fire:
  assumes "reliable s" and "ids_ok old s" and "known_pair (ru_ID rule) a s"
    and "fresh_clock old (fold (\<lambda>v. act_on g rule a v True None) vs s)"
  shows "length (active_rows (ru_ID rule) a (fold (\<lambda>v. act_on g rule a v True None) vs s)) =
         length (active_rows (ru_ID rule) a s) + length vs"
  using assms
proof (induction vs arbitrary: s)
  case Nil
  then show ?case by simp
next
  case (Cons v vs)
  note keeps = act_keeps [OF reliable_fault [OF Cons.prems(1)] Cons.prems(2), where g = g and rule = rule and a = a and v = v]
  have rel: "reliable (act_on g rule a v True None s)" using Cons.prems(1) by (simp add: reliable_def keeps(1))
  note rest = fold_act_clock [OF rel keeps(2), of g rule a vs]
  have "length (active_rows (ru_ID rule) a (act_on g rule a v True None s)) = Suc (length (active_rows (ru_ID rule) a s))"
    by (rule act_fires [OF reliable_fault [OF Cons.prems(1)] Cons.prems(2-4)]) (use rest keeps(3) in simp_all)
  moreover have "known_pair (ru_ID rule) a (act_on g rule a v True None s)"
    using Cons.prems(3) by (simp add: keeps(5))
  ultimately show ?case using Cons.IH [OF rel keeps(2)] Cons.prems(4) by simp
qed

lemma overlap_run:
  assumes "reliable s" and "alerting_ok s" and "active_rows (ru_ID rule) a s = []"
  shows "(race_step g)\<^sup>*\<^sup>* (map (\<lambda>v. Looking rule a v True) vs, s) (map (\<lambda>v. Finished) vs, all_act g rule a vs s)"
proof -
  have look: "alert_GetActiveAlert (ru_ID rule) a (s\<lparr>fault_pos := n\<rparr>) = (Inr None, s\<lparr>fault_pos := Suc n\<rparr>)" for n
  proof -
    have "reliable (s\<lparr>fault_pos := n\<rparr>)" "alerting_ok (s\<lparr>fault_pos := n\<rparr>)"
      using assms(1,2) alerting_ok_same [of "s\<lparr>fault_pos := n\<rparr>" s] by (simp_all add: reliable_def)
    then show ?thesis
      by (cases rule: GetActiveAlert_reliable [where r = "ru_ID rule" and a = a]) (use assms(3) in auto)
  qed
  have s: "s\<lparr>fault_pos := fault_pos s\<rparr> = s" by simp
  show ?thesis
    using look_all [OF look, where xs = "[]" and vs = vs and n = "fault_pos s" and g = g]
      act_all [where xs = "[]" and vs = vs and g = g and rule = rule and a = a and s = "s\<lparr>fault_pos := fault_pos s + length vs\<rparr>"]
    unfolding all_act_def s by (simp add: rtranclp_trans)
qed

text \<open>Two overlapping evaluations of the rule of \<open>engine_start\<close>.\<close>

definition demo_both_act :: engine_env where
  "demo_both_act = all_act both demo_rule ''a1'' [Fin 95, Fin 96] (engine_start (\<lambda>_. F_ok))"

lemma demo_start_facts:
  "tracker_inv {} (engine_start (\<lambda>_. F_ok))" "reliable (engine_start (\<lambda>_. F_ok))"
  "alerting_ok (engine_start (\<lambda>_. F_ok))" "known_pair (ru_ID demo_rule) ''a1'' (engine_start (\<lambda>_. F_ok))"
  "active_rows r a (engine_start (\<lambda>_. F_ok)) = []"
  using engine_start_inv
  by (simp_all add: tracker_inv_def known_pair_def engine_start_def demo_rule_def demo_agent_def active_rows_def)

lemma demo_both_fresh: "fresh_clock {} demo_both_act"
proof (rule fresh_clock_int)
  show "clock_pos demo_both_act \<le> 1000" by code_simp
  let ?s = "(engine_start (\<lambda>_. F_ok))\<lparr>fault_pos := Suc (Suc 0)\<rparr>"
  have "reliable ?s" "ids_ok {} ?s" by (simp_all add: engine_start_def reliable_def ids_ok_def)
  then have "clock (fold (\<lambda>v. act_on both demo_rule ''a1'' v True None) [Fin 95, Fin 96] ?s) = clock ?s"
    by (rule fold_act_clock [THEN conjunct1])
  then show "clock demo_both_act = int" by (simp add: demo_both_act_def all_act_def engine_start_def)
qed

section \<open>Properties\<close>

text \<open>
  C13: Overlapping evaluations add at most one alert per thread.  In any interleaving of lookups and
  statements, with any fault of the database, the number of active alerts of a rule on an agent
  grows by at most the number of threads on this pair that still may create one.
\<close>

theorem overlap_bound:
  assumes "(race_step g)\<^sup>*\<^sup>* (ts, s) (ts', s')"
  shows "length (active_rows r a s') + length (filter (pending r a) ts') \<le>
         length (active_rows r a s) + length (filter (pending r a) ts)"
  using assms
proof (induction "(ts', s')" arbitrary: ts' s' rule: rtranclp_induct)
  case base
  show ?case by simp
next
  case (step y)
  obtain us u where y: "y = (us, u)" by fastforce
  have "race_step g (us, u) (ts', s')" using step(2) by (simp only: y)
  from race_step_bound [OF this] step(3) [OF y] show ?case by (rule order_trans)
qed

theorem overlap_bound_witness:
  "length (active_rows ''rule-cpu-high'' ''a1'' demo_both_act) \<le> 2"
  using overlap_bound [OF overlap_run [OF demo_start_facts(2,3,5), of both demo_rule "''a1''" "[Fin 95, Fin 96]"],
      of "''rule-cpu-high''" "''a1''"]
  by (simp add: demo_both_act_def demo_start_facts pending_def demo_rule_def)

text \<open>
  C12: The bound is reached.  When several evaluations of one rule on one agent have all looked
  before the first of them acts (a schedule that the goroutines allow), every one of them creates
  an alert: n threads leave n active alerts, although a report that runs alone leaves one.
\<close>

theorem overlap_duplicates:
  assumes "tracker_inv old s" and "known_pair (ru_ID rule) a s" and "active_rows (ru_ID rule) a s = []"
    and "fresh_clock old (all_act g rule a vs s)"
  shows "(race_step g)\<^sup>*\<^sup>* (map (\<lambda>v. Looking rule a v True) vs, s) (map (\<lambda>v. Finished) vs, all_act g rule a vs s) \<and>
         length (active_rows (ru_ID rule) a (all_act g rule a vs s)) = length vs"
proof
  have ok: "reliable s" "alerting_ok s" "ids_ok old s" using assms(1) by (simp_all add: tracker_inv_def)
  show "(race_step g)\<^sup>*\<^sup>* (map (\<lambda>v. Looking rule a v True) vs, s) (map (\<lambda>v. Finished) vs, all_act g rule a vs s)"
    by (rule overlap_run [OF ok(1,2) assms(3)])
  have same: "reliable (s\<lparr>fault_pos := n\<rparr>)" "ids_ok old (s\<lparr>fault_pos := n\<rparr>)" "known_pair r a (s\<lparr>fault_pos := n\<rparr>) = known_pair r a s" for n r
    using ok by (simp_all add: reliable_def ids_ok_def known_pair_def)
  show "length (active_rows (ru_ID rule) a (all_act g rule a vs s)) = length vs"
    using all_fire [OF same(1,2), of rule a "fault_pos s + length vs" g vs] assms(2-4) by (simp add: all_act_def same(3))
qed

theorem overlap_duplicates_witness:
  "length (active_rows ''rule-cpu-high'' ''a1'' demo_both_act) = 2"
  using overlap_duplicates [OF demo_start_facts(1,4,5) demo_both_fresh [unfolded demo_both_act_def]]
  by (simp add: demo_both_act_def demo_rule_def)

text \<open>
  A failing lookup creates a second alert.  \<open>GetActiveAlert\<close> answers nil to every error, so a
  report whose condition holds creates an alert when its lookup fails, however many alerts of the
  rule are active on the agent already.
\<close>

theorem lookup_error_duplicates:
  assumes "faults s (fault_pos s) \<noteq> F_ok" and "faults s (Suc (fault_pos s)) = F_ok"
    and "ids_ok old s" and "known_pair (ru_ID rule) a s"
    and "fresh_clock old (processAlertState g rule a v True s)"
  shows "length (active_rows (ru_ID rule) a (processAlertState g rule a v True s)) =
         Suc (length (active_rows (ru_ID rule) a s))"
proof -
  let ?s1 = "s\<lparr>fault_pos := Suc (fault_pos s)\<rparr>"
  have "alert_GetActiveAlert (ru_ID rule) a s = (Inr None, ?s1)"
    using assms(1) by (auto simp: alert_GetActiveAlert_def db_run_def next_fault_def split: fault.split)
  then have run: "processAlertState g rule a v True s = act_on g rule a v True None ?s1"
    by (simp add: processAlertState_two_steps)
  have s1: "faults ?s1 (fault_pos ?s1) = F_ok" "ids_ok old ?s1" "known_pair (ru_ID rule) a ?s1"
    using assms(2-4) by (simp_all add: ids_ok_def known_pair_def)
  show ?thesis
    unfolding run
    using act_fires [OF s1, of "act_on g rule a v True None ?s1" g v] act_keeps(3) [OF s1(1,2)] assms(5)
    by (simp add: run)
qed

definition demo_once :: engine_env where
  "demo_once = processAlertState both demo_rule ''a1'' (Fin 95) True (engine_start (\<lambda>_. F_ok))"

definition lookup_fails :: "nat \<Rightarrow> fault" where
  "lookup_fails n = (if n = fault_pos demo_once then F_before else F_ok)"

definition demo_twice :: engine_env where
  "demo_twice = processAlertState both demo_rule ''a1'' (Fin 95) True (demo_once\<lparr>faults := lookup_fails\<rparr>)"

theorem lookup_error_duplicates_witness:
  "length (active_rows ''rule-cpu-high'' ''a1'' demo_twice) = 2"
proof -
  let ?s = "demo_once\<lparr>faults := lookup_fails\<rparr>"
  have "alerts_only (engine_start (\<lambda>_. F_ok)) demo_once" and "alerts_only ?s demo_twice"
    unfolding demo_once_def demo_twice_def by (rule processAlertState_alerts_only)+
  note once = alerts_only_fields [OF this(1)] and twice = alerts_only_fields [OF this(2)]
  have known: "known_pair (ru_ID demo_rule) ''a1'' ?s"
    using demo_start_facts(4) by (simp add: known_pair_def once(1,2))
  have "ids_ok {} (engine_start (\<lambda>_. F_ok))" using demo_start_facts(1) by (simp add: tracker_inv_def)
  then have "ids_ok {} demo_once"
    unfolding demo_once_def by (rule processAlertState_ids [OF demo_start_facts(2,3)])
  then have ids: "ids_ok {} ?s" by (simp add: ids_ok_def)
  have "clock_pos demo_twice \<le> 1000" by code_simp
  then have fresh: "fresh_clock {} demo_twice"
    by (rule fresh_clock_int [rotated]) (simp add: twice(3) once(3), simp add: engine_start_def)
  have one: "length (active_rows ''rule-cpu-high'' ''a1'' demo_once) = 1" by code_simp
  show ?thesis
    using lookup_error_duplicates [OF _ _ ids known fresh [unfolded demo_twice_def]] one
    by (simp add: lookup_fails_def demo_twice_def demo_rule_def active_rows_def)
qed

end
