(* ===== verification/Alert_Handler.thy ===== *)
theory Alert_Handler
  imports Alert_Repo Events_Hub
begin

text \<open>
  internal/alerting/handler.go: the endpoints for alerts, their comments and the rules.  The flag
  \<open>ah_hub\<close> of the handler says whether \<open>WithEvents\<close> gave it a hub.  Decoding a body is a parameter;
  its result also carries what was filled in before an error, which \<open>AcknowledgeAlert\<close> uses.
\<close>

section \<open>The handler\<close>

record AlertHandler =
  ah_hub :: bool

definition alerting_NewHandler :: AlertHandler where
  "alerting_NewHandler = \<lparr>ah_hub = False\<rparr>"

definition alerting_WithEvents :: "AlertHandler \<Rightarrow> AlertHandler" where
  "alerting_WithEvents h = h\<lparr>ah_hub := True\<rparr>"

record ackRequest =
  ack_User :: string
  ack_Comment :: string

record commentRequest =
  cmr_AuthorID :: string
  cmr_Comment :: string

datatype alert_json =
    AJ_alerts "Alert list"
  | AJ_alert Alert
  | AJ_comments "AlertComment list"
  | AJ_comment AlertComment
  | AJ_rules "AlertRule list"
  | AJ_rule AlertRule

type_synonym 'a alert_handler =
  "alert_json response \<Rightarrow> request \<Rightarrow> 'a hub_env_scheme \<Rightarrow> alert_json response \<times> 'a hub_env_scheme"

definition ListAlerts_h :: "'a alert_handler" where
  "ListAlerts_h w r s =
     (if Method r \<noteq> ''GET'' then (sendError_flat ''method not allowed'' 405 w, s)
      else (case alert_ListAlerts (Query_Get r ''status'') (Query_Get r ''agent_id'') s of
          (Inl _, s1) \<Rightarrow> (sendError_flat ''failed to list alerts'' 500 w, s1)
        | (Inr als, s1) \<Rightarrow> (sendJSON 200 (AJ_alerts als) w, s1)))"

definition GetAlert_h :: "'a alert_handler" where
  "GetAlert_h w r s =
     (if Method r \<noteq> ''GET'' then (sendError_flat ''method not allowed'' 405 w, s)
      else if PathValue r ''id'' = '''' then (sendError_flat ''alert ID is required'' 400 w, s)
      else (case alert_GetAlertByID (PathValue r ''id'') s of
          (Inl e, s1) \<Rightarrow>
            (if e = NoRows then (sendError_flat ''alert not found'' 404 w, s1)
             else (sendError_flat ''failed to retrieve alert'' 500 w, s1))
        | (Inr al, s1) \<Rightarrow> (sendJSON 200 (AJ_alert al) w, s1)))"

definition publish_if :: "bool \<Rightarrow> (time \<Rightarrow> Event) \<Rightarrow> 'a hub_env_scheme \<Rightarrow> 'a hub_env_scheme" where
  "publish_if hub_set ev s = (if hub_set then (case time_Now s of (now, s1) \<Rightarrow> Publish (ev now) s1) else s)"

definition acknowledged_event :: "Alert \<Rightarrow> time \<Rightarrow> Event" where
  "acknowledged_event al now =
     new_event\<lparr>ev_Type := EventAlertAcknowledged, ev_AgentID := al_AgentID al, ev_Timestamp := now,
       ev_Alert := Some (P_Alert al)\<rparr>"

definition AcknowledgeAlert_h :: "AlertHandler \<Rightarrow> ackRequest decoder \<Rightarrow> 'a alert_handler" where
  "AcknowledgeAlert_h h decode w r s =
     (if Method r \<noteq> ''POST'' then (sendError_flat ''method not allowed'' 405 w, s)
      else if PathValue r ''id'' = '''' then (sendError_flat ''alert ID is required'' 400 w, s)
      else
        (let body = fst (decode (Body r));
             user = (if ack_User body = '''' then ''operator'' else ack_User body) in
         case alert_AcknowledgeAlert (PathValue r ''id'') user (ack_Comment body) s of
           (Inl _, s1) \<Rightarrow> (sendError_flat ''failed to acknowledge alert'' 500 w, s1)
         | (Inr al, s1) \<Rightarrow>
             (sendJSON 200 (AJ_alert al) w, publish_if (ah_hub h) (acknowledged_event al) s1)))"

definition ListComments_h :: "'a alert_handler" where
  "ListComments_h w r s =
     (if Method r \<noteq> ''GET'' then (sendError_flat ''method not allowed'' 405 w, s)
      else if PathValue r ''id'' = '''' then (sendError_flat ''alert ID is required'' 400 w, s)
      else (case alert_ListComments (PathValue r ''id'') s of
          (Inl _, s1) \<Rightarrow> (sendError_flat ''failed to list comments'' 500 w, s1)
        | (Inr cs, s1) \<Rightarrow> (sendJSON 200 (AJ_comments cs) w, s1)))"

definition comment_id :: "time \<Rightarrow> string" where
  "comment_id now = ''cmt-'' @ show_int (UnixNano now)"

definition comment_event :: "AlertComment \<Rightarrow> time \<Rightarrow> Event" where
  "comment_event c now =
     new_event\<lparr>ev_Type := EventAlertCommentAdded, ev_Timestamp := now, ev_Data := Some (P_Comment c)\<rparr>"

definition AddComment_h :: "AlertHandler \<Rightarrow> commentRequest decoder \<Rightarrow> 'a alert_handler" where
  "AddComment_h h decode w r s =
     (if Method r \<noteq> ''POST'' then (sendError_flat ''method not allowed'' 405 w, s)
      else if PathValue r ''id'' = '''' then (sendError_flat ''alert ID is required'' 400 w, s)
      else (case decode (Body r) of (body, bad) \<Rightarrow>
        if bad \<or> TrimSpace (cmr_Comment body) = ''''
        then (sendError_flat ''comment content is required'' 400 w, s)
        else
          (let author = (if cmr_AuthorID body = '''' then ''operator'' else cmr_AuthorID body) in
           case time_Now s of (now, s1) \<Rightarrow>
           case alert_AddComment
                  \<lparr>cm_ID = comment_id now, cm_AlertID = PathValue r ''id'', cm_AuthorID = author,
                   cm_Comment = cmr_Comment body, cm_CreatedAt = zero_time\<rparr> s1 of
             (Inl _, s2) \<Rightarrow> (sendError_flat ''failed to add comment'' 500 w, s2)
           | (Inr c, s2) \<Rightarrow>
               (sendJSON 201 (AJ_comment c) w, publish_if (ah_hub h) (comment_event c) s2))))"

definition ListRules_h :: "'a alert_handler" where
  "ListRules_h w r s =
     (if Method r \<noteq> ''GET'' then (sendError_flat ''method not allowed'' 405 w, s)
      else (case alert_ListRules s of
          (Inl _, s1) \<Rightarrow> (sendError_flat ''failed to list alert rules'' 500 w, s1)
        | (Inr rules, s1) \<Rightarrow> (sendJSON 200 (AJ_rules rules) w, s1)))"

definition rule_id :: "string \<Rightarrow> time \<Rightarrow> string" where
  "rule_id metric now = ''rule-'' @ metric @ ''-'' @ show_int (UnixNano now)"

definition rule_complete :: "AlertRule \<Rightarrow> bool" where
  "rule_complete rule \<longleftrightarrow>
     TrimSpace (ru_Name rule) \<noteq> '''' \<and> TrimSpace (ru_Metric rule) \<noteq> '''' \<and> TrimSpace (ru_Operator rule) \<noteq> ''''"

definition CreateRule_h :: "AlertRule decoder \<Rightarrow> 'a alert_handler" where
  "CreateRule_h decode w r s =
     (if Method r \<noteq> ''POST'' then (sendError_flat ''method not allowed'' 405 w, s)
      else (case decode (Body r) of (rule, bad) \<Rightarrow>
        if bad then (sendError_flat ''invalid alert rule payload'' 400 w, s)
        else if \<not> rule_complete rule
        then (sendError_flat ''name, metric, and operator are required'' 400 w, s)
        else
          (case (if ru_ID rule = ''''
                 then (case time_Now s of (now, s1) \<Rightarrow> (rule\<lparr>ru_ID := rule_id (ru_Metric rule) now\<rparr>, s1))
                 else (rule, s)) of (rule1, s1) \<Rightarrow>
            (case alert_CreateRule rule1 s1 of
               (Inl _, s2) \<Rightarrow> (sendError_flat ''failed to create alert rule'' 500 w, s2)
             | (Inr created, s2) \<Rightarrow> (sendJSON 201 (AJ_rule created) w, s2)))))"

definition UpdateRule_h :: "AlertRule decoder \<Rightarrow> 'a alert_handler" where
  "UpdateRule_h decode w r s =
     (if Method r \<noteq> ''PUT'' then (sendError_flat ''method not allowed'' 405 w, s)
      else if PathValue r ''id'' = '''' then (sendError_flat ''alert rule ID is required'' 400 w, s)
      else (case decode (Body r) of (rule, bad) \<Rightarrow>
        if bad then (sendError_flat ''invalid alert rule payload'' 400 w, s)
        else (case alert_UpdateRule (rule\<lparr>ru_ID := PathValue r ''id''\<rparr>) s of
            (Inl _, s1) \<Rightarrow> (sendError_flat ''failed to update alert rule'' 500 w, s1)
          | (Inr updated, s1) \<Rightarrow> (sendJSON 200 (AJ_rule updated) w, s1))))"

definition DeleteRule_h :: "'a alert_handler" where
  "DeleteRule_h w r s =
     (if Method r \<noteq> ''DELETE'' then (sendError_flat ''method not allowed'' 405 w, s)
      else if PathValue r ''id'' = '''' then (sendError_flat ''alert rule ID is required'' 400 w, s)
      else (case alert_DeleteRule (PathValue r ''id'') s of
          (Inl _, s1) \<Rightarrow> (sendError_flat ''failed to delete alert rule'' 500 w, s1)
        | (Inr _, s1) \<Rightarrow> (WriteHeader 204 w, s1)))"

section \<open>They keep the schema\<close>

lemma publish_if_schema [simp]: "schema_ok (publish_if b ev s) = schema_ok s"
  by (simp add: publish_if_def time_Now_def)

lemma alert_handlers_schema [schema_intro]:
  assumes "schema_ok s"
  shows "schema_ok (snd (ListAlerts_h w r s))" "schema_ok (snd (GetAlert_h w r s))"
    "schema_ok (snd (AcknowledgeAlert_h h da w r s))" "schema_ok (snd (ListComments_h w r s))"
    "schema_ok (snd (AddComment_h h dc w r s))" "schema_ok (snd (ListRules_h w r s))"
    "schema_ok (snd (CreateRule_h dr w r s))" "schema_ok (snd (UpdateRule_h dr w r s))"
    "schema_ok (snd (DeleteRule_h w r s))"
  using assms
  by (simp_all add: ListAlerts_h_def GetAlert_h_def AcknowledgeAlert_h_def ListComments_h_def AddComment_h_def
      ListRules_h_def CreateRule_h_def UpdateRule_h_def DeleteRule_h_def Let_def time_Now_def alert_schema
      case_prod_beta split: sum.split)

section \<open>Acknowledging\<close>

lemma AcknowledgeAlert_firing:
  assumes "reliable s" and "distinct (map ar_id (alerts s))" and "a \<in> set (alerts s)" and "ar_status a = ''firing''"
  shows "alert_AcknowledgeAlert (ar_id a) u c s =
    (let now = clock s (clock_pos s) in
     (Inr (scan_alert (acknowledge_row u c now a)),
      s\<lparr>fault_pos := Suc (fault_pos s), clock_pos := Suc (clock_pos s),
        alerts := map (\<lambda>x. if ar_id x = ar_id a then acknowledge_row u c now x else x) (alerts s)\<rparr>))"
proof -
  have "update_returning (\<lambda>x. ar_id x = ar_id a \<and> ar_status x = ''firing'') (acknowledge_row u c now) (alerts s) =
      (Inr (acknowledge_row u c now a), map (\<lambda>x. if ar_id x = ar_id a then acknowledge_row u c now x else x) (alerts s))" for now
    by (rule update_returning_key) (use assms(2-4) in auto)
  then show ?thesis
    by (simp add: alert_AcknowledgeAlert_def db_run_reliable [OF assms(1)] update_alert_def time_Now_def Let_def)
qed

lemma AcknowledgeAlert_other:
  assumes "reliable s" and "\<not> (\<exists>a \<in> set (alerts s). ar_id a = i \<and> ar_status a = ''firing'')"
  shows "alert_AcknowledgeAlert i u c s = (Inl NoRows, s\<lparr>fault_pos := Suc (fault_pos s), clock_pos := Suc (clock_pos s)\<rparr>)"
proof -
  have "update_returning (\<lambda>x. ar_id x = i \<and> ar_status x = ''firing'') (acknowledge_row u c now) (alerts s) =
      (Inl NoRows, alerts s)" for now
    by (rule update_returning_none) (use assms(2) in auto)
  then show ?thesis
    by (simp add: alert_AcknowledgeAlert_def db_run_reliable [OF assms(1)] update_alert_def time_Now_def)
qed

lemma publish_if_told:
  "\<exists>e. ev_Type e = ev_Type (ev (clock s (clock_pos s))) \<and> ev_Alert e = ev_Alert (ev (clock s (clock_pos s))) \<and>
       ev_Data e = ev_Data (ev (clock s (clock_pos s))) \<and>
       hub (publish_if b ev s) = (if b then hub_offer e (hub s) else hub s)"
  by (cases "IsZero (ev_Timestamp (ev (clock s (clock_pos s))))")
    (auto simp: publish_if_def time_Now_def Publish_def intro: exI [of _ "ev (clock s (clock_pos s))"]
       exI [of _ "(ev (clock s (clock_pos s)))\<lparr>ev_Timestamp := clock s (Suc (clock_pos s))\<rparr>"])

lemma publish_if_tables [simp]:
  "alerts (publish_if b ev s) = alerts s" "alert_rules (publish_if b ev s) = alert_rules s"
  "alert_comments (publish_if b ev s) = alert_comments s"
  by (simp_all add: publish_if_def time_Now_def Publish_def)

section \<open>Properties\<close>

definition ack_by :: "ackRequest \<Rightarrow> string" where
  "ack_by body = (if ack_User body = '''' then ''operator'' else ack_User body)"

text \<open>
  C28: Acknowledging an alert.  With a working database the endpoint answers 200 exactly when the
  path names an alert that is firing, whatever the body is; then this alert alone is acknowledged, by
  the user of the body or by \<open>operator\<close>, its new row is the answer, and the hub is told.  In every
  other case no alert changes, and an unknown or already acknowledged alert is answered with 500.
\<close>

theorem acknowledge_endpoint:
  assumes "reliable s" and "schema_ok s" and "status w = None" and "Method r = ''POST''" and "PathValue r ''id'' \<noteq> ''''"
    and "AcknowledgeAlert_h h decode w r s = (w', s')" and "acked = acknowledge_row (ack_by (fst (decode (Body r))))
        (ack_Comment (fst (decode (Body r)))) (clock s (clock_pos s))"
  shows "(\<exists>a \<in> set (alerts s). ar_id a = PathValue r ''id'' \<and> ar_status a = ''firing'' \<and> status w' = Some 200 \<and>
            alerts s' = map (\<lambda>x. if x = a then acked x else x) (alerts s) \<and>
            chunks w' = chunks w @ [B_json (AJ_alert (scan_alert (acked a)))] \<and>
            (\<exists>e. ev_Type e = EventAlertAcknowledged \<and> ev_Alert e = Some (P_Alert (scan_alert (acked a))) \<and>
                 hub s' = (if ah_hub h then hub_offer e (hub s) else hub s))) \<or>
         (\<not> (\<exists>a \<in> set (alerts s). ar_id a = PathValue r ''id'' \<and> ar_status a = ''firing'') \<and>
            status w' = Some 500 \<and> alerts s' = alerts s \<and> hub s' = hub s \<and>
            chunks w' = chunks w @ [B_error ''failed to acknowledge alert''])"
proof (cases "\<exists>a \<in> set (alerts s). ar_id a = PathValue r ''id'' \<and> ar_status a = ''firing''")
  case True
  then obtain a where a: "a \<in> set (alerts s)" "ar_id a = PathValue r ''id''" "ar_status a = ''firing''" by blast
  have dist: "distinct (map ar_id (alerts s))" using assms(2) by (simp add: schema_defs)
  let ?s1 = "s\<lparr>fault_pos := Suc (fault_pos s), clock_pos := Suc (clock_pos s),
      alerts := map (\<lambda>x. if ar_id x = ar_id a then acked x else x) (alerts s)\<rparr>"
  have run: "AcknowledgeAlert_h h decode w r s = (sendJSON 200 (AJ_alert (scan_alert (acked a))) w,
      publish_if (ah_hub h) (acknowledged_event (scan_alert (acked a))) ?s1)"
    unfolding assms(7) ack_by_def
    using AcknowledgeAlert_firing [OF assms(1) dist a(1,3)] assms(4,5)
    by (simp add: AcknowledgeAlert_h_def Let_def a(2))
  have rows: "map (\<lambda>x. if ar_id x = ar_id a then acked x else x) (alerts s) = map (\<lambda>x. if x = a then acked x else x) (alerts s)"
    using key_unique [OF dist _ a(1)] by (intro map_cong) auto
  have w': "w' = sendJSON 200 (AJ_alert (scan_alert (acked a))) w"
    and s': "s' = publish_if (ah_hub h) (acknowledged_event (scan_alert (acked a))) ?s1"
    using assms(6) unfolding run by simp_all
  have "\<exists>e. ev_Type e = EventAlertAcknowledged \<and> ev_Alert e = Some (P_Alert (scan_alert (acked a))) \<and>
      hub s' = (if ah_hub h then hub_offer e (hub s) else hub s)"
    using publish_if_told [of "acknowledged_event (scan_alert (acked a))" ?s1 "ah_hub h"]
    unfolding s' by (auto simp: acknowledged_event_def)
  moreover have "alerts s' = map (\<lambda>x. if x = a then acked x else x) (alerts s)" unfolding s' by (simp add: rows)
  moreover have "status w' = Some 200" "chunks w' = chunks w @ [B_json (AJ_alert (scan_alert (acked a)))]"
    unfolding w' using assms(3) by simp_all
  ultimately show ?thesis using a by blast
next
  case False
  then show ?thesis
    using AcknowledgeAlert_other [OF assms(1) False] assms(3-6) by (auto simp: AcknowledgeAlert_h_def Let_def)
qed


definition demo_alert_row :: alert_row where
  "demo_alert_row = \<lparr>ar_id = ''al1'', ar_rule_id = ''r1'', ar_agent_id = ''a1'', ar_status = ''firing'',
     ar_started_at = 0, ar_acknowledged_at = None, ar_acknowledged_by = None, ar_acknowledged_comment = None,
     ar_resolved_at = None, ar_last_value = Fin 95, ar_message = '''', ar_created_at = 0, ar_updated_at = 0\<rparr>"

definition demo_rule_row :: AlertRule where
  "demo_rule_row = \<lparr>ru_ID = ''r1'', ru_Name = ''High CPU'', ru_Metric = ''cpu_usage'', ru_Operator = ''>'',
     ru_Threshold = Fin 80, ru_DurationSeconds = 0, ru_ForDurationSeconds = 0, ru_CooldownSeconds = 0,
     ru_Severity = ''critical'', ru_Enabled = True, ru_CreatedAt = 0, ru_UpdatedAt = 0\<rparr>"

definition demo_agent_row :: Agent where
  "demo_agent_row = \<lparr>ag_ID = ''a1'', ag_Name = ''web'', ag_Hostname = ''h'', ag_OS = ''linux'', ag_Arch = ''amd64'',
     ag_Version = ''1'', ag_Status = ''online'', ag_LastSeen = 0, ag_CreatedAt = 0\<rparr>"

definition incident_env :: hub_env where
  "incident_env = \<lparr>clock = int, clock_pos = 7, faults = (\<lambda>_. F_ok), fault_pos = 0,
     agents = [demo_agent_row], telemetry = [], alert_rules = [demo_rule_row], alerts = [demo_alert_row], alert_comments = [],
     notification_channels = [], notification_deliveries = [], api_tokens = [], telemetry_hourly = [],
     hub = NewHub\<rparr>"

definition demo_request :: "string \<Rightarrow> string \<Rightarrow> request" where
  "demo_request m i = \<lparr>Method = m, URL_Path = '''', RemoteAddr = '''', Header_Get = (\<lambda>_. ''''),
     PathValue = (\<lambda>_. i), Query_Get = (\<lambda>_. ''''), Body = '''', ctx_role = None, ctx_token = None,
     ctx_request_id = None\<rparr>"

lemma incident_env_ok: "reliable incident_env" "schema_ok incident_env"
  by (simp_all add: incident_env_def reliable_def schema_defs demo_alert_row_def demo_rule_row_def demo_agent_row_def)

definition demo_ack :: "alert_json response \<times> hub_env" where
  "demo_ack = AcknowledgeAlert_h \<lparr>ah_hub = True\<rparr> (\<lambda>_. (\<lparr>ack_User = '''', ack_Comment = ''''\<rparr>, True))
     new_response (demo_request ''POST'' ''al1'') incident_env"

theorem acknowledge_endpoint_witness:
  "map (\<lambda>a. (ar_status a, ar_acknowledged_by a)) (alerts (snd demo_ack)) = [(''acknowledged'', Some ''operator'')]"
proof -
  have "Method (demo_request ''POST'' ''al1'') = ''POST''" "PathValue (demo_request ''POST'' ''al1'') ''id'' \<noteq> ''''"
    "status (new_response :: alert_json response) = None" by (simp_all add: demo_request_def)
  from acknowledge_endpoint [OF incident_env_ok this(3,1,2) _ refl, of "\<lparr>ah_hub = True\<rparr>"
      "\<lambda>_. (\<lparr>ack_User = '''', ack_Comment = ''''\<rparr>, True)" "fst demo_ack" "snd demo_ack"]
  show ?thesis
    unfolding demo_ack_def
    by (auto simp: incident_env_def demo_alert_row_def demo_request_def acknowledge_row_def ack_by_def)
qed

text \<open>
  A rule is stored as it was validated.  With a working database the endpoint answers 201 exactly
  when a row was added, under an id that was not in use: its name, metric and operator are not blank,
  its integers fit their columns, and its severity is \<open>warning\<close> when none was given.  Every other
  answer leaves the rules alone.
\<close>

theorem create_rule_validated:
  assumes "reliable s" and "status w = None" and "CreateRule_h decode w r s = (w', s')"
  shows "(status w' = Some 201 \<and>
      (\<exists>rule. alert_rules s' = alert_rules s @ [rule] \<and> ru_ID rule \<notin> ru_ID ` set (alert_rules s) \<and>
         rule_complete rule \<and> rule_ints_ok rule \<and> ru_Severity rule \<noteq> '''' \<and>
         ru_ID rule \<in> {ru_ID (fst (decode (Body r))), rule_id (ru_Metric rule) (clock s (clock_pos s))} \<and>
         ru_Threshold rule = ru_Threshold (fst (decode (Body r))) \<and>
         chunks w' = chunks w @ [B_json (AJ_rule rule)])) \<or>
    (status w' \<in> {Some 400, Some 405, Some 500} \<and> alert_rules s' = alert_rules s)"
proof (cases "Method r = ''POST'' \<and> \<not> snd (decode (Body r)) \<and> rule_complete (fst (decode (Body r)))")
  case False
  then show ?thesis
    using assms(2,3) by (auto simp: CreateRule_h_def case_prod_beta split: if_splits)
next
  case True
  define rule where "rule = fst (decode (Body r))"
  have body: "decode (Body r) = (rule, False)" using True by (simp add: rule_def prod_eq_iff)
  define t where "t = (if ru_ID rule = '''' then s\<lparr>clock_pos := Suc (clock_pos s)\<rparr> else s)"
  define named where "named = (if ru_ID rule = '''' then rule\<lparr>ru_ID := rule_id (ru_Metric rule) (clock s (clock_pos s))\<rparr> else rule)"
  have t: "reliable t" "alert_rules t = alert_rules s" using assms(1) by (simp_all add: t_def reliable_def)
  have named: "rule_complete named" "ru_ID named \<in> {ru_ID rule, rule_id (ru_Metric rule) (clock s (clock_pos s))}"
    "ru_Metric named = ru_Metric rule" "ru_Threshold named = ru_Threshold rule"
    using True by (auto simp: named_def rule_def rule_complete_def)
  have sev: "rule_complete (default_severity named) = rule_complete named" "ru_ID (default_severity named) = ru_ID named"
    "rule_ints_ok (default_severity named) = rule_ints_ok named" "ru_Severity (default_severity named) \<noteq> ''''"
    "ru_Metric (default_severity named) = ru_Metric named" "ru_Threshold (default_severity named) = ru_Threshold named"
    by (simp_all add: default_severity_def rule_complete_def rule_ints_ok_def)
  have run: "CreateRule_h decode w r s = (case alert_CreateRule named t of
       (Inl _, s2) \<Rightarrow> (sendError_flat ''failed to create alert rule'' 500 w, s2)
     | (Inr created, s2) \<Rightarrow> (sendJSON 201 (AJ_rule created) w, s2))"
    using True [folded rule_def] by (simp add: CreateRule_h_def body named_def t_def time_Now_def)
  have create: "alert_CreateRule named t = insert_rule (default_severity named) (t\<lparr>fault_pos := Suc (fault_pos t)\<rparr>)"
    by (simp add: alert_CreateRule_def db_run_reliable [OF t(1)])
  let ?good = "rule_ints_ok named \<and> ru_ID named \<notin> ru_ID ` set (alert_rules s)"
  define row where "row = (default_severity named)\<lparr>ru_CreatedAt := clock t (clock_pos t), ru_UpdatedAt := clock t (clock_pos t)\<rparr>"
  have row: "ru_ID row = ru_ID named" "rule_complete row = rule_complete named" "rule_ints_ok row = rule_ints_ok named"
    "ru_Severity row \<noteq> ''''" "ru_Metric row = ru_Metric named" "ru_Threshold row = ru_Threshold named"
    using sev by (simp_all add: row_def rule_complete_def rule_ints_ok_def)
  show ?thesis
  proof (cases ?good)
    case True
    then have "w' = sendJSON 201 (AJ_rule row) w" "alert_rules s' = alert_rules s @ [row]"
      using assms(3) unfolding run create
      by (auto simp: insert_rule_def time_Now_def Let_def sev t(2) row_def)
    then show ?thesis
      using assms(2) True named row by (intro disjI1 conjI exI [of _ row]) (auto simp: body)
  next
    case False
    then have "w' = sendError_flat ''failed to create alert rule'' 500 w" "alert_rules s' = alert_rules s"
      using assms(3) unfolding run create
      by (auto simp: insert_rule_def time_Now_def Let_def sev t(2) split: if_splits)
    then show ?thesis using assms(2) by simp
  qed
qed


definition demo_create_rule :: "alert_json response \<times> hub_env" where
  "demo_create_rule = CreateRule_h (\<lambda>_. (demo_rule_row\<lparr>ru_ID := '''', ru_Severity := ''''\<rparr>, False))
     new_response (demo_request ''POST'' '''') incident_env"

theorem create_rule_validated_witness:
  "\<exists>rule. alert_rules (snd demo_create_rule) = [demo_rule_row, rule] \<and> ru_ID rule = ''rule-cpu_usage-7'' \<and>
          ru_Severity rule \<noteq> ''''"
proof -
  have st: "status (fst demo_create_rule) = Some 201" and i: "rule_id ''cpu_usage'' 7 = ''rule-cpu_usage-7''"
    and ids: "map ru_Metric (alert_rules (snd demo_create_rule)) = [''cpu_usage'', ''cpu_usage'']"
      "map ru_ID (alert_rules (snd demo_create_rule)) = [''r1'', ''rule-cpu_usage-7'']"
    by code_simp+
  have "status (new_response :: alert_json response) = None" by simp
  from create_rule_validated [OF incident_env_ok(1) this, of "\<lambda>_. (demo_rule_row\<lparr>ru_ID := '''', ru_Severity := ''''\<rparr>, False)"
      "demo_request ''POST'' ''''" "fst demo_create_rule" "snd demo_create_rule"] st
  obtain rule where "alert_rules (snd demo_create_rule) = alert_rules incident_env @ [rule]" "ru_Severity rule \<noteq> ''''"
    unfolding demo_create_rule_def by auto
  then show ?thesis using ids by (intro exI [of _ rule]) (simp add: incident_env_def)
qed

text \<open>
  Updating a rule.  With a working database the endpoint answers 200 exactly when the body
  decodes, the path names a rule and the integers fit; it then replaces every field of this rule,
  also by blank ones (nothing is validated, and a field missing in the body is reset), except for
  its id, which is that of the path, and the time it was created.  Otherwise the rules stay.
\<close>

theorem update_rule_endpoint:
  assumes "reliable s" and "schema_ok s" and "status w = None" and "Method r = ''PUT''" and "PathValue r ''id'' \<noteq> ''''"
    and "decode (Body r) = (rule, bad)" and "UpdateRule_h decode w r s = (w', s')"
  shows "if \<not> bad \<and> PathValue r ''id'' \<in> ru_ID ` set (alert_rules s) \<and> rule_ints_ok rule
    then status w' = Some 200 \<and>
      alert_rules s' = map (\<lambda>old. if ru_ID old = PathValue r ''id''
        then (default_severity rule)\<lparr>ru_ID := ru_ID old, ru_CreatedAt := ru_CreatedAt old, ru_UpdatedAt := clock s (clock_pos s)\<rparr>
        else old) (alert_rules s)
    else status w' \<in> {Some 400, Some 500} \<and> alert_rules s' = alert_rules s"
proof (cases bad)
  case True
  then show ?thesis using assms(3-7) by (auto simp: UpdateRule_h_def)
next
  case False
  let ?i = "PathValue r ''id''"
  let ?new = "default_severity (rule\<lparr>ru_ID := ?i\<rparr>)"
  let ?f = "\<lambda>old. ?new\<lparr>ru_ID := ru_ID old, ru_CreatedAt := ru_CreatedAt old, ru_UpdatedAt := clock s (clock_pos s)\<rparr>"
  have new: "ru_ID ?new = ?i" "rule_ints_ok ?new = rule_ints_ok rule"
    "?f old = (default_severity rule)\<lparr>ru_ID := ru_ID old, ru_CreatedAt := ru_CreatedAt old, ru_UpdatedAt := clock s (clock_pos s)\<rparr>" for old
    by (simp_all add: default_severity_def rule_ints_ok_def)
  have run: "UpdateRule_h decode w r s = (case update_rule ?new (s\<lparr>fault_pos := Suc (fault_pos s)\<rparr>) of
       (Inl _, s1) \<Rightarrow> (sendError_flat ''failed to update alert rule'' 500 w, s1)
     | (Inr updated, s1) \<Rightarrow> (sendJSON 200 (AJ_rule updated) w, s1))"
    using False assms(4-6) by (simp add: UpdateRule_h_def alert_UpdateRule_def db_run_reliable [OF assms(1)])
  show ?thesis
  proof (cases "?i \<in> ru_ID ` set (alert_rules s) \<and> rule_ints_ok rule")
    case True
    then obtain old where old: "old \<in> set (alert_rules s)" "ru_ID old = ?i" by auto
    have "update_returning (\<lambda>x. ru_ID x = ?i) ?f (alert_rules s) =
        (Inr (?f old), map (\<lambda>x. if ru_ID x = ru_ID old then ?f x else x) (alert_rules s))"
      by (rule update_returning_key) (use assms(2) old in \<open>auto simp: schema_defs\<close>)
    then have upd: "update_rule ?new (s\<lparr>fault_pos := Suc (fault_pos s)\<rparr>) =
        (Inr (?f old), s\<lparr>fault_pos := Suc (fault_pos s), clock_pos := Suc (clock_pos s),
           alert_rules := map (\<lambda>x. if ru_ID x = ?i then ?f x else x) (alert_rules s)\<rparr>)"
      using True by (simp add: update_rule_def time_Now_def new(1,2) old(2))
    show ?thesis
      using assms(3,7) True \<open>\<not> bad\<close> unfolding run upd by (auto simp: default_severity_def)
  next
    case False
    have "update_returning (\<lambda>x. ru_ID x = ?i) ?f (alert_rules s) = (Inl NoRows, alert_rules s)"
      if "?i \<notin> ru_ID ` set (alert_rules s)"
      using that by (rule update_returning_absent)
    then show ?thesis
      using assms(3,7) False unfolding run by (auto simp: update_rule_def time_Now_def new(1,2) split: if_splits)
  qed
qed

definition demo_update_rule :: "alert_json response \<times> hub_env" where
  "demo_update_rule = UpdateRule_h (\<lambda>_. (demo_rule_row\<lparr>ru_ID := ''other'', ru_Name := ''''\<rparr>, False))
     new_response (demo_request ''PUT'' ''r1'') incident_env"

theorem update_rule_endpoint_witness:
  "map (\<lambda>x. (ru_ID x, ru_Name x, ru_UpdatedAt x)) (alert_rules (snd demo_update_rule)) = [(''r1'', '''', 7)]"
proof -
  have "status (new_response :: alert_json response) = None" "Method (demo_request ''PUT'' ''r1'') = ''PUT''"
    "PathValue (demo_request ''PUT'' ''r1'') ''id'' \<noteq> ''''" by (simp_all add: demo_request_def)
  from update_rule_endpoint [OF incident_env_ok this, where decode = "\<lambda>_. (demo_rule_row\<lparr>ru_ID := ''other'', ru_Name := ''''\<rparr>, False)"
      and w' = "fst demo_update_rule" and s' = "snd demo_update_rule" and bad = False]
  show ?thesis
    unfolding demo_update_rule_def
    by (simp add: incident_env_def demo_rule_row_def demo_request_def rule_ints_ok_def int4_def default_severity_def)
qed

end
