(* ===== verification/Auth.thy ===== *)
theory Auth
  imports Database Http
begin

text \<open>
  internal/auth/auth.go: roles, the authentication middleware, the role guard and the endpoints for
  API tokens.  SHA-256 is the argument \<open>sha256\<close> (bytes to bytes) and the bytes of rand.Read are the
  argument \<open>entropy\<close>; nothing is assumed about either.  The goroutine that notes the last use of a
  token runs where it is started; only the list of tokens shows the column it writes.
\<close>

section \<open>Roles\<close>

definition RoleViewer :: string where "RoleViewer = ''viewer''"
definition RoleOperator :: string where "RoleOperator = ''operator''"
definition RoleAdmin :: string where "RoleAdmin = ''admin''"

lemmas role_defs = RoleViewer_def RoleOperator_def RoleAdmin_def

definition hasPermission :: "string \<Rightarrow> string \<Rightarrow> bool" where
  "hasPermission userRole required =
     (if userRole = RoleAdmin then True
      else if userRole = RoleOperator \<and> (required = RoleOperator \<or> required = RoleViewer) then True
      else if userRole = RoleViewer \<and> required = RoleViewer then True
      else False)"

definition Role_IsValid :: "string \<Rightarrow> bool" where
  "Role_IsValid r \<longleftrightarrow> r = RoleViewer \<or> r = RoleOperator \<or> r = RoleAdmin"

section \<open>Hexadecimal encoding\<close>

definition hex_digit :: "nat \<Rightarrow> char" where
  "hex_digit d = char_of (if d < 10 then 48 + d else 87 + d)"

definition hex_EncodeToString :: "string \<Rightarrow> string" where
  "hex_EncodeToString bs = concat (map (\<lambda>c. [hex_digit (of_char c div 16), hex_digit (of_char c mod 16)]) bs)"

section \<open>The middleware\<close>

record Authenticator =
  au_authEnabled :: bool

type_synonym ('p, 'c, 'a) chandler =
  "'p response \<Rightarrow> request \<Rightarrow> 'c \<times> 'a db_env_scheme \<Rightarrow> 'p response \<times> ('c \<times> 'a db_env_scheme)"

text \<open>The bodies of the errors of this package, all of the shape that the JSON errors have.\<close>

definition error_body :: "string \<Rightarrow> string" where
  "error_body message = ''{\"error\":{\"message\":\"'' @ message @ ''\"}}''"

definition writeUnauthorized :: "string \<Rightarrow> 'p response \<Rightarrow> 'p response" where
  "writeUnauthorized message w =
     http_Error (error_body message) 401
       (Header_Set ''Content-Type'' ''application/json''
         (Header_Set ''WWW-Authenticate'' ''Bearer realm=\"OpsNexus\"'' w))"

definition token_alive :: "time \<Rightarrow> APIToken \<Rightarrow> bool" where
  "token_alive now t \<longleftrightarrow> tk_Enabled t \<and> (case tk_ExpiresAt t of None \<Rightarrow> True | Some e \<Rightarrow> e > now)"

text \<open>The query does not select the hash.\<close>

definition scan_token :: "APIToken \<Rightarrow> APIToken" where
  "scan_token t = t\<lparr>tk_TokenHash := ''''\<rparr>"

definition find_token :: "string \<Rightarrow> 'a db_env_scheme \<Rightarrow> (dberr + APIToken) \<times> 'a db_env_scheme" where
  "find_token tokenHash =
     db_run (\<lambda>s. (case time_Now s of (now, s1) \<Rightarrow>
       ((case select_one (\<lambda>t. tk_TokenHash t = tokenHash \<and> token_alive now t) (api_tokens s1) of
           Inl e \<Rightarrow> Inl e | Inr t \<Rightarrow> Inr (scan_token t)), s1)))"

definition touch_token :: "string \<Rightarrow> 'a db_env_scheme \<Rightarrow> (dberr + unit) \<times> 'a db_env_scheme" where
  "touch_token tokenID =
     db_run (\<lambda>s. (case time_Now s of (now, s1) \<Rightarrow>
       (Inr (), s1\<lparr>api_tokens :=
          map (\<lambda>t. if tk_ID t = tokenID then t\<lparr>tk_LastUsedAt := Some now\<rparr> else t) (api_tokens s1)\<rparr>)))"

definition token_hash :: "(string \<Rightarrow> string) \<Rightarrow> string \<Rightarrow> string" where
  "token_hash sha256 rawToken = hex_EncodeToString (sha256 rawToken)"

definition public_path :: "string \<Rightarrow> bool" where
  "public_path p \<longleftrightarrow> p = ''/health'' \<or> p = ''/api/v1/events''"

definition Middleware ::
  "(string \<Rightarrow> string) \<Rightarrow> Authenticator \<Rightarrow> ('p, 'c, 'a) chandler \<Rightarrow> ('p, 'c, 'a) chandler"
where
  "Middleware sha256 a next_h w r st =
     (case st of (c, s) \<Rightarrow>
       if \<not> au_authEnabled a then next_h w (r\<lparr>ctx_role := Some RoleAdmin\<rparr>) (c, s)
       else if public_path (URL_Path r) then next_h w r (c, s)
       else
         (let authHeader = Header_Get r ''Authorization'' in
          if \<not> HasPrefix authHeader ''Bearer '' then (writeUnauthorized ''unauthorized'' w, (c, s))
          else
            (let rawToken = TrimPrefix authHeader ''Bearer '' in
             case find_token (token_hash sha256 rawToken) s of
               (Inl e, s1) \<Rightarrow>
                 (if e = NoRows then (writeUnauthorized ''invalid token'' w, (c, s1))
                  else (http_Error (error_body ''authentication error'') 500 w, (c, s1)))
             | (Inr tok, s1) \<Rightarrow>
                 (case touch_token (tk_ID tok) s1 of (_, s2) \<Rightarrow>
                    next_h w (r\<lparr>ctx_role := Some (tk_Role tok), ctx_token := Some (tk_ID tok)\<rparr>) (c, s2)))))"

definition RequireRole ::
  "string \<Rightarrow> ('p response \<Rightarrow> request \<Rightarrow> 's \<Rightarrow> 'p response \<times> 's) \<Rightarrow>
   'p response \<Rightarrow> request \<Rightarrow> 's \<Rightarrow> 'p response \<times> 's"
where
  "RequireRole required next_h w r s =
     (case ctx_role r of
        None \<Rightarrow>
          (http_Error (error_body ''forbidden'') 403
             (Header_Set ''Content-Type'' ''application/json'' w), s)
      | Some role \<Rightarrow>
          if \<not> hasPermission role required
          then (http_Error (error_body ''insufficient permissions'') 403
                  (Header_Set ''Content-Type'' ''application/json'' w), s)
          else next_h w r s)"

section \<open>The token endpoints\<close>

datatype token_json =
    TJ_tokens "APIToken list"
  | TJ_created APIToken string

type_synonym 'a token_handler =
  "token_json response \<Rightarrow> request \<Rightarrow> 'a db_env_scheme \<Rightarrow> token_json response \<times> 'a db_env_scheme"

text \<open>An answer without WriteHeader: the first Write sends 200.\<close>

definition send_tokens :: "token_json \<Rightarrow> token_json response \<Rightarrow> token_json response" where
  "send_tokens v w = Write (B_json v) (Header_Set ''Content-Type'' ''application/json'' w)"

definition ListTokens_h :: "'a token_handler" where
  "ListTokens_h w r s =
     (if Method r \<noteq> ''GET'' then (http_Error (error_body ''method not allowed'') 405 w, s)
      else (case db_Query (\<lambda>s. map scan_token (sort_key (\<lambda>t. - tk_CreatedAt t) (api_tokens s))) s of
          (Inl _, s1) \<Rightarrow> (http_Error (error_body ''failed to list tokens'') 500 w, s1)
        | (Inr (tokens, _), s1) \<Rightarrow> (send_tokens (TJ_tokens tokens) w, s1)))"

record createTokenReq =
  ct_Name :: string
  ct_Role :: string

definition chosen_role :: "createTokenReq \<Rightarrow> string" where
  "chosen_role req = (if ct_Role req = '''' then RoleOperator else ct_Role req)"

definition raw_token :: "string \<Rightarrow> string" where
  "raw_token entropy = ''opsnexus_'' @ hex_EncodeToString entropy"

definition token_id :: "time \<Rightarrow> string" where
  "token_id now = ''tok-'' @ show_int (UnixNano now)"

definition insert_token ::
  "string \<Rightarrow> string \<Rightarrow> string \<Rightarrow> string \<Rightarrow> 'a db_env_scheme \<Rightarrow> (dberr + APIToken) \<times> 'a db_env_scheme"
where
  "insert_token i name hash role =
     db_run (\<lambda>s. (case time_Now s of (now, s1) \<Rightarrow>
       let row = \<lparr>tk_ID = i, tk_Name = name, tk_TokenHash = hash, tk_Role = role, tk_Enabled = True,
                  tk_CreatedAt = now, tk_LastUsedAt = None, tk_ExpiresAt = None\<rparr> in
       if i \<in> tk_ID ` set (api_tokens s1) \<or> hash \<in> tk_TokenHash ` set (api_tokens s1)
       then (Inl Constraint, s1)
       else (Inr (scan_token row), s1\<lparr>api_tokens := api_tokens s1 @ [row]\<rparr>)))"

definition CreateToken_h ::
  "(string \<Rightarrow> string) \<Rightarrow> string \<Rightarrow> createTokenReq decoder \<Rightarrow> 'a token_handler"
where
  "CreateToken_h sha256 entropy decode w r s =
     (if Method r \<noteq> ''POST'' then (http_Error (error_body ''method not allowed'') 405 w, s)
      else (case decode (Body r) of (req, bad) \<Rightarrow>
        if bad \<or> TrimSpace (ct_Name req) = ''''
        then (http_Error (error_body ''token name is required'') 400 w, s)
        else
          (let role = chosen_role req in
           if \<not> Role_IsValid role
           then (http_Error (error_body ''invalid token role'') 400 w, s)
           else
             (case time_Now s of (now, s1) \<Rightarrow>
              case insert_token (token_id now) (ct_Name req)
                     (token_hash sha256 (raw_token entropy)) role s1 of
                (Inl _, s2) \<Rightarrow> (http_Error (error_body ''failed to create token'') 500 w, s2)
              | (Inr created, s2) \<Rightarrow> (sendJSON 201 (TJ_created created (raw_token entropy)) w, s2)))))"

definition delete_token :: "string \<Rightarrow> 'a db_env_scheme \<Rightarrow> (dberr + unit) \<times> 'a db_env_scheme" where
  "delete_token i = db_run (\<lambda>s. (Inr (), s\<lparr>api_tokens := filter (\<lambda>t. tk_ID t \<noteq> i) (api_tokens s)\<rparr>))"

definition DeleteToken_h :: "'a token_handler" where
  "DeleteToken_h w r s =
     (if Method r \<noteq> ''DELETE'' then (http_Error (error_body ''method not allowed'') 405 w, s)
      else if PathValue r ''id'' = ''''
      then (http_Error (error_body ''token ID is required'') 400 w, s)
      else (case delete_token (PathValue r ''id'') s of
          (Inl _, s1) \<Rightarrow> (http_Error (error_body ''failed to delete token'') 500 w, s1)
        | (Inr _, s1) \<Rightarrow> (WriteHeader 204 w, s1)))"

section \<open>Roles as a lattice of levels\<close>

datatype role = Viewer | Operator | Admin

fun role_name :: "role \<Rightarrow> string" where
  "role_name Viewer = ''viewer''"
| "role_name Operator = ''operator''"
| "role_name Admin = ''admin''"

fun role_level :: "role \<Rightarrow> nat" where
  "role_level Viewer = 0"
| "role_level Operator = 1"
| "role_level Admin = 2"

instantiation role :: linorder
begin

definition less_eq_role :: "role \<Rightarrow> role \<Rightarrow> bool" where
  "less_eq_role a b \<longleftrightarrow> role_level a \<le> role_level b"

definition less_role :: "role \<Rightarrow> role \<Rightarrow> bool" where
  "less_role a b \<longleftrightarrow> role_level a < role_level b"

instance
proof
  fix x y z :: role
  show "x < y \<longleftrightarrow> x \<le> y \<and> \<not> y \<le> x" by (auto simp: less_eq_role_def less_role_def)
  show "x \<le> x" by (simp add: less_eq_role_def)
  show "x \<le> y \<Longrightarrow> y \<le> z \<Longrightarrow> x \<le> z" by (simp add: less_eq_role_def)
  show "x \<le> y \<Longrightarrow> y \<le> x \<Longrightarrow> x = y" by (cases x; cases y) (simp_all add: less_eq_role_def)
  show "x \<le> y \<or> y \<le> x" by (auto simp: less_eq_role_def)
qed

end

definition role_of :: "string \<Rightarrow> role option" where
  "role_of n = (if n = ''viewer'' then Some Viewer else if n = ''operator'' then Some Operator
     else if n = ''admin'' then Some Admin else None)"

lemma role_of_name [simp]: "role_of (role_name x) = Some x"
  by (cases x) (simp_all add: role_of_def)

lemma Role_IsValid_role_of: "Role_IsValid n \<longleftrightarrow> role_of n \<noteq> None"
  by (simp add: Role_IsValid_def role_of_def role_defs)


section \<open>What the statements do\<close>

definition tokens_only :: "'a db_env_scheme \<Rightarrow> 'a db_env_scheme \<Rightarrow> bool" where
  "tokens_only s t \<longleftrightarrow>
     t\<lparr>clock_pos := clock_pos s, fault_pos := fault_pos s, api_tokens := api_tokens s\<rparr> = s"

text \<open>The state after an oracle has moved, with the same tables.\<close>

definition moved :: "'a db_env_scheme \<Rightarrow> 'a db_env_scheme \<Rightarrow> bool" where
  "moved s t \<longleftrightarrow> t\<lparr>clock_pos := clock_pos s, fault_pos := fault_pos s\<rparr> = s"

lemma moved_db_run:
  assumes "\<And>u. \<exists>n. snd (stmt u) = u\<lparr>clock_pos := n\<rparr>"
  shows "moved s (snd (db_run stmt s))"
proof (rule db_run_state)
  obtain n where "snd (stmt (s\<lparr>fault_pos := Suc (fault_pos s)\<rparr>)) = s\<lparr>fault_pos := Suc (fault_pos s), clock_pos := n\<rparr>"
    using assms by blast
  then show "moved s (snd (stmt (s\<lparr>fault_pos := Suc (fault_pos s)\<rparr>)))" by (simp add: moved_def)
qed (simp add: moved_def)

lemma find_token_moved: "moved s (snd (find_token h s))"
  unfolding find_token_def by (rule moved_db_run) (auto simp: time_Now_def)

lemma find_token_Inr:
  assumes "find_token h s = (Inr tok, s1)"
  obtains t where "t \<in> set (api_tokens s)" "tk_TokenHash t = h" "token_alive (clock s (clock_pos s)) t" "tok = scan_token t"
proof -
  from assms have "(case select_one (\<lambda>t. tk_TokenHash t = h \<and> token_alive (clock s (clock_pos s)) t) (api_tokens s) of
      Inl e \<Rightarrow> Inl e | Inr t \<Rightarrow> Inr (scan_token t)) = Inr tok"
    unfolding find_token_def by (auto dest!: db_run_Inr simp: time_Now_def)
  then obtain t where "select_one (\<lambda>t. tk_TokenHash t = h \<and> token_alive (clock s (clock_pos s)) t) (api_tokens s) = Inr t"
      "tok = scan_token t" by (auto split: sum.splits)
  with that show thesis by (auto dest: select_one_Inr)
qed

lemma touch_token_tokens_only: "tokens_only s (snd (touch_token i s))"
  unfolding touch_token_def by (rule db_run_state) (simp_all add: tokens_only_def time_Now_def)

lemma HasPrefix_TrimPrefix: "HasPrefix s p \<Longrightarrow> s = p @ TrimPrefix s p"
  using append_take_drop_id [of "length p" s] by (simp add: HasPrefix_def TrimPrefix_def)

lemma TrimPrefix_append [simp]: "TrimPrefix (p @ s) p = s" "HasPrefix (p @ s) p"
  by (simp_all add: HasPrefix_def TrimPrefix_def)

lemma bearer_token:
  assumes "h = ''Bearer '' @ raw"
  shows "HasPrefix h ''Bearer ''" and "TrimPrefix h ''Bearer '' = raw"
  unfolding assms by (rule TrimPrefix_append)+

lemma writeUnauthorized_status [simp]: "status w = None \<Longrightarrow> status (writeUnauthorized m w) = Some 401"
  by (simp add: writeUnauthorized_def)

lemma scan_token_fields [simp]:
  "tk_ID (scan_token t) = tk_ID t" "tk_Role (scan_token t) = tk_Role t" "tk_Name (scan_token t) = tk_Name t"
  by (simp_all add: scan_token_def)

text \<open>The two ways a request to a path that is not public can go.\<close>

lemma Middleware_on:
  assumes "au_authEnabled a" and "\<not> public_path (URL_Path r)"
  obtains (pass) t raw where "t \<in> set (api_tokens s)" "Header_Get r ''Authorization'' = ''Bearer '' @ raw"
      "tk_TokenHash t = token_hash sha raw" "token_alive (clock s (clock_pos s)) t"
      "Middleware sha a next_h w r (c, s) =
         next_h w (r\<lparr>ctx_role := Some (tk_Role t), ctx_token := Some (tk_ID t)\<rparr>)
           (c, snd (touch_token (tk_ID t) (snd (find_token (token_hash sha raw) s))))"
  | (refuse) w' s1 where "Middleware sha a next_h w r (c, s) = (w', (c, s1))"
      "s1 = s \<or> (\<exists>h. s1 = snd (find_token h s))" "status w = None \<longrightarrow> status w' = Some 401 \<or> status w' = Some 500"
proof (cases "HasPrefix (Header_Get r ''Authorization'') ''Bearer ''")
  case False
  then show ?thesis using assms by (intro refuse) (auto simp: Middleware_def)
next
  case True
  define raw where "raw = TrimPrefix (Header_Get r ''Authorization'') ''Bearer ''"
  have auth: "Header_Get r ''Authorization'' = ''Bearer '' @ raw"
    using HasPrefix_TrimPrefix [OF True] by (simp add: raw_def)
  obtain res s1 where find: "find_token (token_hash sha raw) s = (res, s1)" by fastforce
  show ?thesis
  proof (cases res)
    case (Inl e)
    define w' where "w' = (if e = NoRows then writeUnauthorized ''invalid token'' w
      else http_Error (error_body ''authentication error'') 500 w)"
    have "Middleware sha a next_h w r (c, s) = (w', (c, s1))"
      using assms True find Inl by (simp add: Middleware_def Let_def raw_def w'_def)
    moreover have "s1 = snd (find_token (token_hash sha raw) s)" by (simp add: find)
    moreover have "status w = None \<longrightarrow> status w' = Some 401 \<or> status w' = Some 500" by (auto simp: w'_def)
    ultimately show ?thesis by (intro refuse) blast+
  next
    case (Inr tok)
    obtain t where t: "t \<in> set (api_tokens s)" "tk_TokenHash t = token_hash sha raw"
        "token_alive (clock s (clock_pos s)) t" "tok = scan_token t"
      by (rule find_token_Inr [OF find [unfolded Inr]]) blast
    have "Middleware sha a next_h w r (c, s) =
        next_h w (r\<lparr>ctx_role := Some (tk_Role t), ctx_token := Some (tk_ID t)\<rparr>) (c, snd (touch_token (tk_ID t) s1))"
      using assms True find Inr t(4) by (simp add: Middleware_def Let_def raw_def case_prod_beta)
    moreover have "s1 = snd (find_token (token_hash sha raw) s)" by (simp add: find)
    ultimately show ?thesis using t auth by (intro pass [of t raw]) simp_all
  qed
qed

text \<open>With a working database: a live row whose hash no other row has is the one that is found.\<close>

lemma find_token_row:
  assumes "reliable s" and "distinct (map tk_TokenHash (api_tokens s))" and "t \<in> set (api_tokens s)"
    and "token_alive (clock s (clock_pos s)) t"
  shows "find_token (tk_TokenHash t) s =
    (Inr (scan_token t), s\<lparr>fault_pos := Suc (fault_pos s), clock_pos := Suc (clock_pos s)\<rparr>)"
proof -
  have "select_one (\<lambda>x. tk_TokenHash x = tk_TokenHash t \<and> token_alive (clock s (clock_pos s)) x) (api_tokens s) = Inr t"
    by (rule select_one_key [OF assms(2,3)]) (use assms(4) in auto)
  then show ?thesis by (simp add: find_token_def db_run_reliable [OF assms(1)] time_Now_def)
qed

lemma find_token_none:
  assumes "reliable s" and "h \<notin> tk_TokenHash ` set (api_tokens s)"
  shows "find_token h s = (Inl NoRows, s\<lparr>fault_pos := Suc (fault_pos s), clock_pos := Suc (clock_pos s)\<rparr>)"
proof -
  have "select_one (\<lambda>x. tk_TokenHash x = h \<and> token_alive (clock s (clock_pos s)) x) (api_tokens s) = Inl NoRows"
    using assms(2) by (auto simp: select_one_Inl)
  then show ?thesis by (simp add: find_token_def db_run_reliable [OF assms(1)] time_Now_def)
qed

lemma insert_token_reliable:
  assumes "reliable s"
  shows "insert_token i n h role s =
    (let s2 = s\<lparr>fault_pos := Suc (fault_pos s), clock_pos := Suc (clock_pos s)\<rparr>;
         row = \<lparr>tk_ID = i, tk_Name = n, tk_TokenHash = h, tk_Role = role, tk_Enabled = True,
                tk_CreatedAt = clock s (clock_pos s), tk_LastUsedAt = None, tk_ExpiresAt = None\<rparr>
     in if i \<in> tk_ID ` set (api_tokens s) \<or> h \<in> tk_TokenHash ` set (api_tokens s) then (Inl Constraint, s2)
        else (Inr (scan_token row), s2\<lparr>api_tokens := api_tokens s @ [row]\<rparr>))"
  using assms by (simp add: insert_token_def db_run_reliable time_Now_def Let_def)

section \<open>The table of tokens\<close>

definition tokens_ok :: "'a db_env_scheme \<Rightarrow> bool" where
  "tokens_ok s \<longleftrightarrow>
     distinct (map tk_ID (api_tokens s)) \<and> distinct (map tk_TokenHash (api_tokens s)) \<and>
     (\<forall>t \<in> set (api_tokens s). Role_IsValid (tk_Role t))"

lemma tokens_ok_pos [simp]: "tokens_ok (s\<lparr>clock_pos := n\<rparr>) = tokens_ok s" "tokens_ok (s\<lparr>fault_pos := n\<rparr>) = tokens_ok s"
  by (simp_all add: tokens_ok_def)

lemma tokens_ok_insert: "tokens_ok s \<Longrightarrow> Role_IsValid role \<Longrightarrow> tokens_ok (snd (insert_token i n h role s))"
  unfolding insert_token_def by (rule db_run_state) (auto simp: time_Now_def Let_def tokens_ok_def)

lemma tokens_ok_delete: "tokens_ok s \<Longrightarrow> tokens_ok (snd (delete_token i s))"
  unfolding delete_token_def by (rule db_run_state) (auto simp: tokens_ok_def distinct_filter_key)

lemma tokens_ok_touch: "tokens_ok s \<Longrightarrow> tokens_ok (snd (touch_token i s))"
  unfolding touch_token_def
  by (rule db_run_state) (auto simp: tokens_ok_def time_Now_def map_key_update simp del: map_map)

lemma moved_tokens: "moved s t \<Longrightarrow> api_tokens t = api_tokens s"
  unfolding moved_def by (drule arg_cong [where f = api_tokens]) simp


lemma moved_tokens_only: "moved s u \<Longrightarrow> tokens_only u t \<Longrightarrow> tokens_only s t"
  by (cases s; cases u; cases t) (simp add: moved_def tokens_only_def)

lemma CreateToken_faults: "faults (snd (CreateToken_h sha256 entropy decode w r s)) = faults s"
proof -
  have "faults (snd (insert_token i n h role t)) = faults t" for i n h role and t :: "'a db_env_scheme"
    unfolding insert_token_def by (rule db_run_state) (simp_all add: time_Now_def Let_def)
  then show ?thesis by (simp add: CreateToken_h_def case_prod_beta Let_def time_Now_def split: sum.split)
qed

section \<open>Properties\<close>

text \<open>
  C26: Permission is the order of the roles.  A role permits what a required role asks for exactly
  when it is admin or both are known roles and the required one is at most as high, in the linear
  order viewer, operator, admin; an unknown role permits nothing.
\<close>

theorem permission_is_order:
  "hasPermission u q \<longleftrightarrow> role_of u = Some Admin \<or> (\<exists>a b. role_of u = Some a \<and> role_of q = Some b \<and> b \<le> a)"
  by (auto simp: hasPermission_def role_of_def role_defs less_eq_role_def)

text \<open>
  Nothing passes without a live token.  With authentication on, a request to a path that is not
  public either reaches the next handler with the role of a row of the table that is enabled, not
  expired at the reading of the clock, and whose hash is that of the bearer token sent, or it is
  answered with 401 or 500 and no table changes, whatever the database does.
\<close>

theorem auth_guard:
  assumes "au_authEnabled a" and "\<not> public_path (URL_Path r)" and "status w = None"
  shows "(\<exists>t \<in> set (api_tokens s). \<exists>raw s1. Header_Get r ''Authorization'' = ''Bearer '' @ raw \<and>
            tk_TokenHash t = token_hash sha256 raw \<and> token_alive (clock s (clock_pos s)) t \<and> tokens_only s s1 \<and>
            Middleware sha256 a next_h w r (c, s) =
              next_h w (r\<lparr>ctx_role := Some (tk_Role t), ctx_token := Some (tk_ID t)\<rparr>) (c, s1)) \<or>
         (\<exists>w' s1. Middleware sha256 a next_h w r (c, s) = (w', (c, s1)) \<and>
            status w' \<in> {Some 401, Some 500} \<and> moved s s1)"
  using assms(1,2)
proof (cases rule: Middleware_on [where sha = sha256 and next_h = next_h and w = w and c = c and s = s])
  case (pass t raw)
  have "tokens_only s (snd (touch_token (tk_ID t) (snd (find_token (token_hash sha256 raw) s))))"
    by (rule moved_tokens_only [OF find_token_moved touch_token_tokens_only])
  with pass show ?thesis by blast
next
  case (refuse w' s1)
  then show ?thesis using assms(3) find_token_moved [of s] by (auto simp: moved_def)
qed


definition demo_sha :: "string \<Rightarrow> string" where
  "demo_sha s = (if s = ''abc'' then ''A'' else ''B'')"

lemma demo_hashes: "hex_EncodeToString ''A'' \<noteq> hex_EncodeToString ''B''"
  by code_simp

definition demo_tok :: APIToken where
  "demo_tok = \<lparr>tk_ID = ''tok-1'', tk_Name = ''ci'', tk_TokenHash = token_hash demo_sha ''abc'', tk_Role = ''operator'',
     tk_Enabled = True, tk_CreatedAt = 0, tk_LastUsedAt = None, tk_ExpiresAt = None\<rparr>"

definition token_env :: "APIToken list \<Rightarrow> db_env" where
  "token_env ts = \<lparr>clock = int, clock_pos = 7, faults = (\<lambda>_. F_ok), fault_pos = 0,
     agents = [], telemetry = [], alert_rules = [], alerts = [], alert_comments = [],
     notification_channels = [], notification_deliveries = [], api_tokens = ts, telemetry_hourly = []\<rparr>"

definition bearer :: "string \<Rightarrow> request" where
  "bearer raw = \<lparr>Method = ''GET'', URL_Path = ''/api/v1/agents'', RemoteAddr = '''',
     Header_Get = (\<lambda>k. if k = ''Authorization'' then ''Bearer '' @ raw else ''''),
     PathValue = (\<lambda>_. ''tok-1''), Query_Get = (\<lambda>_. ''''), Body = '''', ctx_role = None, ctx_token = None,
     ctx_request_id = None\<rparr>"

definition count_calls :: "(token_json, nat, unit) chandler" where
  "count_calls w r st = (w, (Suc (fst st), snd st))"

lemma bearer_simps [simp]:
  "Header_Get (bearer raw) ''Authorization'' = ''Bearer '' @ raw" "URL_Path (bearer raw) = ''/api/v1/agents''"
  by (simp_all add: bearer_def)

lemma api_path_not_public [simp]: "\<not> public_path ''/api/v1/agents''"
  by (simp add: public_path_def)

theorem auth_guard_witness:
  "fst (snd (Middleware demo_sha \<lparr>au_authEnabled = True\<rparr> count_calls new_response (bearer ''abd'') (0, token_env [demo_tok]))) = 0"
proof -
  have hash: "token_hash demo_sha ''abd'' \<noteq> token_hash demo_sha ''abc''"
    using demo_hashes by (simp add: token_hash_def demo_sha_def)
  have "status (new_response :: token_json response) = None" by simp
  from auth_guard [of "\<lparr>au_authEnabled = True\<rparr>" "bearer ''abd''", OF _ _ this, of "token_env [demo_tok]" demo_sha count_calls 0]
  show ?thesis using hash by (auto simp: token_env_def demo_tok_def)
qed

text \<open>
  C27: A created token authenticates.  When the endpoint answers 201 with a raw token, every later
  request that sends it as a bearer token passes the middleware with the role asked for (operator
  when none was), as long as the table of tokens is as the request left it and the database works;
  the hash function and the random bytes are arbitrary.
\<close>

theorem created_token_authenticates:
  assumes "reliable s" and "tokens_ok s" and "status w = None"
    and "CreateToken_h sha256 entropy decode w r s = (w', s')" and "status w' = Some 201"
    and "reliable t" and "api_tokens t = api_tokens s'"
    and "au_authEnabled a" and "\<not> public_path (URL_Path q)" and "Header_Get q ''Authorization'' = ''Bearer '' @ raw_token entropy"
  shows "\<exists>tok t1. chunks w' = chunks w @ [B_json (TJ_created tok (raw_token entropy))] \<and>
      tk_Role tok = (if ct_Role (fst (decode (Body r))) = '''' then ''operator'' else ct_Role (fst (decode (Body r)))) \<and>
      Role_IsValid (tk_Role tok) \<and> tokens_only t t1 \<and>
      Middleware sha256 a next_h v q (c, t) =
        next_h v (q\<lparr>ctx_role := Some (tk_Role tok), ctx_token := Some (tk_ID tok)\<rparr>) (c, t1)"
proof -
  define req where "req = fst (decode (Body r))"
  define role where "role = chosen_role req"
  define now where "now = clock s (clock_pos s)"
  define row where "row = \<lparr>tk_ID = token_id now, tk_Name = ct_Name req, tk_TokenHash = token_hash sha256 (raw_token entropy),
    tk_Role = role, tk_Enabled = True, tk_CreatedAt = clock s (Suc (clock_pos s)), tk_LastUsedAt = None, tk_ExpiresAt = None\<rparr>"
  have ok: "Method r = ''POST''" "\<not> snd (decode (Body r))" "TrimSpace (ct_Name req) \<noteq> ''''" "Role_IsValid role"
    using assms(3-5) by (auto simp: CreateToken_h_def req_def role_def case_prod_beta Let_def split: if_splits)
  have body: "decode (Body r) = (req, False)" using ok(2) by (simp add: req_def prod_eq_iff)
  have run: "CreateToken_h sha256 entropy decode w r s =
      (case insert_token (token_id now) (ct_Name req) (token_hash sha256 (raw_token entropy)) role (s\<lparr>clock_pos := Suc (clock_pos s)\<rparr>) of
         (Inl _, s2) \<Rightarrow> (http_Error (error_body ''failed to create token'') 500 w, s2)
       | (Inr created, s2) \<Rightarrow> (sendJSON 201 (TJ_created created (raw_token entropy)) w, s2))"
    using ok by (simp add: CreateToken_h_def body role_def Let_def time_Now_def now_def)
  have ins: "insert_token (token_id now) (ct_Name req) (token_hash sha256 (raw_token entropy)) role (s\<lparr>clock_pos := Suc (clock_pos s)\<rparr>) =
      (let s2 = s\<lparr>fault_pos := Suc (fault_pos s), clock_pos := Suc (Suc (clock_pos s))\<rparr> in
       if token_id now \<in> tk_ID ` set (api_tokens s) \<or> tk_TokenHash row \<in> tk_TokenHash ` set (api_tokens s)
       then (Inl Constraint, s2) else (Inr (scan_token row), s2\<lparr>api_tokens := api_tokens s @ [row]\<rparr>))"
    using insert_token_reliable [of "s\<lparr>clock_pos := Suc (clock_pos s)\<rparr>"] assms(1) by (simp add: reliable_def row_def Let_def)
  have new: "w' = sendJSON 201 (TJ_created (scan_token row) (raw_token entropy)) w" "api_tokens s' = api_tokens s @ [row]"
      "tk_TokenHash row \<notin> tk_TokenHash ` set (api_tokens s)"
    using assms(3-5) unfolding run ins by (auto simp: Let_def split: if_splits)
  have alive: "token_alive now' row" for now' by (simp add: token_alive_def row_def)
  have "distinct (map tk_TokenHash (api_tokens t))" using assms(2) new(2,3) by (simp add: assms(7) tokens_ok_def)
  then have "find_token (tk_TokenHash row) t = (Inr (scan_token row), t\<lparr>fault_pos := Suc (fault_pos t), clock_pos := Suc (clock_pos t)\<rparr>)"
    by (rule find_token_row [OF assms(6)]) (simp_all add: assms(7) new(2) alive)
  moreover have "tk_TokenHash row = token_hash sha256 (raw_token entropy)" by (simp add: row_def)
  ultimately have "Middleware sha256 a next_h v q (c, t) =
      next_h v (q\<lparr>ctx_role := Some (tk_Role (scan_token row)), ctx_token := Some (tk_ID (scan_token row))\<rparr>)
        (c, snd (touch_token (tk_ID row) (t\<lparr>fault_pos := Suc (fault_pos t), clock_pos := Suc (clock_pos t)\<rparr>)))"
    using assms(8,9) by (simp add: Middleware_def Let_def case_prod_beta bearer_token [OF assms(10)])
  moreover have "tokens_only t (snd (touch_token (tk_ID row) (t\<lparr>fault_pos := Suc (fault_pos t), clock_pos := Suc (clock_pos t)\<rparr>)))"
    by (rule moved_tokens_only [OF _ touch_token_tokens_only]) (simp add: moved_def)
  moreover have "tk_Role (scan_token row) = (if ct_Role (fst (decode (Body r))) = '''' then ''operator'' else ct_Role (fst (decode (Body r))))"
    by (simp add: row_def role_def chosen_role_def req_def role_defs)
  moreover have "Role_IsValid (tk_Role (scan_token row))" using ok(4) by (simp add: row_def)
  ultimately show ?thesis
    unfolding new(1) by (intro exI [of _ "scan_token row"] exI conjI) auto
qed


definition demo_post_token :: "token_json response \<times> db_env" where
  "demo_post_token = CreateToken_h demo_sha ''xyz'' (\<lambda>_. (\<lparr>ct_Name = ''ci'', ct_Role = ''viewer''\<rparr>, False))
     new_response ((bearer '''')\<lparr>Method := ''POST''\<rparr>) (token_env [demo_tok])"

lemma token_env_reliable: "reliable (token_env ts)"
  by (simp add: token_env_def reliable_def)

lemma demo_tokens_ok: "tokens_ok (token_env [demo_tok])"
  by (simp add: tokens_ok_def token_env_def demo_tok_def Role_IsValid_def role_defs)

theorem created_token_authenticates_witness:
  "fst (snd (Middleware demo_sha \<lparr>au_authEnabled = True\<rparr> count_calls new_response (bearer (raw_token ''xyz''))
      (0, snd demo_post_token))) = 1"
proof -
  have "TrimSpace ''ci'' \<noteq> ''''" "token_id 7 \<noteq> ''tok-1''" by code_simp+
  moreover have "token_hash demo_sha (raw_token ''xyz'') \<noteq> token_hash demo_sha ''abc''"
    using demo_hashes by (simp add: token_hash_def demo_sha_def raw_token_def)
  ultimately have st: "status (fst demo_post_token) = Some 201"
    by (simp add: demo_post_token_def CreateToken_h_def bearer_def chosen_role_def Role_IsValid_def role_defs
        insert_token_reliable reliable_def token_env_def demo_tok_def Let_def time_Now_def)
  have "reliable (snd demo_post_token)"
    using token_env_reliable [of "[demo_tok]"] by (simp add: demo_post_token_def reliable_def CreateToken_faults)
  moreover have "status (new_response :: token_json response) = None" by simp
  ultimately show ?thesis
    using created_token_authenticates [OF token_env_reliable demo_tokens_ok, of new_response demo_sha "''xyz''"
        "\<lambda>_. (\<lparr>ct_Name = ''ci'', ct_Role = ''viewer''\<rparr>, False)" "(bearer '''')\<lparr>Method := ''POST''\<rparr>"
        "fst demo_post_token" "snd demo_post_token" "snd demo_post_token" "\<lparr>au_authEnabled = True\<rparr>"
        "bearer (raw_token ''xyz'')" count_calls new_response 0] st
    by (auto simp: demo_post_token_def count_calls_def)
qed

text \<open>
  A deleted token is refused.  Once the endpoint has answered 204 for the id of a row, a request
  with the raw token of this row is answered with 401 and does not reach the next handler, because
  no other row has its hash.
\<close>

theorem deleted_token_rejected:
  assumes "reliable s" and "tokens_ok s" and "t \<in> set (api_tokens s)" and "tk_TokenHash t = token_hash sha256 raw"
    and "PathValue r ''id'' = tk_ID t" and "DeleteToken_h w r s = (w', s')" and "status w = None" and "status w' = Some 204"
    and "reliable u" and "api_tokens u = api_tokens s'"
    and "au_authEnabled a" and "\<not> public_path (URL_Path q)" and "Header_Get q ''Authorization'' = ''Bearer '' @ raw"
  shows "Middleware sha256 a next_h v q (c, u) =
    (writeUnauthorized ''invalid token'' v,
     (c, u\<lparr>fault_pos := Suc (fault_pos u), clock_pos := Suc (clock_pos u)\<rparr>))"
proof -
  have "api_tokens s' = filter (\<lambda>x. tk_ID x \<noteq> tk_ID t) (api_tokens s)"
    using assms(5-8) by (auto simp: DeleteToken_h_def delete_token_def db_run_reliable [OF assms(1)] split: if_splits)
  moreover have "x = t" if "x \<in> set (api_tokens s)" "tk_TokenHash x = tk_TokenHash t" for x
    using assms(2) that assms(3) key_unique [of tk_TokenHash "api_tokens s" x t] by (simp add: tokens_ok_def)
  ultimately have "token_hash sha256 raw \<notin> tk_TokenHash ` set (api_tokens u)"
    by (auto simp: assms(10) assms(4) [symmetric])
  from find_token_none [OF assms(9) this] show ?thesis
    using assms(11,12) by (simp add: Middleware_def Let_def bearer_token [OF assms(13)])
qed

theorem deleted_token_rejected_witness:
  "fst (snd (Middleware demo_sha \<lparr>au_authEnabled = True\<rparr> count_calls new_response (bearer ''abc'')
      (0, snd (DeleteToken_h new_response ((bearer '''')\<lparr>Method := ''DELETE''\<rparr>) (token_env [demo_tok]))))) = 0"
proof -
  let ?r = "(bearer '''')\<lparr>Method := ''DELETE''\<rparr>"
  let ?d = "DeleteToken_h new_response ?r (token_env [demo_tok])"
  have "PathValue ?r ''id'' = tk_ID demo_tok" by (simp add: bearer_def demo_tok_def)
  then have d: "?d = (WriteHeader 204 new_response, (token_env [])\<lparr>fault_pos := 1\<rparr>)"
    using token_env_reliable [of "[demo_tok]"]
    by (simp add: DeleteToken_h_def delete_token_def db_run_reliable demo_tok_def token_env_def)
  have t: "demo_tok \<in> set (api_tokens (token_env [demo_tok]))" "tk_TokenHash demo_tok = token_hash demo_sha ''abc''"
      "PathValue ?r ''id'' = tk_ID demo_tok" "status (new_response :: token_json response) = None"
      "reliable ((token_env [])\<lparr>fault_pos := 1\<rparr>)"
    by (simp_all add: token_env_def demo_tok_def bearer_def reliable_def)
  show ?thesis
    using deleted_token_rejected [OF token_env_reliable demo_tokens_ok t(1-3) d t(4) _ t(5), of "\<lparr>au_authEnabled = True\<rparr>"
        "bearer ''abc''" count_calls new_response 0]
    unfolding d by (simp add: t(4))
qed

text \<open>
  The rows of the token table.  Every operation of the package keeps that ids and hashes are
  unique and that the role of every token is one of the three, whatever is sent and whatever the
  database does; a next handler that keeps it cannot break it either.
\<close>

theorem tokens_stay_ok:
  assumes "tokens_ok s" and "\<And>w r c t. tokens_ok t \<Longrightarrow> tokens_ok (snd (snd (next_h w r (c, t))))"
  shows "tokens_ok (snd (ListTokens_h w r s)) \<and> tokens_ok (snd (CreateToken_h sha256 entropy decode w r s)) \<and>
         tokens_ok (snd (DeleteToken_h w r s)) \<and> tokens_ok (snd (snd (Middleware sha256 a next_h w q (c, s))))"
proof (intro conjI)
  show "tokens_ok (snd (ListTokens_h w r s))"
    using assms(1) by (simp add: ListTokens_h_def case_prod_beta split: sum.split)
  show "tokens_ok (snd (CreateToken_h sha256 entropy decode w r s))"
    using assms(1) by (simp add: CreateToken_h_def case_prod_beta Let_def time_Now_def tokens_ok_insert split: sum.split)
  show "tokens_ok (snd (DeleteToken_h w r s))"
    using assms(1) by (simp add: DeleteToken_h_def case_prod_beta tokens_ok_delete split: sum.split)
  have "tokens_ok (snd (find_token h s))" for h
    using assms(1) moved_tokens [OF find_token_moved [of s h]] by (simp add: tokens_ok_def)
  then show "tokens_ok (snd (snd (Middleware sha256 a next_h w q (c, s))))"
    using assms by (simp add: Middleware_def Let_def case_prod_beta tokens_ok_touch split: sum.split)
qed

theorem tokens_stay_ok_witness:
  "tokens_ok (snd (CreateToken_h demo_sha ''xyz'' (\<lambda>_. (\<lparr>ct_Name = ''ci'', ct_Role = ''root''\<rparr>, False))
     new_response (bearer '''') (token_env [demo_tok])))"
  using tokens_stay_ok [OF demo_tokens_ok, of count_calls] by (simp add: count_calls_def)

end
