(* ===== verification/Config.thy ===== *)
theory Config
  imports Go_Float
begin

text \<open>
  internal/config/config.go over an environment (a missing variable reads as the empty string), and
  the part of package time it uses: \<open>ParseDuration\<close>, with its overflow checks and the float64
  arithmetic of its fractions.
\<close>

section \<open>time.ParseDuration\<close>

definition int64_bound :: nat where
  "int64_bound = 2 ^ 63"

text \<open>Reads digits up to the first other byte; None is its overflow error.\<close>

fun leadingInt :: "nat \<Rightarrow> string \<Rightarrow> (nat \<times> string) option" where
  "leadingInt x [] = Some (x, [])"
| "leadingInt x (c # cs) =
     (if \<not> is_digit c then Some (x, c # cs)
      else if x > int64_bound div 10 then None
      else let y = 10 * x + (of_char c - 48) in
        if y > int64_bound then None else leadingInt y cs)"

text \<open>Digits beyond the precision are skipped.\<close>

fun leadingFraction :: "nat \<Rightarrow> nat \<Rightarrow> bool \<Rightarrow> string \<Rightarrow> nat \<times> nat \<times> string" where
  "leadingFraction x scale overflow [] = (x, scale, [])"
| "leadingFraction x scale overflow (c # cs) =
     (if \<not> is_digit c then (x, scale, c # cs)
      else if overflow \<or> x > (int64_bound - 1) div 10 then leadingFraction x scale True cs
      else if 10 * x + (of_char c - 48) > int64_bound then leadingFraction x scale True cs
      else leadingFraction (10 * x + (of_char c - 48)) (10 * scale) False cs)"

definition is_unit_char :: "char \<Rightarrow> bool" where
  "is_unit_char c \<longleftrightarrow> c \<noteq> CHR ''.'' \<and> \<not> is_digit c"

text \<open>The table of units; the micro sign comes in two encodings.\<close>

definition unit_of :: "string \<Rightarrow> nat option" where
  "unit_of u = map_of
     [(''ns'', 1), (''us'', 1000), ([CHR 0xC2, CHR 0xB5, CHR ''s''], 1000),
      ([CHR 0xCE, CHR 0xBC, CHR ''s''], 1000), (''ms'', 1000000), (''s'', 1000000000),
      (''m'', 60000000000), (''h'', 3600000000000)] u"

text \<open>The optional fraction: its digits, the power of ten below them, the rest, and whether there were digits.\<close>

fun parse_fraction :: "string \<Rightarrow> nat \<times> nat \<times> string \<times> bool" where
  "parse_fraction [] = (0, 1, [], False)"
| "parse_fraction (c # cs) =
     (if c = CHR ''.'' then
        (case leadingFraction 0 1 False cs of (f, scale, r) \<Rightarrow> (f, scale, r, length r \<noteq> length cs))
      else (0, 1, c # cs, False))"

text \<open>The nanoseconds of a fraction: \<open>uint64(float64(f) * (float64(unit) / scale))\<close>.\<close>

fun fl_rat :: "float64 \<Rightarrow> rat" where
  "fl_rat (Fin q) = q"
| "fl_rat _ = 0"

definition fraction_ns :: "nat \<Rightarrow> nat \<Rightarrow> nat \<Rightarrow> nat" where
  "fraction_ns f u scale =
     nat \<lfloor>fl_rat (round64 (fl_rat (round64 (of_nat f)) * fl_rat (round64 (of_nat u / of_nat scale))))\<rfloor>"

definition scale_unit :: "nat \<Rightarrow> nat \<Rightarrow> nat \<Rightarrow> string \<Rightarrow> (nat \<times> string) option" where
  "scale_unit v f scale s =
     (case unit_of (takeWhile is_unit_char s) of
        None \<Rightarrow> None
      | Some u \<Rightarrow>
          if v > int64_bound div u then None
          else let v1 = v * u + (if f > 0 then fraction_ns f u scale else 0) in
            if v1 > int64_bound then None else Some (v1, dropWhile is_unit_char s))"

text \<open>One iteration of the loop: the nanoseconds of a number with its unit, and the rest.\<close>

definition parse_component :: "string \<Rightarrow> (nat \<times> string) option" where
  "parse_component s =
     (if s = [] \<or> \<not> (hd s = CHR ''.'' \<or> is_digit (hd s)) then None
      else (case leadingInt 0 s of
          None \<Rightarrow> None
        | Some (v, s1) \<Rightarrow>
          (case parse_fraction s1 of (f, scale, s2, post) \<Rightarrow>
             if length s1 = length s \<and> \<not> post then None else scale_unit v f scale s2)))"

lemma leadingInt_length: "leadingInt x s = Some (y, r) \<Longrightarrow> length r \<le> length s"
  by (induction x s rule: leadingInt.induct) (auto simp: Let_def split: if_splits)

lemma leadingFraction_length: "length (snd (snd (leadingFraction x sc b s))) \<le> length s"
  by (induction s arbitrary: x sc b) (simp_all add: Let_def le_SucI)

lemma parse_fraction_length: "parse_fraction s = (f, sc, r, p) \<Longrightarrow> length r \<le> length s"
proof (cases s)
  case (Cons c cs)
  assume "parse_fraction s = (f, sc, r, p)"
  then show ?thesis
    using leadingFraction_length [of 0 1 False cs] by (auto simp: Cons case_prod_beta split: if_splits)
qed simp

lemma scale_unit_length:
  assumes "scale_unit v f sc s = Some (x, r)"
  shows "length r < length s"
proof -
  have u: "unit_of (takeWhile is_unit_char s) \<noteq> None" and r: "r = dropWhile is_unit_char s"
    using assms by (auto simp: scale_unit_def Let_def split: option.splits if_splits)
  have "takeWhile is_unit_char s \<noteq> []" using u by (auto simp: unit_of_def)
  moreover have "length (takeWhile is_unit_char s) + length r = length s"
    unfolding r length_append [symmetric] by simp
  ultimately show ?thesis by (cases "takeWhile is_unit_char s") simp_all
qed

lemma parse_component_shorter:
  assumes "parse_component s = Some (v, r)"
  shows "length r < length s"
proof -
  obtain x s1 f sc s2 p where "leadingInt 0 s = Some (x, s1)" "parse_fraction s1 = (f, sc, s2, p)"
      "scale_unit x f sc s2 = Some (v, r)"
    using assms by (auto simp: parse_component_def split: if_splits option.splits prod.splits)
  from leadingInt_length [OF this(1)] parse_fraction_length [OF this(2)] scale_unit_length [OF this(3)]
  show ?thesis by simp
qed

text \<open>The loop over the components, which sums them up.\<close>

function parse_components :: "nat \<Rightarrow> string \<Rightarrow> nat option" where
  "parse_components d s =
     (if s = [] then Some d
      else (case parse_component s of
          None \<Rightarrow> None
        | Some (v, r) \<Rightarrow> if d + v > int64_bound then None else parse_components (d + v) r))"
  by pat_completeness auto
termination
  by (relation "measure (\<lambda>(d, s). length s)") (auto dest: parse_component_shorter)

declare parse_components.simps [simp del]

definition ParseDuration :: "string \<Rightarrow> duration option" where
  "ParseDuration s =
     (let (neg, s1) = (case s of
            [] \<Rightarrow> (False, [])
          | c # cs \<Rightarrow> if c = CHR ''-'' then (True, cs) else if c = CHR ''+'' then (False, cs) else (False, s))
      in if s1 = ''0'' then Some 0
         else if s1 = '''' then None
         else (case parse_components 0 s1 of
             None \<Rightarrow> None
           | Some d \<Rightarrow> if neg then Some (- int d)
                       else if d > int64_bound - 1 then None else Some (int d)))"

section \<open>Loading the configuration\<close>

record Config =
  cf_Host :: string
  cf_Port :: string
  cf_DatabaseURL :: string
  cf_HealthyThreshold :: duration
  cf_StaleThreshold :: duration
  cf_CORSOrigins :: string
  cf_RateLimitRequestsPerMin :: int
  cf_TelemetryRetentionDays :: int
  cf_APIAuthEnabled :: bool

type_synonym getenv = "string \<Rightarrow> string"

definition loadDuration :: "getenv \<Rightarrow> string \<Rightarrow> duration \<Rightarrow> duration" where
  "loadDuration os_Getenv name fallback =
     (let val = os_Getenv name in
      if val = '''' then fallback
      else (case ParseDuration val of
          None \<Rightarrow> fallback
        | Some d \<Rightarrow> if d \<le> 0 then fallback else d))"

definition loadInt :: "getenv \<Rightarrow> string \<Rightarrow> int \<Rightarrow> int" where
  "loadInt os_Getenv name fallback =
     (let val = os_Getenv name in
      if val = '''' then fallback
      else (case strconv_Atoi val of
          None \<Rightarrow> fallback
        | Some v \<Rightarrow> if v < 0 then fallback else v))"

definition or_default :: "string \<Rightarrow> string \<Rightarrow> string" where
  "or_default val dflt = (if val = '''' then dflt else val)"

definition Load :: "getenv \<Rightarrow> Config" where
  "Load os_Getenv =
     \<lparr>cf_Host = or_default (os_Getenv ''OPSNEXUS_HOST'') ''0.0.0.0'',
      cf_Port = or_default (os_Getenv ''OPSNEXUS_PORT'') ''8080'',
      cf_DatabaseURL = or_default (os_Getenv ''OPSNEXUS_DATABASE_URL'') (os_Getenv ''DATABASE_URL''),
      cf_HealthyThreshold = loadDuration os_Getenv ''OPSNEXUS_HEALTHY_THRESHOLD'' (30 * time_Second),
      cf_StaleThreshold = loadDuration os_Getenv ''OPSNEXUS_STALE_THRESHOLD'' (2 * time_Minute),
      cf_CORSOrigins = or_default (os_Getenv ''OPSNEXUS_CORS_ORIGINS'') ''*'',
      cf_RateLimitRequestsPerMin = loadInt os_Getenv ''OPSNEXUS_RATE_LIMIT'' 120,
      cf_TelemetryRetentionDays = loadInt os_Getenv ''OPSNEXUS_TELEMETRY_RETENTION'' 30,
      cf_APIAuthEnabled = (os_Getenv ''OPSNEXUS_API_AUTH_ENABLED'' = ''true'')\<rparr>"


section \<open>Lemmas\<close>

lemma parse_components_bound: "parse_components d s = Some v \<Longrightarrow> d \<le> int64_bound \<Longrightarrow> v \<le> int64_bound"
proof (induction d s rule: parse_components.induct)
  case (1 d s)
  show ?case
  proof (cases "s = []")
    case True
    then show ?thesis using 1 by (simp add: parse_components.simps)
  next
    case False
    then obtain x r where x: "parse_component s = Some (x, r)" "d + x \<le> int64_bound" "parse_components (d + x) r = Some v"
      using "1.prems"(1) by (subst (asm) parse_components.simps) (auto split: option.splits if_splits)
    then show ?thesis using "1.IH" [OF False x(1) refl] by simp
  qed
qed

lemma ParseDuration_range: "ParseDuration s = Some d \<Longrightarrow> - (2 ^ 63) \<le> d \<and> d < 2 ^ 63"
  using parse_components_bound [of 0]
  by (fastforce simp: ParseDuration_def Let_def int64_bound_def split: if_splits option.splits prod.splits)


lemma foldl_digits_ge: "x \<le> foldl (\<lambda>a c. 10 * a + (of_char c - 48)) x ds" for x :: nat
proof (induction ds arbitrary: x)
  case (Cons c cs)
  have "x \<le> 10 * x + (of_char c - 48)" by simp
  also have "\<dots> \<le> foldl (\<lambda>a c. 10 * a + (of_char c - 48)) (10 * x + (of_char c - 48)) cs" by (rule Cons.IH)
  finally show ?case by simp
qed simp

lemma leadingInt_digits:
  assumes "list_all is_digit ds" and "foldl (\<lambda>a c. 10 * a + (of_char c - 48)) x ds \<le> int64_bound"
    and "u = [] \<or> \<not> is_digit (hd u)"
  shows "leadingInt x (ds @ u) = Some (foldl (\<lambda>a c. 10 * a + (of_char c - 48)) x ds, u)"
  using assms(1,2)
proof (induction ds arbitrary: x)
  case Nil
  then show ?case using assms(3) by (cases u) auto
next
  case (Cons c cs)
  let ?y = "10 * x + (of_char c - 48)"
  have le: "?y \<le> int64_bound" using foldl_digits_ge [of ?y cs] Cons.prems(2) by simp
  then have "x \<le> int64_bound div 10" by (simp add: less_eq_div_iff_mult_less_eq)
  then show ?case using Cons le by simp
qed

lemma leadingInt_show_nat:
  assumes "n \<le> int64_bound" and "u = [] \<or> \<not> is_digit (hd u)"
  shows "leadingInt 0 (show_nat n @ u) = Some (n, u)"
  using leadingInt_digits [OF show_nat_digits [of n], of 0 u] read_show_nat [of n] assms
  by (simp add: read_nat_def)

text \<open>A number of a unit, without a fraction.\<close>

lemma parse_component_unit:
  assumes "unit_of u = Some k" and "0 < k" and "n * k \<le> int64_bound" and "list_all is_unit_char u"
  shows "parse_component (show_nat n @ u) = Some (n * k, [])"
proof -
  have u: "u \<noteq> []" using assms(1) by (auto simp: unit_of_def)
  then have hd_u: "\<not> is_digit (hd u)" "hd u \<noteq> CHR ''.''" using assms(4) by (cases u; simp add: is_unit_char_def)+
  obtain c cs where cs: "show_nat n = c # cs" by (cases "show_nat n") auto
  have "n * 1 \<le> n * k" using assms(2) by (intro mult_le_mono2) simp
  then have "n \<le> int64_bound" using assms(3) by (simp only: mult_1_right le_trans)
  then have lead: "leadingInt 0 (show_nat n @ u) = Some (n, u)" using hd_u by (simp add: leadingInt_show_nat)
  have frac: "parse_fraction u = (0, 1, u, False)" using u hd_u by (cases u) auto
  have tw: "takeWhile is_unit_char u = u" "dropWhile is_unit_char u = []" using assms(4) by (simp_all add: list_all_iff)
  have "n \<le> int64_bound div k" using assms(2,3) by (simp add: less_eq_div_iff_mult_less_eq)
  then have "scale_unit n 0 1 u = Some (n * k, [])" using assms(1,3) by (simp add: scale_unit_def tw)
  moreover have "is_digit (hd (show_nat n @ u))" using show_nat_hd [OF cs] by (simp add: cs)
  ultimately show ?thesis by (simp add: parse_component_def lead frac)
qed

lemma ParseDuration_unit:
  assumes "unit_of u = Some k" and "0 < k" and "n * k < int64_bound" and "list_all is_unit_char u"
  shows "ParseDuration (show_nat n @ u) = Some (int (n * k))"
proof -
  have "unit_of u \<noteq> None" using assms(1) by simp
  then have u: "u \<noteq> []" by (auto simp: unit_of_def)
  obtain c cs where cs: "show_nat n = c # cs" by (cases "show_nat n") auto
  then have sign: "c \<noteq> CHR ''-''" "c \<noteq> CHR ''+''" using digit_not_sign [OF show_nat_hd [OF cs]] by auto
  have zero: "c # cs @ u \<noteq> ''0''" using u by auto
  have comp: "parse_component (c # cs @ u) = Some (n * k, [])"
    using parse_component_unit [OF assms(1,2) _ assms(4), of n] assms(3) by (simp add: cs)
  have "parse_components 0 (c # cs @ u) = Some (n * k)"
    using assms(3) by (subst parse_components.simps) (simp add: comp parse_components.simps)
  then show ?thesis
    using assms(3) sign zero u by (auto simp: ParseDuration_def cs Let_def)
qed

section \<open>Properties\<close>

text \<open>
  C33: Every configuration is usable.  Whatever the environment holds, the two thresholds are
  positive durations of 64 bits, the two integers are not negative and fit 64 bits, and host, port and
  origins are not empty.
\<close>

theorem config_in_range:
  "0 < cf_HealthyThreshold (Load e) \<and> cf_HealthyThreshold (Load e) < 2 ^ 63 \<and>
   0 < cf_StaleThreshold (Load e) \<and> cf_StaleThreshold (Load e) < 2 ^ 63 \<and>
   0 \<le> cf_RateLimitRequestsPerMin (Load e) \<and> cf_RateLimitRequestsPerMin (Load e) < 2 ^ 63 \<and>
   0 \<le> cf_TelemetryRetentionDays (Load e) \<and> cf_TelemetryRetentionDays (Load e) < 2 ^ 63 \<and>
   cf_Host (Load e) \<noteq> '''' \<and> cf_Port (Load e) \<noteq> '''' \<and> cf_CORSOrigins (Load e) \<noteq> ''''"
proof -
  have dur: "0 < loadDuration e n d \<and> loadDuration e n d < 2 ^ 63" if "0 < d" "d < 2 ^ 63" for n d
    using that ParseDuration_range [of "e n"] by (auto simp: loadDuration_def Let_def split: option.split)
  have int: "0 \<le> loadInt e n d \<and> loadInt e n d < 2 ^ 63" if "0 \<le> d" "d < 2 ^ 63" for n d
    using that Atoi_range [of "e n"] by (auto simp: loadInt_def Let_def split: option.split)
  have "time_Minute = 60000000000" "time_Second = 1000000000" by (simp_all add: time_Minute_def time_Second_def)
  with dur [of "30 * time_Second"] dur [of "2 * time_Minute"] int [of 120] int [of 30]
  show ?thesis by (simp add: Load_def or_default_def)
qed

text \<open>
  Settings are read back.  A threshold written as a number of seconds, minutes, hours,
  milliseconds or any other unit of the table is loaded as exactly that duration, up to the 64 bits
  of a duration, and an integer setting written in decimal as exactly that integer.
\<close>

theorem settings_round_trip:
  assumes "unit_of u = Some k" and "0 < n" and "n * k < 2 ^ 63" and "0 \<le> i" and "i < 2 ^ 63"
    and "e ''OPSNEXUS_HEALTHY_THRESHOLD'' = show_nat n @ u" and "e ''OPSNEXUS_RATE_LIMIT'' = show_int i"
  shows "cf_HealthyThreshold (Load e) = int (n * k) \<and> cf_RateLimitRequestsPerMin (Load e) = i"
proof
  have k: "0 < k \<and> list_all is_unit_char u"
    using assms(1) by (auto simp: unit_of_def is_unit_char_def is_digit_def split: if_splits)
  then have "ParseDuration (show_nat n @ u) = Some (int (n * k))"
    using assms(1,3) by (intro ParseDuration_unit) (simp_all add: int64_bound_def)
  moreover have "0 < int (n * k)" using assms(2) k by simp
  ultimately show "cf_HealthyThreshold (Load e) = int (n * k)"
    using assms(6) by (simp add: Load_def loadDuration_def)
  have "show_int i \<noteq> ''''" by (simp add: show_int_def)
  then show "cf_RateLimitRequestsPerMin (Load e) = i"
    using assms(4,5,7) by (simp add: Load_def loadInt_def Atoi_show_int)
qed

theorem settings_round_trip_witness:
  "cf_HealthyThreshold (Load (\<lambda>n. if n = ''OPSNEXUS_HEALTHY_THRESHOLD'' then show_nat 45 @ ''m''
      else if n = ''OPSNEXUS_RATE_LIMIT'' then show_int 600 else '''')) = 2700000000000"
proof -
  have "unit_of ''m'' = Some 60000000000" by (simp add: unit_of_def)
  from settings_round_trip [OF this, of 45 600 "\<lambda>n. if n = ''OPSNEXUS_HEALTHY_THRESHOLD'' then show_nat 45 @ ''m''
      else if n = ''OPSNEXUS_RATE_LIMIT'' then show_int 600 else ''''"]
  show ?thesis by simp
qed

end
