(* ===== verification/Metrics.thy ===== *)
theory Metrics
  imports Go_Any Database
begin

text \<open>
  internal/observability/metrics.go: the numbers in a payload and their statistics.  The conversions of
  a float64 to an integer follow Go: truncation where the result is in range, and otherwise what the
  implementation does, which is the argument \<open>conv\<close>.  The byte counters are uint64, so sums wrap.
\<close>

section \<open>Numbers\<close>

fun numberValue :: "goany \<Rightarrow> float64" where
  "numberValue (GFloat64 v) = v"
| "numberValue (GFloat32 v) = v"
| "numberValue (GInt i) = fl_of_int i"
| "numberValue (GInt64 i) = fl_of_int i"
| "numberValue (GUint64 i) = fl_of_int i"
| "numberValue _ = Fin 0"

fun is_number :: "goany \<Rightarrow> bool" where
  "is_number (GFloat64 v) \<longleftrightarrow> True"
| "is_number (GFloat32 v) \<longleftrightarrow> True"
| "is_number (GInt i) \<longleftrightarrow> True"
| "is_number (GInt64 i) \<longleftrightarrow> True"
| "is_number (GUint64 i) \<longleftrightarrow> True"
| "is_number _ \<longleftrightarrow> False"

definition numberValueOK :: "goany \<Rightarrow> float64 option" where
  "numberValueOK v = (if is_number v then Some (numberValue v) else None)"

text \<open>A key that is there counts, whatever its value is.\<close>

definition number :: "goany \<Rightarrow> string \<Rightarrow> float64 option" where
  "number val key =
     (case as_map val of
        None \<Rightarrow> None
      | Some m \<Rightarrow> (case map_of m key of None \<Rightarrow> None | Some v \<Rightarrow> Some (numberValue v)))"

definition fl_truncate :: "rat \<Rightarrow> int" where
  "fl_truncate q = (if 0 \<le> q then \<lfloor>q\<rfloor> else \<lceil>q\<rceil>)"

fun to_uint64 :: "(float64 \<Rightarrow> 64 word) \<Rightarrow> float64 \<Rightarrow> 64 word" where
  "to_uint64 conv (Fin q) =
     (if 0 \<le> fl_truncate q \<and> fl_truncate q < 2 ^ 64 then word_of_int (fl_truncate q) else conv (Fin q))"
| "to_uint64 conv v = conv v"

fun to_int64 :: "(float64 \<Rightarrow> int) \<Rightarrow> float64 \<Rightarrow> int" where
  "to_int64 conv (Fin q) =
     (if - (2 ^ 63) \<le> fl_truncate q \<and> fl_truncate q < 2 ^ 63 then fl_truncate q else conv (Fin q))"
| "to_int64 conv v = conv v"

section \<open>Statistics\<close>

record Stats =
  sa_average :: float64
  sa_minimum :: float64
  sa_maximum :: float64

definition stats_step :: "float64 \<Rightarrow> float64 \<times> float64 \<times> float64 \<Rightarrow> float64 \<times> float64 \<times> float64" where
  "stats_step v acc =
     (case acc of (mn, mx, tot) \<Rightarrow>
        (if fl_less v mn then v else mn, if fl_less mx v then v else mx, fl_add tot v))"

definition stats :: "float64 list \<Rightarrow> Stats" where
  "stats vals =
     (case fold stats_step vals (hd vals, hd vals, Fin 0) of (mn, mx, tot) \<Rightarrow>
        \<lparr>sa_average = fl_div_count tot (length vals), sa_minimum = mn, sa_maximum = mx\<rparr>)"

section \<open>Aggregation\<close>

text \<open>The variables of the loop, and the map of results with its optional keys.\<close>

record gathered =
  gt_cpu :: "float64 list"
  gt_mem :: "float64 list"
  gt_proc :: "float64 list"
  gt_recv :: "64 word"
  gt_sent :: "64 word"
  gt_disk :: "float64 list"

record Aggregates =
  gg_cpu :: "Stats option"
  gg_memory :: "Stats option"
  gg_processes :: "Stats option"
  gg_disk_current :: "float64 option"
  gg_bytes_received :: "64 word"
  gg_bytes_sent :: "64 word"

definition append_some :: "'v option \<Rightarrow> 'v list \<Rightarrow> 'v list" where
  "append_some v vs = (case v of None \<Rightarrow> vs | Some x \<Rightarrow> vs @ [x])"

text \<open>The interfaces of the network that are maps.\<close>

definition system_interfaces :: "(string \<times> goany) list \<Rightarrow> (string \<times> goany) list list" where
  "system_interfaces system =
     (case as_map (map_index system ''network'') of
        None \<Rightarrow> []
      | Some network \<Rightarrow>
          (case as_slice (map_index network ''interfaces'') of
             None \<Rightarrow> []
           | Some items \<Rightarrow> List.map_filter as_map items))"

definition disk_values :: "(string \<times> goany) list \<Rightarrow> float64 list" where
  "disk_values system =
     (case as_map (map_index system ''disk'') of
        None \<Rightarrow> []
      | Some diskMetrics \<Rightarrow>
          append_some (number (GMap diskMetrics) ''used_percent'') [] @
          (case as_slice (map_index diskMetrics ''partitions'') of
             None \<Rightarrow> []
           | Some items \<Rightarrow>
               List.map_filter (\<lambda>p. numberValueOK (map_index p ''used_percent'')) (List.map_filter as_map items)))"

definition count_interface ::
  "(float64 \<Rightarrow> 64 word) \<Rightarrow> (goany \<Rightarrow> float64) \<Rightarrow> (string \<times> goany) list \<Rightarrow> 64 word \<times> 64 word \<Rightarrow> 64 word \<times> 64 word"
where
  "count_interface conv num iface rs =
     (fst rs + to_uint64 conv (num (map_index iface ''bytes_recv'')),
      snd rs + to_uint64 conv (num (map_index iface ''bytes_sent'')))"

definition gather_record ::
  "(float64 \<Rightarrow> 64 word) \<Rightarrow> TelemetryRecord \<Rightarrow> gathered \<Rightarrow> gathered"
where
  "gather_record conv rec g =
     (case as_map (map_index (tr_Metrics rec) ''system'') of
        None \<Rightarrow> g
      | Some system \<Rightarrow>
          (case fold (count_interface conv numberValue) (system_interfaces system) (gt_recv g, gt_sent g) of
             (recv, sent) \<Rightarrow>
               g\<lparr>gt_cpu := append_some (number (map_index system ''cpu'') ''usage_percent'') (gt_cpu g),
                 gt_mem := append_some (number (map_index system ''memory'') ''used_percent'') (gt_mem g),
                 gt_proc := append_some (number (map_index system ''processes'') ''running_count'') (gt_proc g),
                 gt_recv := recv, gt_sent := sent,
                 gt_disk := gt_disk g @ disk_values system\<rparr>))"

definition stats_of :: "float64 list \<Rightarrow> Stats option" where
  "stats_of vs = (if vs \<noteq> [] then Some (stats vs) else None)"

definition Aggregate :: "(float64 \<Rightarrow> 64 word) \<Rightarrow> TelemetryRecord list \<Rightarrow> Aggregates" where
  "Aggregate conv records =
     (let g = fold (gather_record conv) records
                \<lparr>gt_cpu = [], gt_mem = [], gt_proc = [], gt_recv = 0, gt_sent = 0, gt_disk = []\<rparr>
      in \<lparr>gg_cpu = stats_of (gt_cpu g), gg_memory = stats_of (gt_mem g), gg_processes = stats_of (gt_proc g),
          gg_disk_current = (if gt_disk g \<noteq> [] then Some (hd (gt_disk g)) else None),
          gg_bytes_received = gt_recv g, gg_bytes_sent = gt_sent g\<rparr>)"

section \<open>Lemmas\<close>

definition no_NaN :: "float64 list \<Rightarrow> bool" where
  "no_NaN vs \<longleftrightarrow> NaN \<notin> set vs"

lemma fl_le_refl [simp]: "fl_le a a \<longleftrightarrow> a \<noteq> NaN"
  by (cases a) (auto simp: fl_le_def)

lemma fl_le_trans: "fl_le a b \<Longrightarrow> fl_le b c \<Longrightarrow> fl_le a c"
  by (cases a; cases b; cases c) (auto simp: fl_le_def)

lemma fl_not_less: "a \<noteq> NaN \<Longrightarrow> b \<noteq> NaN \<Longrightarrow> \<not> fl_less a b \<longleftrightarrow> fl_le b a"
  by (cases a; cases b) (auto simp: fl_le_def)

lemma fl_less_le: "fl_less a b \<Longrightarrow> fl_le a b"
  by (simp add: fl_le_def)

text \<open>The loop keeps the least and the greatest value seen.\<close>

lemma stats_fold:
  assumes "no_NaN (mn # mx # vs)"
  shows "case fold stats_step vs (mn, mx, t) of (mn', mx', t') \<Rightarrow>
    mn' \<in> insert mn (set vs) \<and> mx' \<in> insert mx (set vs) \<and>
    fl_le mn' mn \<and> fl_le mx mx' \<and> (\<forall>v \<in> set vs. fl_le mn' v \<and> fl_le v mx')"
  using assms
proof (induction vs arbitrary: mn mx t)
  case Nil
  then show ?case by (auto simp: no_NaN_def)
next
  case (Cons v vs)
  let ?mn = "if fl_less v mn then v else mn"
  let ?mx = "if fl_less mx v then v else mx"
  have nan: "v \<noteq> NaN" "mn \<noteq> NaN" "mx \<noteq> NaN" "no_NaN (?mn # ?mx # vs)" using Cons.prems by (auto simp: no_NaN_def)
  have step: "fl_le ?mn v" "fl_le ?mn mn" "fl_le v ?mx" "fl_le mx ?mx"
    using nan by (auto simp: fl_not_less fl_less_le)
  obtain mn' mx' t' where r: "fold stats_step vs (?mn, ?mx, fl_add t v) = (mn', mx', t')"
    by (metis prod_cases3)
  have ih: "mn' \<in> insert ?mn (set vs)" "mx' \<in> insert ?mx (set vs)" "fl_le mn' ?mn" "fl_le ?mx mx'"
      "\<forall>u \<in> set vs. fl_le mn' u \<and> fl_le u mx'"
    using Cons.IH [OF nan(4), of "fl_add t v"] by (simp_all only: r prod.case) blast
  have "fl_le mn' v" "fl_le mn' mn" "fl_le v mx'" "fl_le mx mx'"
    using ih(3,4) step fl_le_trans by blast+
  moreover have "fold stats_step (v # vs) (mn, mx, t) = (mn', mx', t')" by (simp add: stats_step_def r)
  ultimately show ?case using ih by (auto split: if_splits)
qed

lemma fold_numbers:
  "fold stats_step vs (a, b, t) = (mn, mx, tot) \<Longrightarrow> tot = fold (\<lambda>v acc. fl_add acc v) vs t"
  by (induction vs arbitrary: a b t) (auto simp: stats_step_def)

section \<open>Properties\<close>

text \<open>
  C34: The statistics of a metric.  Over at least one value and without NaN, the minimum and the
  maximum are values of the list that bound all of them, and the average is the sum taken from the
  left, in float64, divided by the number of values.
\<close>

theorem stats_correct:
  assumes "vals \<noteq> []" and "no_NaN vals"
  shows "sa_minimum (stats vals) \<in> set vals \<and> sa_maximum (stats vals) \<in> set vals \<and>
    list_all (\<lambda>v. fl_le (sa_minimum (stats vals)) v \<and> fl_le v (sa_maximum (stats vals))) vals \<and>
    sa_average (stats vals) = fl_div_count (fold (\<lambda>v acc. fl_add acc v) vals (Fin 0)) (length vals)"
proof -
  obtain mn mx tot where r: "fold stats_step vals (hd vals, hd vals, Fin 0) = (mn, mx, tot)"
    by (metis prod_cases3)
  have "no_NaN (hd vals # hd vals # vals)" using assms by (cases vals) (auto simp: no_NaN_def)
  from stats_fold [OF this, of "Fin 0"]
  have b: "mn \<in> insert (hd vals) (set vals)" "mx \<in> insert (hd vals) (set vals)"
      "\<forall>v \<in> set vals. fl_le mn v \<and> fl_le v mx"
    by (simp_all only: r prod.case) blast
  have "hd vals \<in> set vals" using assms(1) by simp
  with b fold_numbers [OF r] show ?thesis by (auto simp: stats_def r list_all_iff)
qed

theorem stats_correct_witness:
  "sa_minimum (stats [Fin 30, Fin 10, Fin 20]) = Fin 10 \<and> sa_maximum (stats [Fin 30, Fin 10, Fin 20]) = Fin 30"
  using stats_correct [of "[Fin 30, Fin 10, Fin 20]"] by (auto simp: no_NaN_def)

end
