(* ===== verification/Telemetry.thy ===== *)
theory Telemetry
  imports Alert_Engine "HOL-Library.Multiset"
begin

text \<open>
  internal/telemetry: the statements of repository.go over the table of telemetry, the endpoints of
  handler.go, and the interface \<open>TelemetryStore\<close> between them as a locale.  The evaluation that an
  accepted payload starts in a goroutine is a pending entry of \<open>evaluations\<close>, which may run at any
  later time and in any order.
\<close>

section \<open>The repository\<close>

text \<open>
  json.Marshal into the column of type jsonb and json.Unmarshal from it: a number comes back as a
  float64, and what is not finite is an error.
\<close>

fun finite_float :: "float64 \<Rightarrow> bool" where
  "finite_float (Fin q) \<longleftrightarrow> True"
| "finite_float _ \<longleftrightarrow> False"

definition json_float :: "float64 \<Rightarrow> goany option" where
  "json_float v = (if finite_float v then Some (GFloat64 v) else None)"

fun json_stored :: "goany \<Rightarrow> goany option" where
  "json_stored GNil = Some GNil"
| "json_stored (GBool b) = Some (GBool b)"
| "json_stored (GFloat64 v) = json_float v"
| "json_stored (GFloat32 v) = json_float v"
| "json_stored (GInt i) = json_float (fl_of_int i)"
| "json_stored (GInt64 i) = json_float (fl_of_int i)"
| "json_stored (GUint64 i) = json_float (fl_of_int i)"
| "json_stored (GString c) = Some (GString c)"
| "json_stored (GSlice vs) = map_option GSlice (those (map json_stored vs))"
| "json_stored (GMap m) =
     map_option GMap (those (map (\<lambda>kv. map_option (Pair (fst kv)) (json_stored (snd kv))) m))"

definition metrics_stored :: "(string \<times> goany) list \<Rightarrow> (string \<times> goany) list option" where
  "metrics_stored m = those (map (\<lambda>kv. map_option (Pair (fst kv)) (json_stored (snd kv))) m)"

text \<open>What encoding/json decodes into a value of type any.\<close>

fun is_json :: "goany \<Rightarrow> bool" where
  "is_json GNil \<longleftrightarrow> True"
| "is_json (GBool b) \<longleftrightarrow> True"
| "is_json (GFloat64 v) \<longleftrightarrow> finite_float v"
| "is_json (GString c) \<longleftrightarrow> True"
| "is_json (GSlice vs) \<longleftrightarrow> list_all is_json vs"
| "is_json (GMap m) \<longleftrightarrow> list_all (\<lambda>kv. is_json (snd kv)) m"
| "is_json _ \<longleftrightarrow> False"

definition insert_telemetry ::
  "AgentTelemetry \<Rightarrow> (string \<times> goany) list \<Rightarrow> 'a db_env_scheme \<Rightarrow> (dberr + unit) \<times> 'a db_env_scheme"
where
  "insert_telemetry t m s =
     (case time_Now s of (now, s1) \<Rightarrow>
       if at_AgentID t \<notin> ag_ID ` set (agents s1) then (Inl Constraint, s1)
       else (Inr (), s1\<lparr>telemetry := telemetry s1 @
         [\<lparr>tr_AgentID = at_AgentID t, tr_Timestamp = at_Timestamp t, tr_Metrics = m, tr_CreatedAt = now\<rparr>]\<rparr>))"

definition telemetry_Store :: "AgentTelemetry \<Rightarrow> 'a db_env_scheme \<Rightarrow> (dberr + unit) \<times> 'a db_env_scheme" where
  "telemetry_Store t s =
     (case metrics_stored (case at_Metrics t of None \<Rightarrow> [] | Some m \<Rightarrow> m) of
        None \<Rightarrow> (Inl DBFail, s)
      | Some m \<Rightarrow> db_run (insert_telemetry t m) s)"

definition telemetry_AgentExists :: "string \<Rightarrow> 'a db_env_scheme \<Rightarrow> (dberr + bool) \<times> 'a db_env_scheme" where
  "telemetry_AgentExists i = db_run (\<lambda>s. (Inr (i \<in> ag_ID ` set (agents s)), s))"

definition newest_first :: "TelemetryRecord list \<Rightarrow> TelemetryRecord list" where
  "newest_first rs = sort_key (\<lambda>t. - tr_Timestamp t) rs"

definition agent_records :: "string \<Rightarrow> TelemetryRecord list \<Rightarrow> TelemetryRecord list" where
  "agent_records i rs = filter (\<lambda>t. tr_AgentID t = i) rs"

definition telemetry_GetLatest ::
  "string \<Rightarrow> 'a db_env_scheme \<Rightarrow> (dberr + TelemetryRecord) \<times> 'a db_env_scheme"
where
  "telemetry_GetLatest i =
     db_run (\<lambda>s. (select_one (\<lambda>_. True) (newest_first (agent_records i (telemetry s))), s))"

text \<open>The conditions on the timestamp are added when a bound is given.\<close>

definition in_window :: "time \<Rightarrow> time \<Rightarrow> TelemetryRecord \<Rightarrow> bool" where
  "in_window from to t \<longleftrightarrow>
     (IsZero from \<or> from \<le> tr_Timestamp t) \<and> (IsZero to \<or> tr_Timestamp t \<le> to)"

definition telemetry_GetHistory ::
  "string \<Rightarrow> int \<Rightarrow> time \<Rightarrow> time \<Rightarrow> 'a db_env_scheme \<Rightarrow> (dberr + TelemetryRecord list) \<times> 'a db_env_scheme"
where
  "telemetry_GetHistory i lmt from to s =
     (case db_Query (\<lambda>s. take (nat lmt)
              (newest_first (filter (in_window from to) (agent_records i (telemetry s))))) s of
        (Inl e, s1) \<Rightarrow> (Inl e, s1)
      | (Inr (rows, rows_err), s1) \<Rightarrow> (if rows_err then Inl DBFail else Inr rows, s1))"

section \<open>The handler\<close>

record 's TelemetryStore =
  ts_Store :: "AgentTelemetry \<Rightarrow> 's \<Rightarrow> (dberr + unit) \<times> 's"
  ts_AgentExists :: "string \<Rightarrow> 's \<Rightarrow> (dberr + bool) \<times> 's"
  ts_GetLatest :: "string \<Rightarrow> 's \<Rightarrow> (dberr + TelemetryRecord) \<times> 's"
  ts_GetHistory :: "string \<Rightarrow> int \<Rightarrow> time \<Rightarrow> time \<Rightarrow> 's \<Rightarrow> (dberr + TelemetryRecord list) \<times> 's"

definition telemetry_repository :: "'a db_env_scheme TelemetryStore" where
  "telemetry_repository = \<lparr>ts_Store = telemetry_Store, ts_AgentExists = telemetry_AgentExists,
     ts_GetLatest = telemetry_GetLatest, ts_GetHistory = telemetry_GetHistory\<rparr>"

record 's TelemetryHandler =
  th_repository :: "'s TelemetryStore"
  th_hub :: bool
  th_engine :: bool

definition telemetry_NewHandler :: "'s TelemetryStore \<Rightarrow> 's TelemetryHandler" where
  "telemetry_NewHandler repo = \<lparr>th_repository = repo, th_hub = False, th_engine = False\<rparr>"

definition telemetry_WithEvents :: "'s TelemetryHandler \<Rightarrow> 's TelemetryHandler" where
  "telemetry_WithEvents h = h\<lparr>th_hub := True\<rparr>"

definition telemetry_WithAlerting :: "'s TelemetryHandler \<Rightarrow> 's TelemetryHandler" where
  "telemetry_WithAlerting h = h\<lparr>th_engine := True\<rparr>"

record telemetry_env = engine_env +
  evaluations :: "AgentTelemetry list"

record HistoryRecord =
  hr_Timestamp :: time
  hr_Metrics :: "(string \<times> goany) list"
  hr_CreatedAt :: time

datatype telemetry_json =
    MJ_accepted
  | MJ_record TelemetryRecord
  | MJ_history string "HistoryRecord list"

type_synonym time_parser = "string \<Rightarrow> time option"

definition decodeTelemetryPayload :: "AgentTelemetry decoder \<Rightarrow> request \<Rightarrow> AgentTelemetry \<times> bool" where
  "decodeTelemetryPayload decode r =
     (case decode (Body r) of (payload, bad) \<Rightarrow>
        (payload, bad \<or> TrimSpace (at_AgentID payload) = '''' \<or> IsZero (at_Timestamp payload) \<or>
                  at_Metrics payload = None))"

definition updated_event :: "AgentTelemetry \<Rightarrow> Event" where
  "updated_event p =
     new_event\<lparr>ev_Type := EventTelemetryUpdated, ev_AgentID := at_AgentID p, ev_Timestamp := at_Timestamp p,
       ev_Metrics := at_Metrics p\<rparr>"

type_synonym 'a telemetry_handler =
  "telemetry_json response \<Rightarrow> request \<Rightarrow> 'a telemetry_env_scheme \<Rightarrow>
   telemetry_json response \<times> 'a telemetry_env_scheme"

definition persistTelemetry ::
  "'a telemetry_env_scheme TelemetryHandler \<Rightarrow> telemetry_json response \<Rightarrow> AgentTelemetry \<Rightarrow>
   'a telemetry_env_scheme \<Rightarrow> telemetry_json response \<times> 'a telemetry_env_scheme"
where
  "persistTelemetry h w payload s =
     (case ts_Store (th_repository h) payload s of
        (Inl _, s1) \<Rightarrow> (sendError_nested ''failed to store telemetry'' 500 w, s1)
      | (Inr _, s1) \<Rightarrow>
          (let s2 = (if th_hub h then Publish (updated_event payload) s1 else s1);
               s3 = (if th_engine h then s2\<lparr>evaluations := evaluations s2 @ [payload]\<rparr> else s2)
           in (sendJSON 201 MJ_accepted w, s3)))"

definition Ingest_h ::
  "'a telemetry_env_scheme TelemetryHandler \<Rightarrow> AgentTelemetry decoder \<Rightarrow> 'a telemetry_handler"
where
  "Ingest_h h decode w r s =
     (if Method r \<noteq> ''POST'' then (sendError_nested ''method not allowed'' 405 w, s)
      else (case decodeTelemetryPayload decode r of (payload, bad) \<Rightarrow>
        if bad then (sendError_nested ''invalid telemetry payload'' 400 w, s)
        else (case ts_AgentExists (th_repository h) (at_AgentID payload) s of
            (Inl _, s1) \<Rightarrow> (sendError_nested ''failed to check agent existence'' 500 w, s1)
          | (Inr known, s1) \<Rightarrow>
              if \<not> known then (sendError_nested ''agent not found'' 404 w, s1)
              else persistTelemetry h w payload s1)))"

definition IngestForAgent_h ::
  "'a telemetry_env_scheme TelemetryHandler \<Rightarrow> AgentTelemetry decoder \<Rightarrow> 'a telemetry_handler"
where
  "IngestForAgent_h h decode w r s =
     (if Method r \<noteq> ''POST'' then (sendError_nested ''method not allowed'' 405 w, s)
      else if PathValue r ''id'' = '''' then (sendError_nested ''agent ID path parameter is required'' 400 w, s)
      else (case decodeTelemetryPayload decode r of (payload, bad) \<Rightarrow>
        if bad then (sendError_nested ''invalid telemetry payload'' 400 w, s)
        else if at_AgentID payload \<noteq> PathValue r ''id''
        then (sendError_nested ''agent_id in payload does not match path parameter'' 400 w, s)
        else (case ts_AgentExists (th_repository h) (PathValue r ''id'') s of
            (Inl _, s1) \<Rightarrow> (sendError_nested ''failed to check agent existence'' 500 w, s1)
          | (Inr known, s1) \<Rightarrow>
              if \<not> known then (sendError_nested ''agent not found'' 404 w, s1)
              else persistTelemetry h w payload s1)))"

text \<open>The check that opens both endpoints that read.\<close>

definition known_agent ::
  "'s TelemetryHandler \<Rightarrow> telemetry_json response \<Rightarrow> request \<Rightarrow> 's \<Rightarrow>
   (telemetry_json response + unit) \<times> 's"
where
  "known_agent h w r s =
     (if Method r \<noteq> ''GET'' then (Inl (sendError_nested ''method not allowed'' 405 w), s)
      else if PathValue r ''id'' = '''' then (Inl (sendError_nested ''agent ID is required'' 400 w), s)
      else (case ts_AgentExists (th_repository h) (PathValue r ''id'') s of
          (Inl _, s1) \<Rightarrow> (Inl (sendError_nested ''failed to check agent existence'' 500 w), s1)
        | (Inr known, s1) \<Rightarrow>
            (if \<not> known then Inl (sendError_nested ''agent not found'' 404 w) else Inr (), s1)))"

definition GetLatest_h ::
  "'s TelemetryHandler \<Rightarrow> telemetry_json response \<Rightarrow> request \<Rightarrow> 's \<Rightarrow> telemetry_json response \<times> 's"
where
  "GetLatest_h h w r s =
     (case known_agent h w r s of
        (Inl w1, s1) \<Rightarrow> (w1, s1)
      | (Inr _, s1) \<Rightarrow>
          (case ts_GetLatest (th_repository h) (PathValue r ''id'') s1 of
             (Inl e, s2) \<Rightarrow>
               (if e = NoRows then (sendError_nested ''no telemetry records found for agent'' 404 w, s2)
                else (sendError_nested ''failed to retrieve latest telemetry'' 500 w, s2))
           | (Inr rec, s2) \<Rightarrow> (sendJSON 200 (MJ_record rec) w, s2)))"

definition history_record :: "TelemetryRecord \<Rightarrow> HistoryRecord" where
  "history_record t = \<lparr>hr_Timestamp = tr_Timestamp t, hr_Metrics = tr_Metrics t, hr_CreatedAt = tr_CreatedAt t\<rparr>"

definition history_limit :: "string \<Rightarrow> string + int" where
  "history_limit limitStr =
     (if limitStr = '''' then Inr 50
      else (case strconv_Atoi limitStr of
          None \<Rightarrow> Inl ''invalid limit parameter''
        | Some parsed \<Rightarrow>
            if parsed \<le> 0 then Inl ''invalid limit parameter''
            else if parsed > 500 then Inl ''limit cannot exceed 500''
            else Inr parsed))"

definition history_time :: "time_parser \<Rightarrow> string \<Rightarrow> string \<Rightarrow> string + time" where
  "history_time parse name str =
     (if str = '''' then Inr zero_time
      else (case parse str of
          None \<Rightarrow> Inl (''invalid '' @ name @ '' parameter format (expected RFC3339)'')
        | Some t \<Rightarrow> Inr t))"

definition GetHistory_h ::
  "'s TelemetryHandler \<Rightarrow> time_parser \<Rightarrow> telemetry_json response \<Rightarrow> request \<Rightarrow> 's \<Rightarrow>
   telemetry_json response \<times> 's"
where
  "GetHistory_h h parse w r s =
     (case known_agent h w r s of
        (Inl w1, s1) \<Rightarrow> (w1, s1)
      | (Inr _, s1) \<Rightarrow>
          (case history_limit (Query_Get r ''limit'') of
             Inl m \<Rightarrow> (sendError_nested m 400 w, s1)
           | Inr lmt \<Rightarrow>
          (case history_time parse ''from'' (Query_Get r ''from'') of
             Inl m \<Rightarrow> (sendError_nested m 400 w, s1)
           | Inr from \<Rightarrow>
          (case history_time parse ''to'' (Query_Get r ''to'') of
             Inl m \<Rightarrow> (sendError_nested m 400 w, s1)
           | Inr to \<Rightarrow>
          (case ts_GetHistory (th_repository h) (PathValue r ''id'') lmt from to s1 of
             (Inl _, s2) \<Rightarrow> (sendError_nested ''failed to retrieve historical telemetry'' 500 w, s2)
           | (Inr records, s2) \<Rightarrow>
               (sendJSON 200 (MJ_history (PathValue r ''id'') (map history_record records)) w, s2))))))"

text \<open>A goroutine runs: one of the pending evaluations.\<close>

definition run_evaluation :: "Engine \<Rightarrow> nat \<Rightarrow> 'a telemetry_env_scheme \<Rightarrow> 'a telemetry_env_scheme" where
  "run_evaluation g i s =
     (if i < length (evaluations s)
      then EvaluateTelemetry g (evaluations s ! i)
             (s\<lparr>evaluations := take i (evaluations s) @ drop (Suc i) (evaluations s)\<rparr>)
      else s)"


section \<open>The contract of a telemetry store\<close>

text \<open>
  What the handler relies on: a store that works knows a set of agents and appends to a log of
  records; \<open>known\<close> and \<open>log_of\<close> are these in a state, \<open>ok\<close> the states it works in.
\<close>

locale telemetry_store =
  fixes store :: "'s TelemetryStore" and ok :: "'s \<Rightarrow> bool" and known :: "'s \<Rightarrow> string set"
    and log_of :: "'s \<Rightarrow> TelemetryRecord list"
  assumes store_ok: "ok s \<Longrightarrow> at_AgentID t \<in> known s \<Longrightarrow> at_Metrics t = Some m \<Longrightarrow> metrics_stored m = Some m' \<Longrightarrow>
      ts_Store store t s = (out, s') \<Longrightarrow>
      out = Inr () \<and> ok s' \<and> known s' = known s \<and>
      (\<exists>now. log_of s' = log_of s @
         [\<lparr>tr_AgentID = at_AgentID t, tr_Timestamp = at_Timestamp t, tr_Metrics = m', tr_CreatedAt = now\<rparr>])"
    and exists_ok: "ok s \<Longrightarrow> ts_AgentExists store i s = (b, s') \<Longrightarrow>
      b = Inr (i \<in> known s) \<and> ok s' \<and> known s' = known s \<and> log_of s' = log_of s"
    and latest_ok: "ok s \<Longrightarrow> ts_GetLatest store i s = (rec, s') \<Longrightarrow>
      rec = (case newest_first (agent_records i (log_of s)) of [] \<Rightarrow> Inl NoRows | x # _ \<Rightarrow> Inr x) \<and>
      ok s' \<and> known s' = known s \<and> log_of s' = log_of s"
    and history_ok: "ok s \<Longrightarrow> ts_GetHistory store i n from to s = (recs, s') \<Longrightarrow>
      recs = Inr (take (nat n) (newest_first (filter (in_window from to) (agent_records i (log_of s))))) \<and>
      ok s' \<and> known s' = known s \<and> log_of s' = log_of s"
begin

lemma known_agent_ok:
  assumes "ok s" and "th_repository h = store" and "Method r = ''GET''" and "PathValue r ''id'' \<noteq> ''''"
  shows "\<exists>s1. ok s1 \<and> known s1 = known s \<and> log_of s1 = log_of s \<and> known_agent h w r s =
    (if PathValue r ''id'' \<in> known s then Inr () else Inl (sendError_nested ''agent not found'' 404 w), s1)"
proof -
  obtain b s1 where ex: "ts_AgentExists store (PathValue r ''id'') s = (b, s1)" by fastforce
  then have "known_agent h w r s =
      (if PathValue r ''id'' \<in> known s then Inr () else Inl (sendError_nested ''agent not found'' 404 w), s1)"
    using assms(2-4) exists_ok [OF assms(1) ex] by (simp add: known_agent_def)
  then show ?thesis using exists_ok [OF assms(1) ex] by blast
qed

lemma GetLatest_h_log:
  assumes "ok s" and "th_repository h = store" and "Method r = ''GET''" and "PathValue r ''id'' \<noteq> ''''"
    and "PathValue r ''id'' \<in> known s"
  shows "fst (GetLatest_h h w r s) =
    (case newest_first (agent_records (PathValue r ''id'') (log_of s)) of
       [] \<Rightarrow> sendError_nested ''no telemetry records found for agent'' 404 w
     | x # _ \<Rightarrow> sendJSON 200 (MJ_record x) w)"
proof -
  obtain s1 where s1: "ok s1" "log_of s1 = log_of s" "known_agent h w r s = (Inr (), s1)"
    using known_agent_ok [OF assms(1-4), of w] assms(5) by auto
  obtain rec s2 where "ts_GetLatest store (PathValue r ''id'') s1 = (rec, s2)" by fastforce
  then show ?thesis
    using s1(3) assms(2) latest_ok [OF s1(1), of "PathValue r ''id''" rec s2] s1(2)
    by (auto simp: GetLatest_h_def split: list.split)
qed

lemma GetHistory_h_log:
  assumes "ok s" and "th_repository h = store" and "Method r = ''GET''" and "PathValue r ''id'' \<noteq> ''''"
    and "PathValue r ''id'' \<in> known s" and "history_limit (Query_Get r ''limit'') = Inr n"
    and "history_time parse ''from'' (Query_Get r ''from'') = Inr from"
    and "history_time parse ''to'' (Query_Get r ''to'') = Inr to"
  shows "fst (GetHistory_h h parse w r s) =
    sendJSON 200 (MJ_history (PathValue r ''id'') (map history_record
      (take (nat n) (newest_first (filter (in_window from to) (agent_records (PathValue r ''id'') (log_of s))))))) w"
proof -
  obtain s1 where s1: "ok s1" "log_of s1 = log_of s" "known_agent h w r s = (Inr (), s1)"
    using known_agent_ok [OF assms(1-4), of w] assms(5) by auto
  obtain recs s2 where "ts_GetHistory store (PathValue r ''id'') n from to s1 = (recs, s2)" by fastforce
  then show ?thesis
    using s1(3) assms(2,6-8) history_ok [OF s1(1), of "PathValue r ''id''" n "from" to recs s2] s1(2)
    by (simp add: GetHistory_h_def)
qed

end

text \<open>The repository over a database that works.\<close>

interpretation telemetry_repo: telemetry_store "telemetry_repository :: 'a db_env_scheme TelemetryStore" reliable
  "\<lambda>s. ag_ID ` set (agents s)" telemetry
proof (unfold_locales, goal_cases)
  case (1 s t m m' out s')
  then show ?case
    by (auto simp: telemetry_repository_def telemetry_Store_def db_run_reliable insert_telemetry_def time_Now_def reliable_def)
next
  case (2 s i b s')
  then show ?case
    by (auto simp: telemetry_repository_def telemetry_AgentExists_def db_run_reliable)
next
  case (3 s i rec s')
  then show ?case
    by (auto simp: telemetry_repository_def telemetry_GetLatest_def db_run_reliable select_one_def split: list.split)
next
  case (4 s i n "from" to recs s')
  then show ?case
    by (auto simp: telemetry_repository_def telemetry_GetHistory_def db_Query_reliable)
qed


section \<open>Lemmas\<close>

lemma those_map_Some: "(\<And>x. x \<in> set xs \<Longrightarrow> f x = Some (g x)) \<Longrightarrow> those (map f xs) = Some (map g xs)"
  by (induction xs) auto

lemma those_map_id: "(\<And>x. x \<in> set xs \<Longrightarrow> f x = Some x) \<Longrightarrow> those (map f xs) = Some xs"
  using those_map_Some [of xs f "\<lambda>x. x"] by simp

text \<open>Decoded JSON survives the column.\<close>

lemma json_stored_id: "is_json v \<Longrightarrow> json_stored v = Some v"
proof (induction v rule: is_json.induct)
  case (5 vs)
  then have "those (map json_stored vs) = Some vs" by (intro those_map_id) (simp add: list_all_iff)
  then show ?case by simp
next
  case (6 m)
  then have "those (map (\<lambda>kv. map_option (Pair (fst kv)) (json_stored (snd kv))) m) = Some m"
    by (intro those_map_id) (simp add: list_all_iff)
  then show ?case by simp
qed (simp_all add: json_float_def)

lemma metrics_stored_id: "list_all (\<lambda>kv. is_json (snd kv)) m \<Longrightarrow> metrics_stored m = Some m"
  unfolding metrics_stored_def by (intro those_map_id) (simp add: list_all_iff json_stored_id)

lemma newest_first_hd:
  assumes "newest_first rs = x # xs"
  shows "x \<in> set rs" and "y \<in> set rs \<Longrightarrow> tr_Timestamp y \<le> tr_Timestamp x"
proof -
  have "set rs = set (x # xs)" using assms by (metis newest_first_def set_sort)
  moreover have "sorted (map (\<lambda>t. - tr_Timestamp t) (x # xs))"
    unfolding assms [symmetric] newest_first_def by (rule sorted_sort_key)
  ultimately show "x \<in> set rs" and "y \<in> set rs \<Longrightarrow> tr_Timestamp y \<le> tr_Timestamp x" by auto
qed

text \<open>A record that is newer than all others comes first.\<close>

lemma newest_first_snoc:
  assumes "\<And>y. y \<in> set rs \<Longrightarrow> tr_Timestamp y < tr_Timestamp x"
  obtains xs where "newest_first (rs @ [x]) = x # xs"
proof -
  have "set (newest_first (rs @ [x])) = set (rs @ [x])" by (simp only: newest_first_def set_sort)
  then obtain z zs where z: "newest_first (rs @ [x]) = z # zs" by (cases "newest_first (rs @ [x])") auto
  have "z \<in> set (rs @ [x])" by (rule newest_first_hd(1) [OF z])
  moreover have "tr_Timestamp x \<le> tr_Timestamp z" by (rule newest_first_hd(2) [OF z]) simp
  ultimately have "z = x" using assms [of z] by auto
  with z that show thesis by blast
qed

text \<open>What a limit keeps of the records and what it leaves.\<close>

lemma newest_first_take:
  "mset (take k (newest_first rs) @ drop k (newest_first rs)) = mset rs"
  "length (take k (newest_first rs)) = min k (length (take k (newest_first rs) @ drop k (newest_first rs)))"
  "sorted_wrt (\<lambda>x y. tr_Timestamp y \<le> tr_Timestamp x) (take k (newest_first rs))"
  "list_all (\<lambda>x. list_all (\<lambda>y. tr_Timestamp y \<le> tr_Timestamp x) (drop k (newest_first rs))) (take k (newest_first rs))"
proof -
  have "sorted_wrt (\<lambda>x y. tr_Timestamp y \<le> tr_Timestamp x) (take k (newest_first rs) @ drop k (newest_first rs))"
    using sorted_sort_key [of "\<lambda>t. - tr_Timestamp t"] by (simp add: newest_first_def sorted_map)
  then show "sorted_wrt (\<lambda>x y. tr_Timestamp y \<le> tr_Timestamp x) (take k (newest_first rs))"
    and "list_all (\<lambda>x. list_all (\<lambda>y. tr_Timestamp y \<le> tr_Timestamp x) (drop k (newest_first rs))) (take k (newest_first rs))"
    unfolding sorted_wrt_append by (simp_all add: list_all_iff)
qed (simp_all add: newest_first_def min.commute)

definition server_handler :: "'a telemetry_env_scheme TelemetryHandler" where
  "server_handler = telemetry_WithAlerting (telemetry_WithEvents (telemetry_NewHandler telemetry_repository))"

lemma server_handler_fields [simp]:
  "th_repository server_handler = telemetry_repository" "th_hub server_handler" "th_engine server_handler"
  by (simp_all add: server_handler_def telemetry_WithAlerting_def telemetry_WithEvents_def telemetry_NewHandler_def)

lemma Publish_keeps [simp]:
  "telemetry (Publish e s) = telemetry s" "agents (Publish e s) = agents s" "faults (Publish e s) = faults s"
  by (simp_all add: Publish_def time_Now_def)

lemma Publish_evaluations [simp]: "evaluations (Publish e s) = evaluations s"
  by (simp add: Publish_def time_Now_def)

text \<open>
  What an accepted payload leaves behind: one row with the metrics as the column reads them back, its
  event offered to the hub, and its evaluation to run.
\<close>

definition accepted_state ::
  "AgentTelemetry \<Rightarrow> (string \<times> goany) list \<Rightarrow> 'a telemetry_env_scheme \<Rightarrow> 'a telemetry_env_scheme"
where
  "accepted_state p m s =
     s\<lparr>fault_pos := fault_pos s + 2, clock_pos := clock_pos s + 1,
       telemetry := telemetry s @
         [\<lparr>tr_AgentID = at_AgentID p, tr_Timestamp = at_Timestamp p, tr_Metrics = m,
           tr_CreatedAt = clock s (clock_pos s)\<rparr>],
       hub := hub_offer \<lparr>ev_Type = ''telemetry.updated'', ev_AgentID = at_AgentID p,
         ev_Timestamp = at_Timestamp p, ev_Metrics = at_Metrics p, ev_Alert = None, ev_Status = '''',
         ev_Data = None\<rparr> (hub s),
       evaluations := evaluations s @ [p]\<rparr>"

text \<open>The outcomes of an ingestion with a working database.\<close>

lemma Ingest_h_cases:
  assumes "reliable s" and "Method r = ''POST''" and "decodeTelemetryPayload decode r = (p, False)"
  obtains (stored) m m' now where "at_AgentID p \<in> ag_ID ` set (agents s)" "at_Metrics p = Some m" "metrics_stored m = Some m'"
      "now = clock s (clock_pos s)"
      "snd (Ingest_h server_handler decode w r s) = accepted_state p m' s"
      "fst (Ingest_h server_handler decode w r s) = sendJSON 201 MJ_accepted w"
      "telemetry (snd (Ingest_h server_handler decode w r s)) = telemetry s @
         [\<lparr>tr_AgentID = at_AgentID p, tr_Timestamp = at_Timestamp p, tr_Metrics = m', tr_CreatedAt = now\<rparr>]"
      "agents (snd (Ingest_h server_handler decode w r s)) = agents s"
      "evaluations (snd (Ingest_h server_handler decode w r s)) = evaluations s @ [p]"
      "reliable (snd (Ingest_h server_handler decode w r s))"
  | (unknown) "at_AgentID p \<notin> ag_ID ` set (agents s)"
      "Ingest_h server_handler decode w r s = (sendError_nested ''agent not found'' 404 w, s\<lparr>fault_pos := Suc (fault_pos s)\<rparr>)"
  | (unstorable) m where "at_AgentID p \<in> ag_ID ` set (agents s)" "at_Metrics p = Some m" "metrics_stored m = None"
      "Ingest_h server_handler decode w r s = (sendError_nested ''failed to store telemetry'' 500 w, s\<lparr>fault_pos := Suc (fault_pos s)\<rparr>)"
proof -
  let ?s1 = "s\<lparr>fault_pos := Suc (fault_pos s)\<rparr>"
  obtain m where m: "at_Metrics p = Some m"
    using assms(3) by (auto simp: decodeTelemetryPayload_def split: prod.splits)
  have ex: "telemetry_AgentExists i s = (Inr (i \<in> ag_ID ` set (agents s)), ?s1)" for i
    by (simp add: telemetry_AgentExists_def db_run_reliable [OF assms(1)])
  have run: "Ingest_h server_handler decode w r s =
      (if at_AgentID p \<in> ag_ID ` set (agents s) then persistTelemetry server_handler w p ?s1
       else (sendError_nested ''agent not found'' 404 w, ?s1))"
    using assms(2,3) by (simp add: Ingest_h_def telemetry_repository_def ex)
  show thesis
  proof (cases "at_AgentID p \<in> ag_ID ` set (agents s)")
    case False
    then show thesis by (intro unknown) (simp_all add: run)
  next
    case known: True
    show thesis
    proof (cases "metrics_stored m")
      case None
      then show thesis
        using known m by (intro unstorable [of m]) (simp_all add: run persistTelemetry_def telemetry_repository_def telemetry_Store_def)
    next
      case (Some m')
      have "reliable ?s1" using assms(1) by simp
      then have "telemetry_Store p ?s1 = (Inr (), s\<lparr>fault_pos := Suc (Suc (fault_pos s)), clock_pos := Suc (clock_pos s),
          telemetry := telemetry s @ [\<lparr>tr_AgentID = at_AgentID p, tr_Timestamp = at_Timestamp p, tr_Metrics = m',
            tr_CreatedAt = clock s (clock_pos s)\<rparr>]\<rparr>)"
        using known m Some by (simp add: telemetry_Store_def db_run_reliable insert_telemetry_def time_Now_def)
      then show thesis
        using known m Some assms(1,3)
        by (intro stored) (auto simp: run persistTelemetry_def telemetry_repository_def reliable_def
            accepted_state_def Publish_def updated_event_def new_event_def EventTelemetryUpdated_def
            decodeTelemetryPayload_def split: prod.splits)
    qed
  qed
qed

section \<open>Properties\<close>

text \<open>
  C29: Every branch of an ingestion.  With a working database the endpoint answers 405 to any method
  but POST; 400 when the body does not decode, the agent id is blank, the timestamp is zero or there
  are no metrics; 404 when the agent is unknown; 500 when the metrics cannot be written as JSON; and
  201 otherwise.  Only with 201 does anything change (but for the count of statements): one row is
  added with the agent, the timestamp and the metrics, the event telemetry.updated is offered to the
  hub, and the evaluation of the payload is started.
\<close>

theorem ingest_outcome:
  assumes "reliable s" and "status w = None" and "Ingest_h server_handler decode w r s = (w', s')"
    and "decode (Body r) = (p, bad)"
  shows "(if Method r \<noteq> ''POST'' then status w' = Some 405 \<and> s' = s
    else if bad \<or> TrimSpace (at_AgentID p) = '''' \<or> IsZero (at_Timestamp p) \<or> at_Metrics p = None
    then status w' = Some 400 \<and> s' = s
    else if at_AgentID p \<notin> ag_ID ` set (agents s)
    then status w' = Some 404 \<and> s' = s\<lparr>fault_pos := Suc (fault_pos s)\<rparr>
    else (case metrics_stored (the (at_Metrics p)) of
        None \<Rightarrow> status w' = Some 500 \<and> s' = s\<lparr>fault_pos := Suc (fault_pos s)\<rparr>
      | Some m \<Rightarrow> status w' = Some 201 \<and> s' = accepted_state p m s))"
proof (cases "Method r = ''POST'' \<and> \<not> snd (decodeTelemetryPayload decode r)")
  case False
  then show ?thesis
    using assms(2-4) by (auto simp: Ingest_h_def decodeTelemetryPayload_def split: if_splits)
next
  case True
  have p: "decodeTelemetryPayload decode r = (p, False)" "\<not> bad" "TrimSpace (at_AgentID p) \<noteq> ''''"
    "\<not> IsZero (at_Timestamp p)" "at_Metrics p \<noteq> None"
    using True assms(4) by (auto simp: decodeTelemetryPayload_def)
  have post: "Method r = ''POST''" using True by simp
  note [simp] = assms(3) p(2-5) post
  show ?thesis
    using assms(1) post p(1)
  proof (cases rule: Ingest_h_cases [where w = w])
    case (stored m m' now)
    have "s' = accepted_state p m' s" using stored(5) by simp
    then show ?thesis using stored(1-3,6) assms(2) by simp
  next
    case unknown
    then show ?thesis using assms(2) by simp
  next
    case (unstorable m)
    then show ?thesis using assms(2) by simp
  qed
qed

definition telemetry_start :: "TelemetryRecord list \<Rightarrow> telemetry_env" where
  "telemetry_start ts = \<lparr>clock = int, clock_pos = 5, faults = (\<lambda>_. F_ok), fault_pos = 0,
     agents = [\<lparr>ag_ID = ''a1'', ag_Name = ''web'', ag_Hostname = ''h'', ag_OS = ''linux'', ag_Arch = ''amd64'',
       ag_Version = ''1'', ag_Status = ''online'', ag_LastSeen = 0, ag_CreatedAt = 0\<rparr>],
     telemetry = ts, alert_rules = [], alerts = [], alert_comments = [], notification_channels = [],
     notification_deliveries = [], api_tokens = [], telemetry_hourly = [], hub = NewHub,
     net = (\<lambda>_. Net_status 200), net_pos = 0, net_log = [], queue = NewQueue 4 256 3 (10 * time_Second),
     queue_panic = False, sleeps = [], sustained = (\<lambda>_. None), evaluations = []\<rparr>"

definition cpu_metrics :: "rat \<Rightarrow> (string \<times> goany) list" where
  "cpu_metrics q = [(''system'', GMap [(''cpu'', GMap [(''usage_percent'', GFloat64 (Fin q))])])]"

definition cpu_payload :: "time \<Rightarrow> rat \<Rightarrow> AgentTelemetry" where
  "cpu_payload t q = \<lparr>at_AgentID = ''a1'', at_Timestamp = t, at_Metrics = Some (cpu_metrics q)\<rparr>"

definition cpu_record :: "time \<Rightarrow> rat \<Rightarrow> TelemetryRecord" where
  "cpu_record t q = \<lparr>tr_AgentID = ''a1'', tr_Timestamp = t, tr_Metrics = cpu_metrics q, tr_CreatedAt = t\<rparr>"

definition telemetry_request :: "string \<Rightarrow> request" where
  "telemetry_request m = \<lparr>Method = m, URL_Path = '''', RemoteAddr = '''', Header_Get = (\<lambda>_. ''''),
     PathValue = (\<lambda>_. ''a1''), Query_Get = (\<lambda>k. if k = ''limit'' then ''2'' else ''''), Body = '''',
     ctx_role = None, ctx_token = None, ctx_request_id = None\<rparr>"

lemma telemetry_start_reliable: "reliable (telemetry_start ts)"
  by (simp add: reliable_def telemetry_start_def)

lemma cpu_payload_decoded:
  "decodeTelemetryPayload (\<lambda>_. (cpu_payload t q, False)) r = (cpu_payload t q, IsZero t)"
proof -
  have "TrimSpace ''a1'' \<noteq> ''''" by code_simp
  then show ?thesis by (simp add: decodeTelemetryPayload_def cpu_payload_def)
qed

theorem ingest_outcome_witness:
  "telemetry (snd (Ingest_h server_handler (\<lambda>_. (cpu_payload 9 50, False)) new_response (telemetry_request ''POST'')
     (telemetry_start [cpu_record 3 10]))) = [cpu_record 3 10, cpu_record 9 50\<lparr>tr_CreatedAt := 5\<rparr>] \<and>
   evaluations (snd (Ingest_h server_handler (\<lambda>_. (cpu_payload 9 50, False)) new_response (telemetry_request ''POST'')
     (telemetry_start [cpu_record 3 10]))) = [cpu_payload 9 50]"
proof -
  let ?s = "telemetry_start [cpu_record 3 10]"
  let ?p = "cpu_payload 9 50"
  let ?run = "Ingest_h server_handler (\<lambda>_. (?p, False)) new_response (telemetry_request ''POST'') ?s"
  have "status (new_response :: telemetry_json response) = None" by simp
  note run = ingest_outcome [OF telemetry_start_reliable this, of "\<lambda>_. (?p, False)" "telemetry_request ''POST''"
      "[cpu_record 3 10]" "fst ?run" "snd ?run" ?p False]
  have m: "at_Metrics ?p = Some (cpu_metrics 50)" by (simp add: cpu_payload_def)
  have stored: "metrics_stored (cpu_metrics 50) = Some (cpu_metrics 50)"
    by (rule metrics_stored_id) (simp add: cpu_metrics_def)
  have "TrimSpace ''a1'' \<noteq> ''''" by code_simp
  then have req: "TrimSpace (at_AgentID ?p) \<noteq> ''''" "Method (telemetry_request ''POST'') = ''POST''"
    "\<not> IsZero (at_Timestamp ?p)" "at_AgentID ?p \<in> ag_ID ` set (agents ?s)"
    by (simp_all add: telemetry_request_def cpu_payload_def IsZero_def zero_time_def telemetry_start_def)
  have "snd ?run = accepted_state ?p (cpu_metrics 50) ?s" using run by (simp add: m stored req)
  then show ?thesis
    by (simp add: accepted_state_def) (simp add: telemetry_start_def cpu_payload_def cpu_record_def)
qed

text \<open>
  What was ingested is read back.  After an accepted payload whose timestamp is later than that of
  every stored record of its agent, the endpoint for the latest telemetry answers 200 with a record of
  this agent, this timestamp and exactly these metrics, in every state with the same telemetry and
  agents and a working database.
\<close>

theorem ingest_then_latest:
  assumes "reliable s" and "status w = None" and "Ingest_h server_handler decode w r s = (w', s')"
    and "status w' = Some 201" and "decode (Body r) = (p, bad)"
    and "\<And>m. at_Metrics p = Some m \<Longrightarrow> list_all (\<lambda>kv. is_json (snd kv)) m"
    and "\<And>y. y \<in> set (agent_records (at_AgentID p) (telemetry s)) \<Longrightarrow> tr_Timestamp y < at_Timestamp p"
    and "Method q = ''GET''" and "PathValue q ''id'' = at_AgentID p"
    and "reliable t" and "telemetry t = telemetry s'" and "agents t = agents s'"
  shows "\<exists>rec. fst (GetLatest_h server_handler v q t) = sendJSON 200 (MJ_record rec) v \<and>
    tr_AgentID rec = at_AgentID p \<and> tr_Timestamp rec = at_Timestamp p \<and> at_Metrics p = Some (tr_Metrics rec)"
proof -
  have accepted: "Method r = ''POST''" "decodeTelemetryPayload decode r = (p, False)"
    using assms(2-5) by (auto simp: Ingest_h_def decodeTelemetryPayload_def case_prod_beta split: if_splits)
  from assms(1) accepted show ?thesis
  proof (cases rule: Ingest_h_cases [where w = w])
    case (stored m m' now)
    let ?rec = "\<lparr>tr_AgentID = at_AgentID p, tr_Timestamp = at_Timestamp p, tr_Metrics = m', tr_CreatedAt = now\<rparr>"
    have m': "m' = m" using stored(3) metrics_stored_id [OF assms(6) [OF stored(2)]] by simp
    have "agent_records (at_AgentID p) (telemetry t) = agent_records (at_AgentID p) (telemetry s) @ [?rec]"
      using stored(7) assms(3,11) by (simp add: agent_records_def)
    then obtain xs where "newest_first (agent_records (at_AgentID p) (telemetry t)) = ?rec # xs"
      using newest_first_snoc [of "agent_records (at_AgentID p) (telemetry s)" ?rec] assms(7) by auto
    moreover have "at_AgentID p \<in> ag_ID ` set (agents t)" using stored(1,8) assms(3,12) by simp
    moreover have "at_AgentID p \<noteq> ''''"
    proof
      assume "at_AgentID p = ''''"
      moreover have "TrimSpace '''' = ''''" by code_simp
      ultimately show False using accepted(2) by (auto simp: decodeTelemetryPayload_def split: prod.splits)
    qed
    ultimately have "fst (GetLatest_h server_handler v q t) = sendJSON 200 (MJ_record ?rec) v"
      using telemetry_repo.GetLatest_h_log [OF assms(10) _ assms(8), of server_handler v] assms(9) by simp
    then show ?thesis using stored(2) m' by (intro exI [of _ ?rec]) simp
  next
    case unknown
    then show ?thesis using assms(2-4) by auto
  next
    case (unstorable m)
    then show ?thesis using assms(2-4) by auto
  qed
qed

theorem ingest_then_latest_witness:
  "\<exists>rec. fst (GetLatest_h server_handler new_response (telemetry_request ''GET'')
     (snd (Ingest_h server_handler (\<lambda>_. (cpu_payload 9 50, False)) new_response (telemetry_request ''POST'')
        (telemetry_start [cpu_record 3 10])))) = sendJSON 200 (MJ_record rec) new_response \<and>
     tr_Timestamp rec = 9 \<and> tr_Metrics rec = cpu_metrics 50"
proof -
  let ?r = "telemetry_request ''POST''"
  let ?d = "\<lambda>_ :: string. (cpu_payload 9 50, False)"
  let ?s = "telemetry_start [cpu_record 3 10]"
  have new: "status (new_response :: telemetry_json response) = None" by simp
  have m: "metrics_stored (cpu_metrics 50) = Some (cpu_metrics 50)"
    by (rule metrics_stored_id) (simp add: cpu_metrics_def)
  have post: "Method ?r = ''POST''" "decodeTelemetryPayload ?d ?r = (cpu_payload 9 50, False)"
    by (simp_all add: telemetry_request_def cpu_payload_decoded IsZero_def zero_time_def)
  have p: "at_AgentID (cpu_payload 9 50) \<in> ag_ID ` set (agents ?s)" "at_Metrics (cpu_payload 9 50) = Some (cpu_metrics 50)"
    by (simp_all add: telemetry_start_def cpu_payload_def)
  have "status (fst (Ingest_h server_handler ?d new_response ?r ?s)) = Some 201 \<and>
      reliable (snd (Ingest_h server_handler ?d new_response ?r ?s))"
    by (cases rule: Ingest_h_cases [where w = new_response, OF telemetry_start_reliable [of "[cpu_record 3 10]"] post])
      (use p m new in auto)
  then have st: "status (fst (Ingest_h server_handler ?d new_response ?r ?s)) = Some 201"
    and rel: "reliable (snd (Ingest_h server_handler ?d new_response ?r ?s))" by simp_all
  show ?thesis
    using ingest_then_latest [OF telemetry_start_reliable new prod.collapse [symmetric] st refl _ _ _ _ rel refl refl,
        of "telemetry_request ''GET''" new_response]
    by (auto simp: cpu_payload_def cpu_metrics_def telemetry_request_def telemetry_start_def agent_records_def cpu_record_def)
qed


text \<open>What a request for the history asks for, if it is well formed: the limit is 1 to 500.\<close>

definition asked_limit :: "string \<Rightarrow> int option" where
  "asked_limit str =
     (if str = '''' then Some 50
      else (case strconv_Atoi str of None \<Rightarrow> None | Some n \<Rightarrow> if 1 \<le> n \<and> n \<le> 500 then Some n else None))"

definition asked_time :: "time_parser \<Rightarrow> string \<Rightarrow> time option" where
  "asked_time parse str = (if str = '''' then Some zero_time else parse str)"

lemma asked_limit_Inr: "history_limit str = Inr n \<longleftrightarrow> asked_limit str = Some n"
  by (auto simp: history_limit_def asked_limit_def split: option.split)

lemma asked_time_Inr: "history_time parse name str = Inr t \<longleftrightarrow> asked_time parse str = Some t"
  by (auto simp: history_time_def asked_time_def split: option.split)

lemma asked_bad:
  "asked_limit str = None \<Longrightarrow> \<exists>m. history_limit str = Inl m"
  "asked_time parse str = None \<Longrightarrow> \<exists>m. history_time parse name str = Inl m"
  by (auto simp: history_limit_def asked_limit_def history_time_def asked_time_def split: option.splits if_splits)

text \<open>
  C31: The history is the newest part of the window, on every branch.  With a working database the
  endpoint answers 405 to any method but GET, 400 without an agent id, 404 for an unknown agent, and
  400 exactly when the limit is neither missing nor an integer from 1 to 500 or a bound is neither
  missing nor parses.  Otherwise it answers 200 with as many of the agent's records in the window as
  the limit allows (50 by default), latest first, and none that it leaves out is later than one that
  it gives.
\<close>

theorem history_newest:
  assumes "reliable s" and "status w = None" and "GetHistory_h server_handler parse w r s = (w', s')"
  shows "(if Method r \<noteq> ''GET'' then status w' = Some 405
    else if PathValue r ''id'' = '''' then status w' = Some 400
    else if PathValue r ''id'' \<notin> ag_ID ` set (agents s) then status w' = Some 404
    else (case (asked_limit (Query_Get r ''limit''), asked_time parse (Query_Get r ''from''),
            asked_time parse (Query_Get r ''to'')) of
        (Some n, Some from, Some to) \<Rightarrow>
          (\<exists>given left.
             mset (given @ left) = mset (filter (in_window from to) (agent_records (PathValue r ''id'') (telemetry s))) \<and>
             length given = min (nat n) (length (given @ left)) \<and>
             sorted_wrt (\<lambda>x y. tr_Timestamp y \<le> tr_Timestamp x) given \<and>
             list_all (\<lambda>x. list_all (\<lambda>y. tr_Timestamp y \<le> tr_Timestamp x) left) given \<and>
             w' = sendJSON 200 (MJ_history (PathValue r ''id'') (map history_record given)) w)
      | _ \<Rightarrow> status w' = Some 400))"
proof (cases "Method r = ''GET'' \<and> PathValue r ''id'' \<noteq> ''''")
  case False
  then show ?thesis using assms(2,3) by (auto simp: GetHistory_h_def known_agent_def)
next
  case get: True
  let ?i = "PathValue r ''id''"
  let ?L = "Query_Get r ''limit''" and ?F = "Query_Get r ''from''" and ?T = "Query_Get r ''to''"
  obtain s1 where s1: "known_agent server_handler w r s =
      (if ?i \<in> ag_ID ` set (agents s) then Inr () else Inl (sendError_nested ''agent not found'' 404 w), s1)"
    using telemetry_repo.known_agent_ok [OF assms(1) server_handler_fields(1), of r w] get by auto
  show ?thesis
  proof (cases "?i \<in> ag_ID ` set (agents s)")
    case False
    then show ?thesis using assms(2,3) get s1 by (auto simp: GetHistory_h_def)
  next
    case known: True
    show ?thesis
    proof (cases "\<exists>n from to. asked_limit ?L = Some n \<and> asked_time parse ?F = Some from \<and> asked_time parse ?T = Some to")
      case False
      then have "status w' = Some 400"
        using assms(2,3) s1 known by (auto simp: GetHistory_h_def asked_limit_Inr asked_time_Inr split: sum.splits)
      then show ?thesis using False get known by (auto split: option.split)
    next
      case True
      then obtain n "from" to where q: "asked_limit ?L = Some n" "asked_time parse ?F = Some from"
        "asked_time parse ?T = Some to" by blast
      define rows where "rows = filter (in_window from to) (agent_records ?i (telemetry s))"
      have "w' = sendJSON 200 (MJ_history ?i (map history_record (take (nat n) (newest_first rows)))) w"
        using telemetry_repo.GetHistory_h_log [OF assms(1) server_handler_fields(1) _ _ known, of n parse "from" to w]
          q get assms(3) by (simp add: rows_def asked_limit_Inr asked_time_Inr)
      then have "\<exists>given left. mset (given @ left) = mset rows \<and> length given = min (nat n) (length (given @ left)) \<and>
          sorted_wrt (\<lambda>x y. tr_Timestamp y \<le> tr_Timestamp x) given \<and>
          list_all (\<lambda>x. list_all (\<lambda>y. tr_Timestamp y \<le> tr_Timestamp x) left) given \<and>
          w' = sendJSON 200 (MJ_history ?i (map history_record given)) w"
        using newest_first_take [of "nat n" rows] by blast
      then show ?thesis using q get known by (simp add: rows_def)
    qed
  qed
qed

definition demo_history :: "telemetry_json response \<times> telemetry_env" where
  "demo_history = GetHistory_h server_handler (\<lambda>_. None) new_response (telemetry_request ''GET'')
     (telemetry_start [cpu_record 3 10, cpu_record 7 30, cpu_record 5 20])"

theorem history_newest_witness:
  "\<exists>given. fst demo_history = sendJSON 200 (MJ_history ''a1'' (map history_record given)) new_response \<and> length given = 2"
proof -
  let ?rs = "[cpu_record 3 10, cpu_record 7 30, cpu_record 5 20]"
  let ?s = "telemetry_start ?rs"
  let ?q = "telemetry_request ''GET''"
  have "status (new_response :: telemetry_json response) = None" by simp
  note run = history_newest [OF telemetry_start_reliable this, of "\<lambda>_. None" ?q ?rs "fst demo_history" "snd demo_history"]
  have two: "asked_limit (Query_Get ?q ''limit'') = Some 2" by code_simp
  have bounds: "asked_time (\<lambda>_. None) (Query_Get ?q ''from'') = Some zero_time"
    "asked_time (\<lambda>_. None) (Query_Get ?q ''to'') = Some zero_time"
    by (simp_all add: asked_time_def telemetry_request_def)
  have req: "Method ?q = ''GET''" "PathValue ?q ''id'' = ''a1''" "''a1'' \<in> ag_ID ` set (agents ?s)"
    by (simp_all add: telemetry_request_def telemetry_start_def)
  have rows: "filter (in_window zero_time zero_time) (agent_records ''a1'' (telemetry ?s)) = ?rs"
    by (simp add: in_window_def IsZero_def agent_records_def telemetry_start_def cpu_record_def)
  obtain "given" left where h: "mset (given @ left) = mset ?rs" "length given = min (nat 2) (length (given @ left))"
      "fst demo_history = sendJSON 200 (MJ_history ''a1'' (map history_record given)) new_response"
    using run unfolding demo_history_def by (auto simp: two bounds req rows)
  have "length (given @ left) = 3" using arg_cong [OF h(1), of size] unfolding size_mset by simp
  with h(2,3) show ?thesis by (intro exI [of _ "given"]) simp
qed

end
