(* ===== verification/Agents.thy ===== *)
theory Agents
  imports Database Events_Hub
begin

text \<open>
  internal/agent: the statements of repository.go over the table of agents, the endpoints of
  handler.go, and the interface \<open>AgentStore\<close> between them as a locale.  As in the code, an endpoint
  takes the operations of its store as arguments; \<open>agent_repository\<close> gives it those of the
  repository.
\<close>

section \<open>The repository\<close>

definition upsert_agent :: "AgentRegistration \<Rightarrow> 'a db_env_scheme \<Rightarrow> (dberr + Agent) \<times> 'a db_env_scheme" where
  "upsert_agent g s =
     (case time_Now s of (now, s1) \<Rightarrow>
       let set_row = (\<lambda>a. a\<lparr>ag_Name := rg_Name g, ag_Hostname := rg_Hostname g, ag_OS := rg_OS g,
             ag_Arch := rg_Arch g, ag_Version := rg_Version g, ag_Status := ''online'', ag_LastSeen := now\<rparr>);
           new = \<lparr>ag_ID = rg_ID g, ag_Name = rg_Name g, ag_Hostname = rg_Hostname g, ag_OS = rg_OS g,
             ag_Arch = rg_Arch g, ag_Version = rg_Version g, ag_Status = ''online'', ag_LastSeen = now,
             ag_CreatedAt = now\<rparr>
       in (case update_returning (\<lambda>a. ag_ID a = rg_ID g) set_row (agents s1) of
             (Inr a, rows) \<Rightarrow> (Inr a, s1\<lparr>agents := rows\<rparr>)
           | (Inl _, _) \<Rightarrow> (Inr new, s1\<lparr>agents := agents s1 @ [new]\<rparr>)))"

definition agent_Register :: "AgentRegistration \<Rightarrow> 'a db_env_scheme \<Rightarrow> (dberr + Agent) \<times> 'a db_env_scheme" where
  "agent_Register g = db_run (upsert_agent g)"

definition agent_List :: "'a db_env_scheme \<Rightarrow> (dberr + Agent list) \<times> 'a db_env_scheme" where
  "agent_List s =
     (case db_Query (\<lambda>s. sort_key ag_CreatedAt (agents s)) s of
        (Inl e, s1) \<Rightarrow> (Inl e, s1)
      | (Inr (rows, rows_err), s1) \<Rightarrow> (if rows_err then Inl DBFail else Inr rows, s1))"

definition agent_GetByID :: "string \<Rightarrow> 'a db_env_scheme \<Rightarrow> (dberr + Agent) \<times> 'a db_env_scheme" where
  "agent_GetByID i = db_run (\<lambda>s. (select_one (\<lambda>a. ag_ID a = i) (agents s), s))"

section \<open>The handler\<close>

record 's AgentStore =
  st_Register :: "AgentRegistration \<Rightarrow> 's \<Rightarrow> (dberr + Agent) \<times> 's"
  st_List :: "'s \<Rightarrow> (dberr + Agent list) \<times> 's"
  st_GetByID :: "string \<Rightarrow> 's \<Rightarrow> (dberr + Agent) \<times> 's"

definition agent_repository :: "'a db_env_scheme AgentStore" where
  "agent_repository = \<lparr>st_Register = agent_Register, st_List = agent_List, st_GetByID = agent_GetByID\<rparr>"

record 's AgentHandler =
  gh_repository :: "'s AgentStore"
  gh_hub :: bool

definition agent_NewHandler :: "'s AgentStore \<Rightarrow> 's AgentHandler" where
  "agent_NewHandler repo = \<lparr>gh_repository = repo, gh_hub = False\<rparr>"

definition agent_WithEvents :: "'s AgentHandler \<Rightarrow> 's AgentHandler" where
  "agent_WithEvents h = h\<lparr>gh_hub := True\<rparr>"

datatype agent_json = GJ_agents "Agent list" | GJ_agent Agent

definition registration_complete :: "AgentRegistration \<Rightarrow> bool" where
  "registration_complete g \<longleftrightarrow>
     \<not> (rg_ID g = '''' \<or> rg_Name g = '''' \<or> rg_Hostname g = '''' \<or> rg_OS g = '''' \<or> rg_Arch g = '''' \<or>
        rg_Version g = '''')"

definition registered_event :: "Agent \<Rightarrow> time \<Rightarrow> Event" where
  "registered_event a now =
     new_event\<lparr>ev_Type := EventAgentRegistered, ev_AgentID := ag_ID a, ev_Timestamp := now,
       ev_Data := Some (P_Agent a)\<rparr>"

definition publish_registered :: "bool \<Rightarrow> Agent \<Rightarrow> 'a hub_env_scheme \<Rightarrow> 'a hub_env_scheme" where
  "publish_registered hub_set a s =
     (if hub_set then (case time_Now s of (now, s1) \<Rightarrow> Publish (registered_event a now) s1) else s)"

definition Register_h ::
  "'a hub_env_scheme AgentHandler \<Rightarrow> AgentRegistration decoder \<Rightarrow>
   agent_json response \<Rightarrow> request \<Rightarrow> 'a hub_env_scheme \<Rightarrow> agent_json response \<times> 'a hub_env_scheme"
where
  "Register_h h decode w r s =
     (if Method r \<noteq> ''POST'' then (sendError_flat ''method not allowed'' 405 w, s)
      else (case decode (Body r) of (g, bad) \<Rightarrow>
        if bad then (sendError_flat ''invalid request body'' 400 w, s)
        else if \<not> registration_complete g then (sendError_flat ''missing required agent fields'' 400 w, s)
        else (case st_Register (gh_repository h) g s of
            (Inl _, s1) \<Rightarrow> (sendError_flat ''failed to register agent'' 500 w, s1)
          | (Inr a, s1) \<Rightarrow> (sendJSON 201 (GJ_agent a) w, publish_registered (gh_hub h) a s1))))"

definition List_h ::
  "'s AgentHandler \<Rightarrow> agent_json response \<Rightarrow> request \<Rightarrow> 's \<Rightarrow> agent_json response \<times> 's"
where
  "List_h h w r s =
     (if Method r \<noteq> ''GET'' then (sendError_flat ''method not allowed'' 405 w, s)
      else (case st_List (gh_repository h) s of
          (Inl _, s1) \<Rightarrow> (sendError_flat ''failed to list agents'' 500 w, s1)
        | (Inr as, s1) \<Rightarrow> (sendJSON 200 (GJ_agents as) w, s1)))"

definition Get_h ::
  "'s AgentHandler \<Rightarrow> agent_json response \<Rightarrow> request \<Rightarrow> 's \<Rightarrow> agent_json response \<times> 's"
where
  "Get_h h w r s =
     (if Method r \<noteq> ''GET'' then (sendError_flat ''method not allowed'' 405 w, s)
      else if PathValue r ''id'' = '''' then (sendError_flat ''agent ID is required'' 400 w, s)
      else (case st_GetByID (gh_repository h) (PathValue r ''id'') s of
          (Inl e, s1) \<Rightarrow>
            (if e = NoRows then (sendError_flat ''agent not found'' 404 w, s1)
             else (sendError_flat ''failed to retrieve agent'' 500 w, s1))
        | (Inr a, s1) \<Rightarrow> (sendJSON 200 (GJ_agent a) w, s1)))"

section \<open>The contract of an agent store\<close>

text \<open>
  What the handler relies on: a store that works is a map from ids to agents; \<open>stored\<close> is this map
  in a state, \<open>ok\<close> the states it works in.  \<open>told\<close> is what publishing does to a state.
\<close>

locale agent_store =
  fixes store :: "'s AgentStore" and ok :: "'s \<Rightarrow> bool" and stored :: "'s \<Rightarrow> string \<Rightarrow> Agent option"
    and fresh_agent :: "AgentRegistration \<Rightarrow> 's \<Rightarrow> Agent"
  assumes register: "ok s \<Longrightarrow> st_Register store g s = (res, s') \<Longrightarrow>
      res = Inr (fresh_agent g s) \<and> ok s' \<and> stored s' = (stored s)(rg_ID g \<mapsto> fresh_agent g s)"
    and get: "ok s \<Longrightarrow> st_GetByID store i s = (res, s') \<Longrightarrow>
      res = (case stored s i of None \<Rightarrow> Inl NoRows | Some a \<Rightarrow> Inr a) \<and> ok s' \<and> stored s' = stored s"
    and list: "ok s \<Longrightarrow> st_List store s = (rows, s') \<Longrightarrow>
      (\<exists>as. rows = Inr as \<and> (\<forall>a. a \<in> set as \<longleftrightarrow> stored s (ag_ID a) = Some a) \<and> distinct (map ag_ID as)) \<and>
      ok s' \<and> stored s' = stored s"
begin

text \<open>An agent is found exactly when it is stored, and the list holds each stored agent once.\<close>

lemma Get_h_stored:
  assumes "ok s" and "status w = None" and "Method r = ''GET''" and "PathValue r ''id'' \<noteq> ''''"
  shows "fst (Get_h \<lparr>gh_repository = store, gh_hub = b\<rparr> w r s) =
    (case stored s (PathValue r ''id'') of
       None \<Rightarrow> sendError_flat ''agent not found'' 404 w | Some a \<Rightarrow> sendJSON 200 (GJ_agent a) w)"
  using assms get [OF assms(1), of "PathValue r ''id''"]
  by (cases "st_GetByID store (PathValue r ''id'') s") (auto simp: Get_h_def split: option.split)

lemma List_h_stored:
  assumes "ok s" and "Method r = ''GET''"
  shows "\<exists>as. fst (List_h \<lparr>gh_repository = store, gh_hub = b\<rparr> w r s) = sendJSON 200 (GJ_agents as) w \<and>
    (\<forall>a. a \<in> set as \<longleftrightarrow> stored s (ag_ID a) = Some a) \<and> distinct (map ag_ID as)"
  using assms list [OF assms(1)]
  by (cases "st_List store s") (auto simp: List_h_def)

end

section \<open>The repository is an agent store\<close>

definition agents_ok :: "'a db_env_scheme \<Rightarrow> bool" where
  "agents_ok s \<longleftrightarrow> reliable s \<and> distinct (map ag_ID (agents s))"

definition agents_stored :: "'a db_env_scheme \<Rightarrow> string \<Rightarrow> Agent option" where
  "agents_stored s = map_of (map (\<lambda>a. (ag_ID a, a)) (agents s))"

definition agent_row :: "AgentRegistration \<Rightarrow> 'a db_env_scheme \<Rightarrow> Agent" where
  "agent_row g s =
     (let now = clock s (clock_pos s) in
      \<lparr>ag_ID = rg_ID g, ag_Name = rg_Name g, ag_Hostname = rg_Hostname g, ag_OS = rg_OS g, ag_Arch = rg_Arch g,
       ag_Version = rg_Version g, ag_Status = ''online'', ag_LastSeen = now,
       ag_CreatedAt = (case agents_stored s (rg_ID g) of None \<Rightarrow> now | Some a \<Rightarrow> ag_CreatedAt a)\<rparr>)"

lemma agents_stored_Some:
  "distinct (map ag_ID (agents s)) \<Longrightarrow> agents_stored s i = Some a \<longleftrightarrow> a \<in> set (agents s) \<and> ag_ID a = i"
  by (auto simp: agents_stored_def comp_def)

lemma agents_stored_None: "agents_stored s i = None \<longleftrightarrow> i \<notin> ag_ID ` set (agents s)"
  by (auto simp: agents_stored_def map_of_eq_None_iff image_image)

lemma agents_stored_pos [simp]:
  "agents_stored (s\<lparr>fault_pos := n\<rparr>) = agents_stored s" "agents_stored (s\<lparr>clock_pos := n\<rparr>) = agents_stored s"
  by (simp_all add: agents_stored_def fun_eq_iff)

lemma map_of_key_update:
  assumes "distinct (map k xs)" and "x \<in> set xs" and "k v = k x"
  shows "map_of (map (\<lambda>y. (k y, y)) (map (\<lambda>y. if k y = k x then v else y) xs)) =
    (map_of (map (\<lambda>y. (k y, y)) xs))(k x \<mapsto> v)"
  using assms(1,2)
proof (induction xs)
  case Nil
  then show ?case by simp
next
  case (Cons y ys)
  show ?case
  proof (cases "k y = k x")
    case True
    then have "y = x" using Cons.prems by (metis key_unique list.set_intros(1))
    moreover have "map (\<lambda>y. if k y = k x then v else y) ys = ys"
      using Cons.prems(1) True by (intro map_idI) (metis (mono_tags) distinct.simps(2) image_eqI list.set_map list.simps(9))
    ultimately show ?thesis using assms(3) by (auto simp: fun_eq_iff)
  next
    case False
    then show ?thesis using Cons by (auto simp: assms(3) fun_upd_twist)
  qed
qed

text \<open>What one registration leaves behind.\<close>

lemma upsert_agent_cases:
  assumes "distinct (map ag_ID (agents s))"
  shows "upsert_agent g s = (Inr (agent_row g s), s\<lparr>clock_pos := Suc (clock_pos s),
    agents := (case agents_stored s (rg_ID g) of
       None \<Rightarrow> agents s @ [agent_row g s]
     | Some old \<Rightarrow> map (\<lambda>a. if ag_ID a = rg_ID g then agent_row g s else a) (agents s))\<rparr>)"
proof (cases "agents_stored s (rg_ID g)")
  case None
  then have "update_returning (\<lambda>a. ag_ID a = rg_ID g) f (agents s) = (Inl NoRows, agents s)" for f
    by (intro update_returning_absent) (simp add: agents_stored_None)
  then show ?thesis using None by (simp add: upsert_agent_def time_Now_def agent_row_def Let_def)
next
  case (Some old)
  then have old: "old \<in> set (agents s)" "ag_ID old = rg_ID g" using assms by (simp_all add: agents_stored_Some)
  let ?f = "\<lambda>a. a\<lparr>ag_Name := rg_Name g, ag_Hostname := rg_Hostname g, ag_OS := rg_OS g, ag_Arch := rg_Arch g,
      ag_Version := rg_Version g, ag_Status := ''online'', ag_LastSeen := clock s (clock_pos s)\<rparr>"
  have upd: "update_returning (\<lambda>a. ag_ID a = rg_ID g) ?f (agents s) =
      (Inr (?f old), map (\<lambda>a. if ag_ID a = ag_ID old then ?f a else a) (agents s))"
    by (rule update_returning_key [OF assms old(1)]) (use old in auto)
  have row: "?f old = agent_row g s" using old(2) by (cases old) (simp add: agent_row_def Some Let_def)
  have "map (\<lambda>a. if ag_ID a = ag_ID old then ?f a else a) (agents s) =
      map (\<lambda>a. if ag_ID a = rg_ID g then agent_row g s else a) (agents s)"
    using key_unique [OF assms _ old(1)] old(2) row by (intro map_cong) auto
  then show ?thesis using upd row Some by (simp add: upsert_agent_def time_Now_def Let_def)
qed

lemma agent_row_ID [simp]: "ag_ID (agent_row g s) = rg_ID g"
  by (simp add: agent_row_def Let_def)

lemma upsert_stored:
  assumes "distinct (map ag_ID (agents s))"
  shows "agents_stored (snd (upsert_agent g s)) = (agents_stored s)(rg_ID g \<mapsto> agent_row g s)"
    and "distinct (map ag_ID (agents (snd (upsert_agent g s))))"
proof -
  show "agents_stored (snd (upsert_agent g s)) = (agents_stored s)(rg_ID g \<mapsto> agent_row g s)"
  proof (cases "agents_stored s (rg_ID g)")
    case None
    then have "rg_ID g \<notin> dom (agents_stored s)" by auto
    then show ?thesis
      using None by (auto simp: upsert_agent_cases [OF assms] agents_stored_def map_add_def fun_eq_iff split: option.split)
  next
    case (Some old)
    then have old: "old \<in> set (agents s)" "ag_ID old = rg_ID g" using assms by (simp_all add: agents_stored_Some)
    then show ?thesis
      using map_of_key_update [OF assms old(1), of "agent_row g s"] Some
      by (simp add: upsert_agent_cases [OF assms] agents_stored_def)
  qed
  show "distinct (map ag_ID (agents (snd (upsert_agent g s))))"
  proof (cases "agents_stored s (rg_ID g)")
    case None
    then show ?thesis
      using assms by (simp add: upsert_agent_cases [OF assms]) (simp add: agents_stored_None)
  next
    case (Some old)
    have "map ag_ID (map (\<lambda>a. if ag_ID a = rg_ID g then agent_row g s else a) (agents s)) = map ag_ID (agents s)"
      by (induction "agents s") simp_all
    then show ?thesis using assms Some by (simp add: upsert_agent_cases [OF assms] del: map_map map_eq_conv)
  qed
qed

interpretation agent_repo: agent_store agent_repository agents_ok agents_stored "\<lambda>g s. agent_row g s"
proof (unfold_locales, goal_cases)
  case (1 s g res s')
  then have s: "reliable s" "distinct (map ag_ID (agents (s\<lparr>fault_pos := Suc (fault_pos s)\<rparr>)))" by (simp_all add: agents_ok_def)
  have run: "upsert_agent g (s\<lparr>fault_pos := Suc (fault_pos s)\<rparr>) = (res, s')"
    using 1(2) by (simp add: agent_repository_def agent_Register_def db_run_reliable [OF s(1)])
  have row: "agent_row g (s\<lparr>fault_pos := Suc (fault_pos s)\<rparr>) = agent_row g s" by (simp add: agent_row_def)
  have "reliable s'" using run s(1) unfolding upsert_agent_cases [OF s(2)] by (auto simp: reliable_def)
  moreover have "res = Inr (agent_row g s)" using run unfolding upsert_agent_cases [OF s(2)] by (simp add: row)
  ultimately show ?case using upsert_stored [OF s(2), of g] by (simp add: run row agents_ok_def)
next
  case (2 s i res s')
  then have s: "reliable s" "distinct (map ag_ID (agents s))" by (simp_all add: agents_ok_def)
  have "select_one (\<lambda>a. ag_ID a = i) (agents s) = (case agents_stored s i of None \<Rightarrow> Inl NoRows | Some a \<Rightarrow> Inr a)"
  proof (cases "agents_stored s i")
    case None
    then have "select_one (\<lambda>a. ag_ID a = i) (agents s) = Inl NoRows"
      by (auto simp: agents_stored_None select_one_Inl image_iff)
    then show ?thesis using None by simp
  next
    case (Some a)
    then have a: "a \<in> set (agents s)" "ag_ID a = i" using s(2) by (simp_all add: agents_stored_Some)
    have "select_one (\<lambda>a. ag_ID a = i) (agents s) = Inr a" by (rule select_one_key [OF s(2) a(1)]) (use a in auto)
    with Some show ?thesis by simp
  qed
  then show ?case
    using 2 s(1) by (auto simp: agent_repository_def agent_GetByID_def db_run_reliable agents_ok_def reliable_def)
next
  case (3 s rows s')
  then have s: "reliable s" "distinct (map ag_ID (agents s))" by (simp_all add: agents_ok_def)
  have "distinct (map ag_ID (sort_key ag_CreatedAt (agents s)))"
    using s(2) by (simp add: distinct_map)
  then show ?case
    using 3 s by (auto simp: agent_repository_def agent_List_def db_Query_reliable agents_ok_def reliable_def agents_stored_Some)
qed

section \<open>They keep the schema\<close>

lemma schema_more_agents:
  "schema_ok s \<Longrightarrow> distinct (map ag_ID as) \<Longrightarrow> ag_ID ` set (agents s) \<subseteq> ag_ID ` set as \<Longrightarrow> schema_ok (s\<lparr>agents := as\<rparr>)"
  by (simp add: schema_defs) (elim conjE, intro conjI; erule (1) subset_trans)

lemma agents_stored_dom: "ag_ID ` set (agents s) = dom (agents_stored s)"
  using agents_stored_None [of s] by (auto simp: dom_def)

lemma upsert_agent_schema:
  assumes "schema_ok s"
  shows "schema_ok (snd (upsert_agent g s))"
proof -
  have dist: "distinct (map ag_ID (agents s))" using assms by (simp add: schema_defs)
  define as where "as = agents (snd (upsert_agent g s))"
  have "ag_ID ` set (agents s) \<subseteq> ag_ID ` set as"
    unfolding as_def agents_stored_dom upsert_stored(1) [OF dist] by auto
  moreover have "distinct (map ag_ID as)" unfolding as_def by (rule upsert_stored(2) [OF dist])
  ultimately have "schema_ok (s\<lparr>clock_pos := Suc (clock_pos s), agents := as\<rparr>)"
    using assms by (intro schema_more_agents) simp_all
  moreover have "snd (upsert_agent g s) = s\<lparr>clock_pos := Suc (clock_pos s), agents := as\<rparr>"
    by (simp add: as_def upsert_agent_cases [OF dist])
  ultimately show ?thesis by simp
qed

lemma publish_registered_schema: "schema_ok (publish_registered b a s) = schema_ok s"
  by (simp add: publish_registered_def time_Now_def)

lemma agent_handlers_schema [schema_intro]:
  assumes "schema_ok s"
  shows "schema_ok (snd (Register_h \<lparr>gh_repository = agent_repository, gh_hub = b\<rparr> decode w r s))"
    and "schema_ok (snd (List_h \<lparr>gh_repository = agent_repository, gh_hub = b\<rparr> w r s))"
    and "schema_ok (snd (Get_h \<lparr>gh_repository = agent_repository, gh_hub = b\<rparr> w r s))"
  using assms
  by (simp_all add: Register_h_def List_h_def Get_h_def agent_repository_def agent_Register_def agent_List_def
      agent_GetByID_def case_prod_beta publish_registered_schema db_run_schema upsert_agent_schema split: sum.split)

section \<open>Properties\<close>

lemma publish_registered_keeps [simp]:
  "agents (publish_registered b a s) = agents s" "faults (publish_registered b a s) = faults s"
  by (simp_all add: publish_registered_def time_Now_def Publish_def)

lemma Register_h_ok:
  assumes "agents_ok s" and "status w = None" and "Method r = ''POST''" and "decode (Body r) = (g, False)"
    and "registration_complete g"
  shows "fst (Register_h \<lparr>gh_repository = agent_repository, gh_hub = b\<rparr> decode w r s) = sendJSON 201 (GJ_agent (agent_row g s)) w"
    and "agents_ok (snd (Register_h \<lparr>gh_repository = agent_repository, gh_hub = b\<rparr> decode w r s))"
    and "agents_stored (snd (Register_h \<lparr>gh_repository = agent_repository, gh_hub = b\<rparr> decode w r s)) =
         (agents_stored s)(rg_ID g \<mapsto> agent_row g s)"
proof -
  obtain res s1 where reg: "st_Register agent_repository g s = (res, s1)" by fastforce
  have s1: "res = Inr (agent_row g s)" "agents_ok s1" "agents_stored s1 = (agents_stored s)(rg_ID g \<mapsto> agent_row g s)"
    using agent_repo.register [OF assms(1) reg] by simp_all
  have run: "Register_h \<lparr>gh_repository = agent_repository, gh_hub = b\<rparr> decode w r s =
      (sendJSON 201 (GJ_agent (agent_row g s)) w, publish_registered b (agent_row g s) s1)"
    using assms(3-5) reg s1(1) by (simp add: Register_h_def)
  show "fst (Register_h \<lparr>gh_repository = agent_repository, gh_hub = b\<rparr> decode w r s) = sendJSON 201 (GJ_agent (agent_row g s)) w"
    by (simp add: run)
  show "agents_ok (snd (Register_h \<lparr>gh_repository = agent_repository, gh_hub = b\<rparr> decode w r s))"
    using s1(2) by (simp add: run agents_ok_def reliable_def)
  show "agents_stored (snd (Register_h \<lparr>gh_repository = agent_repository, gh_hub = b\<rparr> decode w r s)) =
      (agents_stored s)(rg_ID g \<mapsto> agent_row g s)"
    using s1(3) by (simp add: run agents_stored_def)
qed


definition fleet_env :: "Agent list \<Rightarrow> hub_env" where
  "fleet_env as = \<lparr>clock = int, clock_pos = 7, faults = (\<lambda>_. F_ok), fault_pos = 0,
     agents = as, telemetry = [], alert_rules = [], alerts = [], alert_comments = [],
     notification_channels = [], notification_deliveries = [], api_tokens = [], telemetry_hourly = [],
     hub = NewHub\<rparr>"

definition old_web :: Agent where
  "old_web = \<lparr>ag_ID = ''a1'', ag_Name = ''old'', ag_Hostname = ''h'', ag_OS = ''linux'', ag_Arch = ''amd64'',
     ag_Version = ''1'', ag_Status = ''offline'', ag_LastSeen = 1, ag_CreatedAt = 1\<rparr>"

definition web_registration :: AgentRegistration where
  "web_registration = \<lparr>rg_ID = ''a1'', rg_Name = ''web'', rg_Hostname = ''h'', rg_OS = ''linux'', rg_Arch = ''amd64'', rg_Version = ''2''\<rparr>"

definition agent_request :: "string \<Rightarrow> request" where
  "agent_request m = \<lparr>Method = m, URL_Path = '''', RemoteAddr = '''', Header_Get = (\<lambda>_. ''''),
     PathValue = (\<lambda>_. ''a1''), Query_Get = (\<lambda>_. ''''), Body = '''', ctx_role = None, ctx_token = None,
     ctx_request_id = None\<rparr>"


end
