(* ===== verification/Observability.thy ===== *)
theory Observability
  imports Metrics Telemetry Agents "HOL-Library.Signed_Division"
begin

text \<open>
  internal/observability: service.go and handler.go.  The service reads agents and telemetry through
  two narrow interfaces, \<open>AgentSource\<close> and \<open>TelemetrySource\<close>, which the repositories of the other
  packages implement; they are locales here, interpreted on the service over these repositories.
  \<open>conv\<close> is what a conversion from float64 gives out of range.
\<close>

section \<open>The service\<close>

record 's Service =
  sv_agents :: "'s \<Rightarrow> (dberr + Agent list) \<times> 's"
  sv_GetLatest :: "string \<Rightarrow> 's \<Rightarrow> (dberr + TelemetryRecord) \<times> 's"
  sv_GetHistory :: "string \<Rightarrow> int \<Rightarrow> time \<Rightarrow> time \<Rightarrow> 's \<Rightarrow> (dberr + TelemetryRecord list) \<times> 's"
  sv_healthy :: duration
  sv_stale :: duration

definition effective_healthy :: "duration \<Rightarrow> duration" where
  "effective_healthy healthy = (if healthy \<le> 0 then 30 * time_Second else healthy)"

definition effective_stale :: "duration \<Rightarrow> duration \<Rightarrow> duration" where
  "effective_stale healthy stale = (if stale \<le> effective_healthy healthy then 2 * time_Minute else stale)"

definition NewService ::
  "'s AgentStore \<Rightarrow> 's TelemetryStore \<Rightarrow> duration \<Rightarrow> duration \<Rightarrow> 's Service"
where
  "NewService as source healthy stale =
     \<lparr>sv_agents = st_List as, sv_GetLatest = ts_GetLatest source, sv_GetHistory = ts_GetHistory source,
      sv_healthy = effective_healthy healthy, sv_stale = effective_stale healthy stale\<rparr>"

record Health =
  he_AgentID :: string
  he_Status :: string
  he_LastSeen :: "time option"
  he_SecondsSinceLastSeen :: "int option"

text \<open>Duration.Seconds: whole seconds plus the fraction, in float64.\<close>

definition duration_Seconds :: "duration \<Rightarrow> float64" where
  "duration_Seconds d =
     fl_add (fl_of_int (d sdiv time_Second)) (fl_div_count (fl_of_int (d smod time_Second)) 1000000000)"

definition age_seconds :: "(float64 \<Rightarrow> int) \<Rightarrow> time \<Rightarrow> time \<Rightarrow> int" where
  "age_seconds conv now seen = (let s = to_int64 conv (duration_Seconds (time_Sub now seen)) in if s < 0 then 0 else s)"

definition health_status :: "duration \<Rightarrow> duration \<Rightarrow> int \<Rightarrow> string" where
  "health_status healthy stale seconds =
     (let age = int64_wrap (seconds * time_Second) in
      if age \<le> healthy then ''healthy'' else if age < stale then ''stale'' else ''offline'')"

definition Service_Health ::
  "(float64 \<Rightarrow> int) \<Rightarrow> 'a env_scheme Service \<Rightarrow> string \<Rightarrow> 'a env_scheme \<Rightarrow> (dberr + Health) \<times> 'a env_scheme"
where
  "Service_Health conv sv i s =
     (case sv_GetLatest sv i s of
        (Inl e, s1) \<Rightarrow>
          (if e = NoRows
           then (Inr \<lparr>he_AgentID = i, he_Status = ''offline'', he_LastSeen = None, he_SecondsSinceLastSeen = None\<rparr>, s1)
           else (Inl e, s1))
      | (Inr rec, s1) \<Rightarrow>
          (case time_Now s1 of (now, s2) \<Rightarrow>
            let seconds = age_seconds conv now (tr_Timestamp rec) in
            (Inr \<lparr>he_AgentID = i, he_Status = health_status (sv_healthy sv) (sv_stale sv) seconds,
                  he_LastSeen = Some (tr_Timestamp rec), he_SecondsSinceLastSeen = Some seconds\<rparr>, s2)))"

record MetricsResponse =
  mr_AgentID :: string
  mr_Timestamp :: time
  mr_Metrics :: "(string \<times> goany) list"

definition recordResponse :: "string \<Rightarrow> TelemetryRecord \<Rightarrow> MetricsResponse" where
  "recordResponse i r = \<lparr>mr_AgentID = i, mr_Timestamp = tr_Timestamp r, mr_Metrics = tr_Metrics r\<rparr>"

definition Service_Latest :: "'s Service \<Rightarrow> string \<Rightarrow> 's \<Rightarrow> (dberr + MetricsResponse) \<times> 's" where
  "Service_Latest sv i s =
     (case sv_GetLatest sv i s of
        (Inl e, s1) \<Rightarrow> (Inl e, s1)
      | (Inr r, s1) \<Rightarrow> (Inr (recordResponse i r), s1))"

definition Service_History ::
  "'s Service \<Rightarrow> string \<Rightarrow> int \<Rightarrow> time \<Rightarrow> time \<Rightarrow> 's \<Rightarrow> (dberr + MetricsResponse list) \<times> 's"
where
  "Service_History sv i lmt from to s =
     (case sv_GetHistory sv i lmt from to s of
        (Inl e, s1) \<Rightarrow> (Inl e, s1)
      | (Inr rs, s1) \<Rightarrow> (Inr (map (recordResponse i) rs), s1))"

subsection \<open>Analytics\<close>

record TimeSeriesPoint =
  pt_Timestamp :: time
  pt_CPU :: float64
  pt_Memory :: float64
  pt_Disk :: float64
  pt_BytesReceived :: "64 word"
  pt_BytesSent :: "64 word"
  pt_RunningProcesses :: int

record AnalyticsResponse =
  an_AgentID :: string
  an_Range :: string
  an_Points :: "TimeSeriesPoint list"

text \<open>Like \<open>numberValue\<close>, without the case of uint64.\<close>

fun numberVal :: "goany \<Rightarrow> float64" where
  "numberVal (GFloat64 v) = v"
| "numberVal (GFloat32 v) = v"
| "numberVal (GInt i) = fl_of_int i"
| "numberVal (GInt64 i) = fl_of_int i"
| "numberVal _ = Fin 0"

definition range_duration :: "string \<Rightarrow> duration" where
  "range_duration timeRange =
     (if timeRange = ''15m'' then 15 * time_Minute
      else if timeRange = ''1h'' then time_Hour
      else if timeRange = ''6h'' then 6 * time_Hour
      else if timeRange = ''24h'' then 24 * time_Hour
      else if timeRange = ''7d'' then 7 * 24 * time_Hour
      else time_Hour)"

definition sub_value :: "(string \<times> goany) list \<Rightarrow> string \<Rightarrow> string \<Rightarrow> float64" where
  "sub_value system part key =
     (case as_map (map_index system part) of None \<Rightarrow> Fin 0 | Some m \<Rightarrow> numberVal (map_index m key))"

definition series_point ::
  "(float64 \<Rightarrow> int) \<Rightarrow> (float64 \<Rightarrow> 64 word) \<Rightarrow> TelemetryRecord \<Rightarrow> TimeSeriesPoint"
where
  "series_point conv uconv r =
     (case as_map (map_index (tr_Metrics r) ''system'') of
        None \<Rightarrow>
          \<lparr>pt_Timestamp = tr_Timestamp r, pt_CPU = Fin 0, pt_Memory = Fin 0, pt_Disk = Fin 0,
           pt_BytesReceived = 0, pt_BytesSent = 0, pt_RunningProcesses = 0\<rparr>
      | Some system \<Rightarrow>
          (case fold (count_interface uconv numberVal) (system_interfaces system) (0, 0) of (recv, sent) \<Rightarrow>
             \<lparr>pt_Timestamp = tr_Timestamp r,
              pt_CPU = sub_value system ''cpu'' ''usage_percent'',
              pt_Memory = sub_value system ''memory'' ''used_percent'',
              pt_Disk = sub_value system ''disk'' ''used_percent'',
              pt_BytesReceived = recv, pt_BytesSent = sent,
              pt_RunningProcesses = to_int64 conv (sub_value system ''processes'' ''running_count'')\<rparr>))"

text \<open>The loop runs from the last record to the first.\<close>

definition Service_Analytics ::
  "(float64 \<Rightarrow> int) \<Rightarrow> (float64 \<Rightarrow> 64 word) \<Rightarrow> 'a env_scheme Service \<Rightarrow> string \<Rightarrow> string \<Rightarrow>
   'a env_scheme \<Rightarrow> (dberr + AnalyticsResponse) \<times> 'a env_scheme"
where
  "Service_Analytics conv uconv sv i timeRange s =
     (case time_Now s of (now1, s1) \<Rightarrow>
      case time_Now s1 of (now2, s2) \<Rightarrow>
      case sv_GetHistory sv i 500 (now1 - range_duration timeRange) now2 s2 of
        (Inl e, s3) \<Rightarrow> (Inl e, s3)
      | (Inr records, s3) \<Rightarrow>
          (Inr \<lparr>an_AgentID = i, an_Range = timeRange, an_Points = map (series_point conv uconv) (rev records)\<rparr>, s3))"

subsection \<open>Overview\<close>

record Overview =
  ov_Total :: nat
  ov_Healthy :: nat
  ov_Stale :: nat
  ov_Offline :: nat
  ov_LatestTelemetry :: "time option"

definition count_health :: "Health \<Rightarrow> Overview \<Rightarrow> Overview" where
  "count_health h ov =
     (let ov1 = (if he_Status h = ''healthy'' then ov\<lparr>ov_Healthy := Suc (ov_Healthy ov)\<rparr>
                 else if he_Status h = ''stale'' then ov\<lparr>ov_Stale := Suc (ov_Stale ov)\<rparr>
                 else ov\<lparr>ov_Offline := Suc (ov_Offline ov)\<rparr>)
      in (case he_LastSeen h of
            None \<Rightarrow> ov1
          | Some t \<Rightarrow>
              (case ov_LatestTelemetry ov1 of
                 None \<Rightarrow> ov1\<lparr>ov_LatestTelemetry := Some t\<rparr>
               | Some u \<Rightarrow> if t > u then ov1\<lparr>ov_LatestTelemetry := Some t\<rparr> else ov1)))"

text \<open>The loop over the agents; the first error ends it.\<close>

fun overview_loop ::
  "(float64 \<Rightarrow> int) \<Rightarrow> 'a env_scheme Service \<Rightarrow> Agent list \<Rightarrow> Overview \<Rightarrow> 'a env_scheme \<Rightarrow>
   (dberr + Overview) \<times> 'a env_scheme"
where
  "overview_loop conv sv [] ov s = (Inr ov, s)"
| "overview_loop conv sv (a # as) ov s =
     (case Service_Health conv sv (ag_ID a) s of
        (Inl e, s1) \<Rightarrow> (Inl e, s1)
      | (Inr h, s1) \<Rightarrow> overview_loop conv sv as (count_health h ov) s1)"

definition Service_Overview ::
  "(float64 \<Rightarrow> int) \<Rightarrow> 'a env_scheme Service \<Rightarrow> 'a env_scheme \<Rightarrow> (dberr + Overview) \<times> 'a env_scheme"
where
  "Service_Overview conv sv s =
     (case sv_agents sv s of
        (Inl e, s1) \<Rightarrow> (Inl e, s1)
      | (Inr as, s1) \<Rightarrow>
          overview_loop conv sv as
            \<lparr>ov_Total = length as, ov_Healthy = 0, ov_Stale = 0, ov_Offline = 0, ov_LatestTelemetry = None\<rparr> s1)"

section \<open>The handler\<close>

datatype observability_json =
    OJ_health Health
  | OJ_metrics MetricsResponse
  | OJ_history "MetricsResponse list"
  | OJ_analytics AnalyticsResponse
  | OJ_overview Overview

type_synonym 's observability_handler =
  "observability_json response \<Rightarrow> request \<Rightarrow> 's \<Rightarrow> observability_json response \<times> 's"

definition respond :: "observability_json response \<Rightarrow> dberr + observability_json \<Rightarrow> observability_json response" where
  "respond w res =
     (case res of
        Inl e \<Rightarrow>
          (if e = NoRows then sendError_nested ''no telemetry records found for agent'' 404 w
           else sendError_nested ''failed to retrieve observability data'' 500 w)
      | Inr v \<Rightarrow> sendJSON 200 v w)"

definition respond_with ::
  "('v \<Rightarrow> observability_json) \<Rightarrow> observability_json response \<Rightarrow> (dberr + 'v) \<times> 's \<Rightarrow> observability_json response \<times> 's"
where
  "respond_with wrap w rs = (respond w (map_sum id wrap (fst rs)), snd rs)"

definition call_h ::
  "(string \<Rightarrow> 's \<Rightarrow> (dberr + 'v) \<times> 's) \<Rightarrow> ('v \<Rightarrow> observability_json) \<Rightarrow> 's observability_handler"
where
  "call_h fn wrap w r s =
     (if Method r \<noteq> ''GET'' then (sendError_nested ''method not allowed'' 405 w, s)
      else if PathValue r ''id'' = '''' then (sendError_nested ''agent ID is required'' 400 w, s)
      else respond_with wrap w (fn (PathValue r ''id'') s))"

definition Health_h :: "(float64 \<Rightarrow> int) \<Rightarrow> 'a env_scheme Service \<Rightarrow> 'a env_scheme observability_handler" where
  "Health_h conv sv = call_h (Service_Health conv sv) OJ_health"

definition Latest_h :: "'s Service \<Rightarrow> 's observability_handler" where
  "Latest_h sv = call_h (Service_Latest sv) OJ_metrics"

text \<open>The loop over the map of the two names; a map may be walked in either order, given by \<open>names\<close>.\<close>

definition parseTimes :: "time_parser \<Rightarrow> string list \<Rightarrow> request \<Rightarrow> string + time \<times> time" where
  "parseTimes parse names r =
     (case find (\<lambda>n. Query_Get r n \<noteq> '''' \<and> parse (Query_Get r n) = None) names of
        Some n \<Rightarrow> Inl (''invalid '' @ n @ '' parameter format (expected RFC3339)'')
      | None \<Rightarrow>
          (let read = (\<lambda>n. if Query_Get r n = '''' then zero_time else the (parse (Query_Get r n)))
           in Inr (read ''from'', read ''to'')))"

definition history_count :: "string \<Rightarrow> int option" where
  "history_count v =
     (if v = '''' then Some 50
      else (case strconv_Atoi v of
          None \<Rightarrow> None
        | Some n \<Rightarrow> if n \<le> 0 \<or> n > 500 then None else Some n))"

definition History_h :: "'s Service \<Rightarrow> time_parser \<Rightarrow> string list \<Rightarrow> 's observability_handler" where
  "History_h sv parse names w r s =
     (if Method r \<noteq> ''GET'' then (sendError_nested ''method not allowed'' 405 w, s)
      else if PathValue r ''id'' = '''' then (sendError_nested ''agent ID is required'' 400 w, s)
      else (case history_count (Query_Get r ''limit'') of
          None \<Rightarrow> (sendError_nested ''invalid limit parameter'' 400 w, s)
        | Some n \<Rightarrow>
            (case parseTimes parse names r of
               Inl m \<Rightarrow> (sendError_nested m 400 w, s)
             | Inr (from, to) \<Rightarrow>
                 respond_with OJ_history w (Service_History sv (PathValue r ''id'') n from to s))))"

definition Analytics_h ::
  "(float64 \<Rightarrow> int) \<Rightarrow> (float64 \<Rightarrow> 64 word) \<Rightarrow> 'a env_scheme Service \<Rightarrow> 'a env_scheme observability_handler"
where
  "Analytics_h conv uconv sv w r s =
     (if Method r \<noteq> ''GET'' then (sendError_nested ''method not allowed'' 405 w, s)
      else if PathValue r ''id'' = '''' then (sendError_nested ''agent ID is required'' 400 w, s)
      else let timeRange = (if Query_Get r ''range'' = '''' then ''1h'' else Query_Get r ''range'') in
        respond_with OJ_analytics w (Service_Analytics conv uconv sv (PathValue r ''id'') timeRange s))"

definition Overview_h :: "(float64 \<Rightarrow> int) \<Rightarrow> 'a env_scheme Service \<Rightarrow> 'a env_scheme observability_handler" where
  "Overview_h conv sv w r s =
     (if Method r \<noteq> ''GET'' then (sendError_nested ''method not allowed'' 405 w, s)
      else respond_with OJ_overview w (Service_Overview conv sv s))"

section \<open>The age of a record\<close>

lemma round64_nonneg: "0 \<le> q \<Longrightarrow> round64 q = Fin v \<Longrightarrow> 0 \<le> v"
  by (auto simp: round64_def round_pos_def Let_def round_half_even_def split: if_splits)

lemma round64_minus: "round64 (- q) = fl_neg (round64 q)"
proof -
  have "fl_neg (fl_neg v) = v" for v by (cases v) simp_all
  then show ?thesis by (simp add: round64_def)
qed

text \<open>The fraction of a second is off by at most \<open>2^-54\<close>.\<close>

lemma nanos_float:
  assumes "0 \<le> n" and "n < 1000000000"
  shows "\<exists>f. round64 (of_int n / 1000000000) = Fin f \<and> 0 \<le> f \<and> \<bar>f - of_int n / 1000000000\<bar> \<le> 1 / 2 ^ 54 \<and>
    (n = 0 \<longrightarrow> f = 0)"
proof (cases "n = 0")
  case True
  then show ?thesis by (simp add: round64_def)
next
  case False
  have "of_int n < (1000000000 :: rat)" using assms(2) by (metis of_int_less_iff of_int_numeral)
  then have "(of_int n :: rat) / 1000000000 < pow2 (- 1 + 1)" by (simp add: pow2_def)
  moreover have "0 < (of_int n :: rat) / 1000000000" using assms(1) False by simp
  ultimately obtain f where f: "round64 (of_int n / 1000000000) = Fin f" "\<bar>f - of_int n / 1000000000\<bar> \<le> pow2 (- 1 - 53)"
    using round64_error [of "of_int n / 1000000000" "- 1"] by auto
  moreover have "0 \<le> f" using round64_nonneg [OF _ f(1)] assms(1) by simp
  ultimately show ?thesis using False by (simp add: pow2_def)
qed

lemma duration_Seconds_split:
  assumes "0 \<le> d" and "d \<le> 2 ^ 63"
  shows "\<exists>f. 0 \<le> f \<and> \<bar>f - of_int (d mod time_Second) / 1000000000\<bar> \<le> 1 / 2 ^ 54 \<and>
    (d mod time_Second = 0 \<longrightarrow> f = 0) \<and> duration_Seconds d = round64 (of_int (d div time_Second) + f)"
proof -
  have n: "0 \<le> d mod time_Second" "d mod time_Second < 1000000000" by (simp_all add: time_Second_def)
  have s: "0 \<le> d div time_Second" "d div time_Second < 2 ^ 53" using assms by (simp_all add: time_Second_def)
  obtain f where "round64 (of_int (d mod time_Second) / 1000000000) = Fin f" "0 \<le> f"
    "\<bar>f - of_int (d mod time_Second) / 1000000000\<bar> \<le> 1 / 2 ^ 54" "d mod time_Second = 0 \<longrightarrow> f = 0" using nanos_float [OF n] by blast
  moreover have "d sdiv time_Second = d div time_Second" "d smod time_Second = d mod time_Second"
    using assms(1) by (simp_all add: signed_divide_int_def signed_modulo_int_def time_Second_def sgn_if minus_div_mult_eq_mod mult.commute)
  moreover have "fl_of_int (d div time_Second) = Fin (of_int (d div time_Second))"
    using round64_int [OF s] by (simp add: fl_of_int_def)
  moreover have "fl_of_int (d mod time_Second) = Fin (of_int (d mod time_Second))"
    using round64_int [OF n(1)] n(2) by (simp add: fl_of_int_def)
  ultimately show ?thesis by (intro exI [of _ f]) (simp add: duration_Seconds_def)
qed

lemma of_int_rat_bounds:
  "i \<le> numeral k \<Longrightarrow> (of_int i :: rat) \<le> numeral k" "0 \<le> i \<Longrightarrow> 0 \<le> (of_int i :: rat)"
  "1 \<le> i \<Longrightarrow> 1 \<le> (of_int i :: rat)"
  by simp_all

lemma seconds_float:
  assumes "0 \<le> d" and "d \<le> 2 ^ 63"
  shows "\<exists>v. duration_Seconds d = Fin v \<and> 0 \<le> v \<and> v < 2 ^ 34"
proof -
  obtain f where f: "0 \<le> f" "\<bar>f - of_int (d mod time_Second) / 1000000000\<bar> \<le> 1 / 2 ^ 54"
    and d: "duration_Seconds d = round64 (of_int (d div time_Second) + f)"
    using duration_Seconds_split [OF assms] by blast
  have "d mod time_Second \<le> 1000000000" "d div time_Second \<le> 9223372036" "0 \<le> d div time_Second"
    using assms by (simp_all add: time_Second_def)
  note bounds = of_int_rat_bounds(1) [OF this(1)] of_int_rat_bounds(1) [OF this(2)] of_int_rat_bounds(2) [OF this(3)]
  obtain s n :: rat where sn: "s = of_int (d div time_Second)" "n = of_int (d mod time_Second)" by simp
  note f = f(1) abs_le_D1 [OF f(2) [folded sn]] abs_le_D2 [OF f(2) [folded sn]] and d = d [folded sn] and bounds = bounds [folded sn]
  have q: "0 \<le> s + f" "s + f \<le> 9223372038" using f bounds by simp_all
  show ?thesis
  proof (cases "s + f = 0")
    case True
    then show ?thesis by (simp add: d round64_def)
  next
    case False
    then have pos: "0 < s + f" using q(1) by linarith
    have "s + f < pow2 (33 + 1)" using q(2) by (simp add: pow2_def)
    then obtain v where v: "round64 (s + f) = Fin v" "\<bar>v - (s + f)\<bar> \<le> pow2 (33 - 53)"
      using round64_error [OF pos, of 33] by auto
    moreover have "0 \<le> v" using round64_nonneg [OF _ v(1)] pos by simp
    moreover have "v < 2 ^ 34" using abs_le_D1 [OF v(2)] q by (simp add: pow2_def)
    ultimately show ?thesis by (simp add: d)
  qed
qed

text \<open>For 194 days the two roundings together do not reach a nanosecond, so whole seconds are exact.\<close>

lemma seconds_exact:
  assumes "0 \<le> d" and "d < 2 ^ 24 * time_Second" and "duration_Seconds d = Fin v"
  shows "\<lfloor>v\<rfloor> = d div time_Second"
proof -
  have d63: "d \<le> 2 ^ 63" using assms(2) by (simp add: time_Second_def)
  obtain f where f: "0 \<le> f" "\<bar>f - of_int (d mod time_Second) / 1000000000\<bar> \<le> 1 / 2 ^ 54"
    and f0: "d mod time_Second = 0 \<longrightarrow> f = 0"
    and d: "duration_Seconds d = round64 (of_int (d div time_Second) + f)"
    using duration_Seconds_split [OF assms(1) d63] by blast
  have s: "0 \<le> d div time_Second" "d div time_Second \<le> 16777215" using assms(1,2) by (simp_all add: time_Second_def)
  have n: "d mod time_Second \<le> 999999999" "d mod time_Second = 0 \<or> 1 \<le> d mod time_Second"
    using pos_mod_sign [of time_Second d] by (auto simp: time_Second_def)
  show ?thesis
  proof (cases "d mod time_Second = 0")
    case True
    then have "v = of_int (d div time_Second)"
      using round64_int [OF s(1)] s(2) f0 d assms(3) by simp
    then show ?thesis by simp
  next
    case False
    then have "1 \<le> d mod time_Second" using n(2) by simp
    note bounds = of_int_rat_bounds(1) [OF n(1)] of_int_rat_bounds(3) [OF this] of_int_rat_bounds(2) [OF s(1)]
      of_int_rat_bounds(1) [OF s(2)]
    obtain s n :: rat where sn: "s = of_int (d div time_Second)" "n = of_int (d mod time_Second)" by simp
    note f = f(1) abs_le_D1 [OF f(2) [folded sn]] abs_le_D2 [OF f(2) [folded sn]] and d = d [folded sn] and bounds = bounds [folded sn]
    have pos: "0 < s + f" "s + f < pow2 (23 + 1)" using f bounds by (simp_all add: pow2_def)
    have "\<bar>v - (s + f)\<bar> \<le> 1 / 2 ^ 30"
      using round64_error [OF pos] assms(3) d by (auto simp: pow2_def)
    then have "s \<le> v" "v < s + 1" using f bounds abs_le_D1 [of "v - (s + f)" "1 / 2 ^ 30"] abs_le_D2 [of "v - (s + f)" "1 / 2 ^ 30"]
      by simp_all
    then show ?thesis by (simp add: sn floor_eq_iff)
  qed
qed

lemma duration_Seconds_minus: "duration_Seconds (- d) = fl_neg (duration_Seconds d)"
proof -
  have add: "fl_add (fl_neg a) (fl_neg b) = fl_neg (fl_add a b)" for a b
    using round64_minus [of "x + y" for x y] by (cases a; cases b) (simp_all add: add.commute)
  have divide: "fl_div_count (fl_neg a) n = fl_neg (fl_div_count a n)" for a n
    using round64_minus by (cases a) simp_all
  have of_int: "fl_of_int (- i) = fl_neg (fl_of_int i)" for i
    by (simp add: fl_of_int_def round64_minus)
  have "(- d) sdiv time_Second = - (d sdiv time_Second)" "(- d) smod time_Second = - (d smod time_Second)"
    by (simp_all add: signed_divide_int_def signed_modulo_int_def sgn_if)
  then show ?thesis by (simp add: duration_Seconds_def of_int divide add)
qed

text \<open>What the handler computes: truncated seconds, and 0 for a record from the future.\<close>

lemma age_seconds_exact:
  assumes "now - seen < 2 ^ 24 * time_Second"
  shows "age_seconds conv now seen = max 0 ((now - seen) div time_Second)"
proof (cases "0 \<le> now - seen")
  case True
  have sub: "time_Sub now seen = now - seen" using True assms by (simp add: time_Sub_def time_Second_def)
  have "now - seen \<le> 2 ^ 63" using assms by (simp add: time_Second_def)
  then obtain v where v: "duration_Seconds (now - seen) = Fin v" "0 \<le> v" "v < 2 ^ 34"
    using seconds_float True by blast
  have fl: "\<lfloor>v\<rfloor> = (now - seen) div time_Second" by (rule seconds_exact [OF True assms v(1)])
  moreover have "0 \<le> (now - seen) div time_Second" using True by (simp add: time_Second_def pos_imp_zdiv_nonneg_iff)
  moreover have "(now - seen) div time_Second < 2 ^ 24" using assms by (simp add: time_Second_def)
  ultimately show ?thesis using v by (simp add: age_seconds_def sub fl_truncate_def)
next
  case False
  define d where "d = - time_Sub now seen"
  have d: "0 \<le> d" "d \<le> 2 ^ 63" "time_Sub now seen = - d" using False by (simp_all add: d_def time_Sub_def)
  obtain v where v: "duration_Seconds d = Fin v" "0 \<le> v" "v < 2 ^ 34" using seconds_float d(1,2) by blast
  have m: "duration_Seconds (time_Sub now seen) = Fin (- v)" by (simp add: duration_Seconds_minus v d(3))
  define k where "k = \<lfloor>v\<rfloor>"
  have k: "k < 2 ^ 34" "0 \<le> k" using v by (simp_all add: k_def floor_less_iff)
  have "fl_truncate (- v) = - k" using v by (auto simp: fl_truncate_def ceiling_minus k_def)
  then have "age_seconds conv now seen = 0"
    unfolding age_seconds_def m using k by (simp add: Let_def)
  moreover have "(now - seen) div time_Second \<le> 0" using False by (simp add: time_Second_def)
  ultimately show ?thesis by simp
qed

section \<open>The health of an agent\<close>

text \<open>
  What the endpoint reports, without floating point: the age of the newest record against the
  thresholds.  Seconds are truncated first, so an agent stays healthy up to a second longer than the
  threshold, unless that is not a whole number of seconds.
\<close>

definition status_by_age :: "duration \<Rightarrow> duration \<Rightarrow> duration \<Rightarrow> string" where
  "status_by_age healthy stale age =
     (if age < (healthy div time_Second + 1) * time_Second then ''healthy''
      else if age < - (- stale div time_Second) * time_Second then ''stale''
      else ''offline'')"

definition health_at :: "duration \<Rightarrow> duration \<Rightarrow> TelemetryRecord list \<Rightarrow> time \<Rightarrow> string \<Rightarrow> Health" where
  "health_at healthy stale records now i =
     (case newest_first (agent_records i records) of
        [] \<Rightarrow> \<lparr>he_AgentID = i, he_Status = ''offline'', he_LastSeen = None, he_SecondsSinceLastSeen = None\<rparr>
      | r # _ \<Rightarrow>
          \<lparr>he_AgentID = i, he_Status = status_by_age healthy stale (now - tr_Timestamp r),
           he_LastSeen = Some (tr_Timestamp r),
           he_SecondsSinceLastSeen = Some (max 0 ((now - tr_Timestamp r) div time_Second))\<rparr>)"

lemma mult_le_div:
  assumes "(0::int) < c"
  shows "x * c \<le> y \<longleftrightarrow> x \<le> y div c"
proof
  assume "x * c \<le> y"
  then show "x \<le> y div c" using zdiv_mono1 [of "x * c" y c] assms by simp
next
  assume "x \<le> y div c"
  then have "x * c \<le> y div c * c" using assms by (intro mult_right_mono) simp_all
  also have "\<dots> \<le> y" using div_mult_mod_eq [of y c] pos_mod_sign [OF assms, of y] by linarith
  finally show "x * c \<le> y" .
qed

lemma health_status_by_age:
  assumes "0 < healthy" and "0 < stale" and "age < 2 ^ 24 * time_Second"
  shows "health_status healthy stale (max 0 (age div time_Second)) = status_by_age healthy stale age"
proof -
  define n where "n = max 0 (age div time_Second)"
  have c: "0 < time_Second" by (simp add: time_Second_def)
  have n: "0 \<le> n" "n < 2 ^ 24" using assms(3) by (simp_all add: n_def time_Second_def)
  then have "int64_wrap (n * time_Second) = n * time_Second" by (intro int64_wrap_id) (simp_all add: time_Second_def)
  moreover have "n * time_Second \<le> healthy \<longleftrightarrow> age < (healthy div time_Second + 1) * time_Second"
    using assms(1) c mult_le_div [OF c, of n healthy] mult_le_div [OF c, of "healthy div time_Second + 1" age]
      pos_imp_zdiv_nonneg_iff [OF c, of healthy] unfolding n_def by auto
  moreover have "n * time_Second < stale \<longleftrightarrow> age < - (- stale div time_Second) * time_Second"
    using assms(2) c mult_le_div [OF c, of "- n" "- stale"] mult_le_div [OF c, of "- (- stale div time_Second)" age]
      pos_imp_zdiv_neg_iff [OF c, of "- stale"] unfolding n_def by auto
  ultimately show ?thesis unfolding n_def [symmetric] by (simp add: health_status_def status_by_age_def)
qed

lemma effective_positive: "0 < effective_healthy healthy" "0 < effective_stale healthy stale"
  by (auto simp: effective_healthy_def effective_stale_def time_Second_def time_Minute_def)

lemma service_thresholds [simp]:
  "sv_healthy (NewService as source healthy stale) = effective_healthy healthy"
  "sv_stale (NewService as source healthy stale) = effective_stale healthy stale"
  by (simp_all add: NewService_def)

text \<open>Every record is less than 194 days old whenever the clock is read.\<close>

definition young :: "(nat \<Rightarrow> time) \<Rightarrow> TelemetryRecord list \<Rightarrow> bool" where
  "young clk records \<longleftrightarrow> (\<forall>n. \<forall>r \<in> set records. clk n - tr_Timestamp r < 2 ^ 24 * time_Second)"

text \<open>
  What the service relies on.  \<open>log_of\<close> is the log of records in a state and \<open>agents_of\<close> the list of
  agents; reading them moves no clock, and reading the clock leaves them alone.
\<close>

locale telemetry_source =
  fixes sv :: "'a env_scheme Service" and ok :: "'a env_scheme \<Rightarrow> bool"
    and log_of :: "'a env_scheme \<Rightarrow> TelemetryRecord list"
  assumes latest: "ok s \<Longrightarrow> sv_GetLatest sv i s = (rec, s') \<Longrightarrow>
      rec = (case newest_first (agent_records i (log_of s)) of [] \<Rightarrow> Inl NoRows | r # _ \<Rightarrow> Inr r) \<and>
      ok s' \<and> log_of s' = log_of s \<and> clock s' = clock s \<and> clock_pos s' = clock_pos s"
    and reading: "ok s \<Longrightarrow> ok (s\<lparr>clock_pos := n\<rparr>) \<and> log_of (s\<lparr>clock_pos := n\<rparr>) = log_of s"
    and history: "ok s \<Longrightarrow> sv_GetHistory sv i k from to s = (recs, s') \<Longrightarrow>
      recs = Inr (take (nat k) (newest_first (filter (in_window from to) (agent_records i (log_of s)))))"
    and thresholds: "0 < sv_healthy sv" "0 < sv_stale sv"
begin

lemma Service_Health_at:
  assumes "ok s" and "young (clock s) (log_of s)"
  shows "\<exists>s'. Service_Health conv sv i s =
      (Inr (health_at (sv_healthy sv) (sv_stale sv) (log_of s) (clock s (clock_pos s)) i), s') \<and>
    ok s' \<and> log_of s' = log_of s \<and> clock s' = clock s \<and>
    clock_pos s' = clock_pos s + (if newest_first (agent_records i (log_of s)) = [] then 0 else 1)"
proof -
  obtain rec s1 where r: "sv_GetLatest sv i s = (rec, s1)" by fastforce
  note l = latest [OF assms(1) r]
  show ?thesis
  proof (cases "newest_first (agent_records i (log_of s))")
    case Nil
    with l r show ?thesis by (auto simp: Service_Health_def health_at_def)
  next
    case (Cons x xs)
    have "x \<in> set (agent_records i (log_of s))" by (rule newest_first_hd(1) [OF Cons])
    then have "clock s (clock_pos s) - tr_Timestamp x < 2 ^ 24 * time_Second"
      using assms(2) by (auto simp: agent_records_def young_def)
    then show ?thesis
      using l r Cons reading [of s1 "Suc (clock_pos s1)"] thresholds
      by (auto simp: Service_Health_def health_at_def time_Now_def age_seconds_exact health_status_by_age Let_def)
  qed
qed

lemma Service_Analytics_points:
  assumes "ok s"
  shows "fst (Service_Analytics conv uconv sv i timeRange s) =
    Inr \<lparr>an_AgentID = i, an_Range = timeRange, an_Points = map (series_point conv uconv) (rev (take 500 (newest_first
      (filter (in_window (clock s (clock_pos s) - range_duration timeRange) (clock s (Suc (clock_pos s))))
        (agent_records i (log_of s))))))\<rparr>"
proof -
  let ?s2 = "s\<lparr>clock_pos := Suc (Suc (clock_pos s))\<rparr>"
  have s2: "ok ?s2" "log_of ?s2 = log_of s" using reading [OF assms] by simp_all
  obtain recs s3 where g: "sv_GetHistory sv i 500 (clock s (clock_pos s) - range_duration timeRange)
      (clock s (Suc (clock_pos s))) ?s2 = (recs, s3)" by fastforce
  then show ?thesis using history [OF s2(1) g] s2(2) by (simp add: Service_Analytics_def time_Now_def)
qed

end

text \<open>One reading of the clock per agent that has a record.\<close>

fun health_walk :: "duration \<Rightarrow> duration \<Rightarrow> TelemetryRecord list \<Rightarrow> (nat \<Rightarrow> time) \<Rightarrow> nat \<Rightarrow> string list \<Rightarrow> Health list" where
  "health_walk healthy stale records clk n [] = []"
| "health_walk healthy stale records clk n (i # is) =
     health_at healthy stale records (clk n) i #
     health_walk healthy stale records clk (n + (if newest_first (agent_records i records) = [] then 0 else 1)) is"

locale fleet_source = telemetry_source sv ok log_of
  for sv :: "'a env_scheme Service" and ok and log_of +
  fixes agents_of :: "'a env_scheme \<Rightarrow> Agent list"
  assumes listed: "ok s \<Longrightarrow> sv_agents sv s = (as, s') \<Longrightarrow>
      as = Inr (agents_of s) \<and> ok s' \<and> log_of s' = log_of s \<and> clock s' = clock s \<and> clock_pos s' = clock_pos s"
begin

lemma overview_loop_walk:
  assumes "ok s" and "young (clock s) (log_of s)"
  shows "fst (overview_loop conv sv as ov s) =
    Inr (fold count_health (health_walk (sv_healthy sv) (sv_stale sv) (log_of s) (clock s) (clock_pos s) (map ag_ID as)) ov)"
  using assms
proof (induction as arbitrary: ov s)
  case Nil
  then show ?case by simp
next
  case (Cons a as)
  obtain s1 where "Service_Health conv sv (ag_ID a) s =
      (Inr (health_at (sv_healthy sv) (sv_stale sv) (log_of s) (clock s (clock_pos s)) (ag_ID a)), s1)"
    and s1: "ok s1" "log_of s1 = log_of s" "clock s1 = clock s"
    "clock_pos s1 = clock_pos s + (if newest_first (agent_records (ag_ID a) (log_of s)) = [] then 0 else 1)"
    using Service_Health_at [OF Cons.prems, of conv "ag_ID a"] by blast
  then show ?case using Cons.IH [OF s1(1)] Cons.prems(2) by simp
qed

lemma Service_Overview_walk:
  assumes "ok s" and "young (clock s) (log_of s)"
  shows "fst (Service_Overview conv sv s) =
    Inr (fold count_health
      (health_walk (sv_healthy sv) (sv_stale sv) (log_of s) (clock s) (clock_pos s) (map ag_ID (agents_of s)))
      \<lparr>ov_Total = length (agents_of s), ov_Healthy = 0, ov_Stale = 0, ov_Offline = 0, ov_LatestTelemetry = None\<rparr>)"
proof -
  obtain as s1 where a: "sv_agents sv s = (as, s1)" by fastforce
  note l = listed [OF assms(1) a]
  then have "ok s1" "young (clock s1) (log_of s1)" using assms(2) by simp_all
  from overview_loop_walk [OF this] show ?thesis using a l by (simp add: Service_Overview_def)
qed

end

interpretation fleet: fleet_source "NewService agent_repository telemetry_repository healthy stale"
    "reliable :: 'a db_env_scheme \<Rightarrow> bool" telemetry "\<lambda>s. sort_key ag_CreatedAt (agents s)" for healthy stale
proof (unfold_locales, goal_cases)
  case (1 s i rec s')
  then show ?case
    by (auto simp: NewService_def telemetry_repository_def telemetry_GetLatest_def db_run_reliable select_one_def split: list.split)
next
  case (2 s n)
  then show ?case by simp
next
  case (3 s i k "from" to recs s')
  then show ?case
    by (auto simp: NewService_def telemetry_repository_def telemetry_GetHistory_def db_Query_reliable)
next
  case 4
  then show ?case by (simp add: effective_positive)
next
  case 5
  then show ?case by (simp add: effective_positive)
next
  case (6 s as s')
  then show ?case
    by (auto simp: NewService_def agent_repository_def agent_List_def db_Query_reliable)
qed

section \<open>Properties\<close>

text \<open>
  C35: Health follows the age of the newest record.  With a working database and records
  less than 194 days old, the endpoint answers 200 for every id: offline, without a time, for an id
  that has no record (an unknown agent included), and otherwise the time of the newest record, its
  age in whole seconds (0 for a record from the future), and healthy, stale or offline as this age
  compares with the thresholds.  The computation in floating point never shows.
\<close>

theorem health_by_age:
  fixes s :: "'a db_env_scheme"
  assumes "reliable s" and "young (clock s) (telemetry s)" and "Method r = ''GET''" and "PathValue r ''id'' \<noteq> ''''"
  shows "fst (Health_h conv (NewService agent_repository telemetry_repository healthy stale) w r s) =
    sendJSON 200 (OJ_health (health_at (effective_healthy healthy) (effective_stale healthy stale) (telemetry s)
      (clock s (clock_pos s)) (PathValue r ''id''))) w"
proof -
  obtain s' where "Service_Health conv (NewService agent_repository telemetry_repository healthy stale) (PathValue r ''id'') s =
      (Inr (health_at (effective_healthy healthy) (effective_stale healthy stale) (telemetry s)
        (clock s (clock_pos s)) (PathValue r ''id'')), s')"
    using fleet.Service_Health_at [OF assms(1,2), of conv healthy stale "PathValue r ''id''"] by auto
  then show ?thesis using assms(3,4) by (simp add: Health_h_def call_h_def respond_with_def respond_def)
qed

definition seconds_record :: "int \<Rightarrow> TelemetryRecord" where
  "seconds_record k = cpu_record (k * time_Second) 10"

definition frozen_env :: "time \<Rightarrow> TelemetryRecord list \<Rightarrow> telemetry_env" where
  "frozen_env now ts = (telemetry_start ts)\<lparr>clock := (\<lambda>_. now)\<rparr>"

lemma frozen_env_simps [simp]:
  "reliable (frozen_env now ts)" "telemetry (frozen_env now ts) = ts" "clock (frozen_env now ts) = (\<lambda>_. now)"
  "agents (frozen_env now ts) = agents (telemetry_start [])"
  by (simp_all add: frozen_env_def reliable_def telemetry_start_def)

theorem health_by_age_witness:
  "fst (Health_h (\<lambda>_. 0) (NewService agent_repository telemetry_repository 0 0) new_response (telemetry_request ''GET'')
      (frozen_env (60 * time_Second + 999999999) [seconds_record 30, seconds_record 1])) =
    sendJSON 200 (OJ_health \<lparr>he_AgentID = ''a1'', he_Status = ''healthy'', he_LastSeen = Some (30 * time_Second),
      he_SecondsSinceLastSeen = Some 30\<rparr>) new_response"
proof -
  let ?s = "frozen_env (60 * time_Second + 999999999) [seconds_record 30, seconds_record 1]"
  have y: "young (clock ?s) (telemetry ?s)" by (simp add: young_def seconds_record_def cpu_record_def time_Second_def)
  have q: "Method (telemetry_request ''GET'') = ''GET''" "PathValue (telemetry_request ''GET'') ''id'' \<noteq> ''''"
    by (simp_all add: telemetry_request_def)
  have "health_at (effective_healthy 0) (effective_stale 0 0) [seconds_record 30, seconds_record 1]
      (60 * time_Second + 999999999) ''a1'' = \<lparr>he_AgentID = ''a1'', he_Status = ''healthy'',
        he_LastSeen = Some (30 * time_Second), he_SecondsSinceLastSeen = Some 30\<rparr>" by code_simp
  then show ?thesis
    using health_by_age [OF frozen_env_simps(1) y q, of "\<lambda>_. 0" 0 0 new_response] by (simp add: telemetry_request_def)
qed

text \<open>What the overview counts.\<close>

lemma fold_count_health:
  "fold count_health hs ov = ov\<lparr>
     ov_Healthy := ov_Healthy ov + length (filter (\<lambda>h. he_Status h = ''healthy'') hs),
     ov_Stale := ov_Stale ov + length (filter (\<lambda>h. he_Status h = ''stale'') hs),
     ov_Offline := ov_Offline ov + length (filter (\<lambda>h. he_Status h \<noteq> ''healthy'' \<and> he_Status h \<noteq> ''stale'') hs),
     ov_LatestTelemetry := ov_LatestTelemetry (fold count_health hs ov)\<rparr>"
proof (induction hs arbitrary: ov)
  case Nil
  then show ?case by simp
next
  case (Cons h hs)
  show ?case unfolding fold.simps comp_def
    by (subst Cons.IH) (auto simp: count_health_def Let_def split: option.split)
qed

definition latest_in :: "time set \<Rightarrow> time option" where
  "latest_in T = (if T = {} then None else Some (Max T))"

lemma latest_in_simps:
  "latest_in {} = None" "latest_in {t} = Some t"
  "finite S \<Longrightarrow> latest_in (insert t S) = Some (case latest_in S of None \<Rightarrow> t | Some u \<Rightarrow> max t u)"
  by (simp_all add: latest_in_def)

lemma fold_count_latest:
  "ov_LatestTelemetry (fold count_health hs ov) =
     latest_in (set_option (ov_LatestTelemetry ov) \<union> (\<Union>h \<in> set hs. set_option (he_LastSeen h)))"
proof (induction hs arbitrary: ov)
  case Nil
  then show ?case by (cases "ov_LatestTelemetry ov") (simp_all add: latest_in_simps)
next
  case (Cons h hs)
  define S where "S = (\<Union>h \<in> set hs. set_option (he_LastSeen h))"
  have "finite S" by (simp add: S_def)
  then have "latest_in (set_option (ov_LatestTelemetry (count_health h ov)) \<union> S) =
      latest_in (set_option (ov_LatestTelemetry ov) \<union> (set_option (he_LastSeen h) \<union> S))"
    by (auto simp: count_health_def Let_def latest_in_simps split: option.split)
  then show ?case using Cons.IH [of "count_health h ov"] by (simp add: S_def)
qed

definition newest_time :: "TelemetryRecord list \<Rightarrow> string \<Rightarrow> time option" where
  "newest_time records i =
     (case newest_first (agent_records i records) of [] \<Rightarrow> None | r # _ \<Rightarrow> Some (tr_Timestamp r))"

lemma newest_time_Max:
  "newest_time records i =
     latest_in (tr_Timestamp ` set (agent_records i records))"
proof (cases "newest_first (agent_records i records)")
  case Nil
  then have "set (agent_records i records) = {}" by (metis newest_first_def set_sort empty_set)
  with Nil show ?thesis by (simp add: newest_time_def latest_in_def)
next
  case (Cons x xs)
  have "Max (tr_Timestamp ` set (agent_records i records)) = tr_Timestamp x"
    using newest_first_hd [OF Cons] by (intro Max_eqI) auto
  with newest_first_hd(1) [OF Cons] Cons show ?thesis by (auto simp: newest_time_def latest_in_def)
qed

lemma health_walk_seen:
  "(\<Union>h \<in> set (health_walk healthy stale records clk n is). set_option (he_LastSeen h)) =
     (\<Union>i \<in> set is. set_option (newest_time records i))"
  by (induction "is" arbitrary: n) (simp_all add: health_at_def newest_time_def split: list.split)

lemma length_health_walk [simp]: "length (health_walk healthy stale records clk n is) = length is"
  by (induction "is" arbitrary: n) simp_all

text \<open>The newest time of all agents is that of all records.\<close>

lemma newest_times_Max:
  assumes "tr_AgentID ` set records \<subseteq> set is" and "records \<noteq> []"
  shows "(\<Union>i \<in> set is. set_option (newest_time records i)) \<noteq> {}"
    and "Max (\<Union>i \<in> set is. set_option (newest_time records i)) = Max (tr_Timestamp ` set records)"
proof -
  let ?T = "\<Union>i \<in> set is. set_option (newest_time records i)"
  have dom: "\<exists>t \<in> ?T. tr_Timestamp r \<le> t" if "r \<in> set records" for r
  proof (intro bexI)
    let ?R = "set (agent_records (tr_AgentID r) records)"
    have r: "r \<in> ?R" using that by (simp add: agent_records_def)
    then show "tr_Timestamp r \<le> Max (tr_Timestamp ` ?R)" by simp
    have "newest_time records (tr_AgentID r) = Some (Max (tr_Timestamp ` ?R))"
      using r by (auto simp: newest_time_Max latest_in_def)
    then show "Max (tr_Timestamp ` ?R) \<in> ?T" using assms(1) that by (intro UN_I [of "tr_AgentID r"]) auto
  qed
  have sub: "?T \<subseteq> tr_Timestamp ` set records"
  proof
    fix t assume "t \<in> ?T"
    then obtain i where "newest_time records i = Some t" by auto
    then have "t \<in> tr_Timestamp ` set (agent_records i records)"
      using Max_in [of "tr_Timestamp ` set (agent_records i records)"] by (auto simp: newest_time_Max latest_in_def split: if_splits)
    then show "t \<in> tr_Timestamp ` set records" by (auto simp: agent_records_def)
  qed
  obtain r where "r \<in> set records" using assms(2) by (cases records) auto
  then show ne: "?T \<noteq> {}" using dom by blast
  have fin: "finite ?T" using sub by (rule finite_subset) simp
  have "Max (tr_Timestamp ` set records) \<in> tr_Timestamp ` set records" using assms(2) by (intro Max_in) simp_all
  then obtain r where r: "r \<in> set records" "Max (tr_Timestamp ` set records) = tr_Timestamp r" by auto
  obtain t where t: "t \<in> ?T" "tr_Timestamp r \<le> t" using dom [OF r(1)] by blast
  have "Max ?T \<le> Max (tr_Timestamp ` set records)" by (rule Max_mono [OF sub ne]) simp
  moreover have "t \<le> Max ?T" by (rule Max_ge [OF fin t(1)])
  ultimately show "Max ?T = Max (tr_Timestamp ` set records)" using r(2) t(2) by linarith
qed

lemma health_walk_status:
  assumes "h \<in> set (health_walk healthy stale records clk n is)"
  shows "(he_Status h \<noteq> ''healthy'' \<and> he_Status h \<noteq> ''stale'') = (he_Status h = ''offline'')"
proof -
  have "he_Status (health_at healthy stale records now i) \<in> {''healthy'', ''stale'', ''offline''}" for now i
    by (auto simp: health_at_def status_by_age_def split: list.split)
  then have "he_Status h \<in> {''healthy'', ''stale'', ''offline''}"
    using assms by (induction "is" arbitrary: n) auto
  then show ?thesis by auto
qed

lemma health_walk_partition:
  "length (filter (\<lambda>h. he_Status h = ''healthy'') (health_walk healthy stale records clk n is)) +
   length (filter (\<lambda>h. he_Status h = ''stale'') (health_walk healthy stale records clk n is)) +
   length (filter (\<lambda>h. he_Status h = ''offline'') (health_walk healthy stale records clk n is)) = length is"
proof (induction "is" arbitrary: n)
  case Nil
  then show ?case by simp
next
  case (Cons i "is")
  show ?case using Cons.IH health_walk_status [of "health_at healthy stale records (clk n) i" healthy stale records clk n "[i]"]
    by auto
qed

text \<open>
  C36: The overview adds up.  With a working database whose records belong to registered agents and
  are less than 194 days old, the endpoint answers 200; every registered agent is counted once, as
  healthy, stale or offline by the health the other endpoint reports at the same reading of the clock,
  and the latest telemetry is the newest time in the whole table.
\<close>

theorem overview_adds_up:
  fixes s :: "'a db_env_scheme"
  assumes "reliable s" and "young (clock s) (telemetry s)" and "Method r = ''GET''"
    and "tr_AgentID ` set (telemetry s) \<subseteq> ag_ID ` set (agents s)"
  shows "\<exists>ov hs. fst (Overview_h conv (NewService agent_repository telemetry_repository healthy stale) w r s) =
      sendJSON 200 (OJ_overview ov) w \<and>
    hs = health_walk (effective_healthy healthy) (effective_stale healthy stale) (telemetry s) (clock s) (clock_pos s)
      (map ag_ID (sort_key ag_CreatedAt (agents s))) \<and>
    ov_Total ov = length (agents s) \<and>
    ov_Healthy ov = length (filter (\<lambda>h. he_Status h = ''healthy'') hs) \<and>
    ov_Stale ov = length (filter (\<lambda>h. he_Status h = ''stale'') hs) \<and>
    ov_Offline ov = length (filter (\<lambda>h. he_Status h = ''offline'') hs) \<and>
    ov_Healthy ov + ov_Stale ov + ov_Offline ov = ov_Total ov \<and>
    ov_LatestTelemetry ov = (if telemetry s = [] then None else Some (Max (tr_Timestamp ` set (telemetry s))))"
proof -
  let ?is = "map ag_ID (sort_key ag_CreatedAt (agents s))"
  let ?hs = "health_walk (effective_healthy healthy) (effective_stale healthy stale) (telemetry s) (clock s) (clock_pos s) ?is"
  let ?start = "\<lparr>ov_Total = length (agents s), ov_Healthy = 0, ov_Stale = 0, ov_Offline = 0, ov_LatestTelemetry = None\<rparr>"
  let ?ov = "fold count_health ?hs ?start"
  have "fst (Overview_h conv (NewService agent_repository telemetry_repository healthy stale) w r s) =
      sendJSON 200 (OJ_overview ?ov) w"
    using fleet.Service_Overview_walk [OF assms(1,2), of conv healthy stale] assms(3)
    by (simp add: Overview_h_def respond_with_def respond_def)
  moreover have off: "filter (\<lambda>h. he_Status h \<noteq> ''healthy'' \<and> he_Status h \<noteq> ''stale'') ?hs = filter (\<lambda>h. he_Status h = ''offline'') ?hs"
    by (rule filter_cong [OF refl]) (rule health_walk_status)
  moreover have "?ov = \<lparr>ov_Total = length (agents s), ov_Healthy = length (filter (\<lambda>h. he_Status h = ''healthy'') ?hs),
      ov_Stale = length (filter (\<lambda>h. he_Status h = ''stale'') ?hs),
      ov_Offline = length (filter (\<lambda>h. he_Status h = ''offline'') ?hs), ov_LatestTelemetry = ov_LatestTelemetry ?ov\<rparr>"
    by (subst fold_count_health) (simp add: off)
  moreover have "length (filter (\<lambda>h. he_Status h = ''healthy'') ?hs) + length (filter (\<lambda>h. he_Status h = ''stale'') ?hs) +
      length (filter (\<lambda>h. he_Status h = ''offline'') ?hs) = length ?is"
    using health_walk_partition by metis
  moreover have "ov_LatestTelemetry ?ov = latest_in (\<Union>i \<in> set ?is. set_option (newest_time (telemetry s) i))"
    by (simp only: fold_count_latest health_walk_seen) simp
  moreover have "latest_in (\<Union>i \<in> set ?is. set_option (newest_time (telemetry s) i)) =
      (if telemetry s = [] then None else Some (Max (tr_Timestamp ` set (telemetry s))))"
  proof (cases "telemetry s = []")
    case True
    then show ?thesis by (simp add: latest_in_def newest_time_Max agent_records_def)
  next
    case False
    have "tr_AgentID ` set (telemetry s) \<subseteq> set ?is" using assms(4) by simp
    from newest_times_Max [OF this False] show ?thesis using False by (simp add: latest_in_def)
  qed
  ultimately show ?thesis by (intro exI [of _ ?ov] exI [of _ ?hs]) simp
qed


theorem overview_adds_up_witness:
  "\<exists>ov. fst (Overview_h (\<lambda>_. 0) (NewService agent_repository telemetry_repository 0 0) new_response (telemetry_request ''GET'')
      (frozen_env (150 * time_Second) [seconds_record 30, seconds_record 1])) = sendJSON 200 (OJ_overview ov) new_response \<and>
    ov_Total ov = 1 \<and> ov_Offline ov = 1 \<and> ov_LatestTelemetry ov = Some (30 * time_Second)"
proof -
  let ?s = "frozen_env (150 * time_Second) [seconds_record 30, seconds_record 1]"
  have y: "young (clock ?s) (telemetry ?s)" by (simp add: young_def seconds_record_def cpu_record_def time_Second_def)
  have q: "Method (telemetry_request ''GET'') = ''GET''" by (simp add: telemetry_request_def)
  have fk: "tr_AgentID ` set (telemetry ?s) \<subseteq> ag_ID ` set (agents ?s)"
    by (simp add: telemetry_start_def seconds_record_def cpu_record_def)
  have walk: "length (filter (\<lambda>h. he_Status h = ''offline'') (health_walk (effective_healthy 0) (effective_stale 0 0)
      [seconds_record 30, seconds_record 1] (\<lambda>_. 150 * time_Second) 5
      (map ag_ID (sort_key ag_CreatedAt (agents (telemetry_start [])))))) = 1" by code_simp
  have "clock_pos ?s = 5" "length (agents ?s) = 1" by (simp_all add: frozen_env_def telemetry_start_def)
  then show ?thesis
    using overview_adds_up [OF frozen_env_simps(1) y q fk, of "\<lambda>_. 0" 0 0 new_response] walk
    by (auto simp: seconds_record_def cpu_record_def time_Second_def)
qed

text \<open>
  C37: The chart holds the newest 500 samples of its range.  With a working database the endpoint
  answers 200 with one point per record, oldest first; the records are those of the agent between the
  start of the range and now, all of them if there are at most 500, and otherwise the 500 newest, so
  that the earlier part of a long range is not on the chart.
\<close>

theorem analytics_newest:
  fixes s :: "'a db_env_scheme"
  assumes "reliable s" and "Method r = ''GET''" and "PathValue r ''id'' \<noteq> ''''"
    and "chart = (if Query_Get r ''range'' = '''' then ''1h'' else Query_Get r ''range'')"
  shows "\<exists>shown left.
    fst (Analytics_h conv uconv (NewService agent_repository telemetry_repository healthy stale) w r s) =
      sendJSON 200 (OJ_analytics \<lparr>an_AgentID = PathValue r ''id'', an_Range = chart,
        an_Points = map (series_point conv uconv) shown\<rparr>) w \<and>
    mset (left @ shown) =
      mset (filter (in_window (clock s (clock_pos s) - range_duration chart) (clock s (Suc (clock_pos s))))
        (agent_records (PathValue r ''id'') (telemetry s))) \<and>
    length shown = min 500 (length (left @ shown)) \<and>
    sorted (map tr_Timestamp shown) \<and>
    list_all (\<lambda>y. list_all (\<lambda>x. tr_Timestamp y \<le> tr_Timestamp x) shown) left"
proof -
  let ?rows = "newest_first (filter (in_window (clock s (clock_pos s) - range_duration chart) (clock s (Suc (clock_pos s))))
        (agent_records (PathValue r ''id'') (telemetry s)))"
  have "fst (Analytics_h conv uconv (NewService agent_repository telemetry_repository healthy stale) w r s) =
      sendJSON 200 (OJ_analytics \<lparr>an_AgentID = PathValue r ''id'', an_Range = chart,
        an_Points = map (series_point conv uconv) (rev (take 500 ?rows))\<rparr>) w"
    using fleet.Service_Analytics_points [OF assms(1), of conv uconv healthy stale "PathValue r ''id''" chart] assms(2-4)
    by (simp add: Analytics_h_def respond_with_def respond_def Let_def)
  moreover note take = newest_first_take [of 500 "filter (in_window (clock s (clock_pos s) - range_duration chart)
      (clock s (Suc (clock_pos s)))) (agent_records (PathValue r ''id'') (telemetry s))"]
  have "sorted (map tr_Timestamp (rev (take 500 ?rows)))"
    using take(3) by (simp add: sorted_map sorted_wrt_rev)
  moreover have "list_all (\<lambda>y. list_all (\<lambda>x. tr_Timestamp y \<le> tr_Timestamp x) (rev (take 500 ?rows))) (drop 500 ?rows)"
    using take(4) by (auto simp: list_all_iff)
  moreover have "mset (drop 500 ?rows @ rev (take 500 ?rows)) =
      mset (filter (in_window (clock s (clock_pos s) - range_duration chart) (clock s (Suc (clock_pos s))))
        (agent_records (PathValue r ''id'') (telemetry s)))"
    unfolding take(1) [symmetric] mset_append mset_rev by (rule union_commute)
  moreover have "length (rev (take 500 ?rows)) = min 500 (length (drop 500 ?rows @ rev (take 500 ?rows)))"
    by (simp add: min_def)
  ultimately show ?thesis
    by blast
qed

theorem analytics_newest_witness:
  "\<exists>shown. fst (Analytics_h (\<lambda>_. 0) (\<lambda>_. 0) (NewService agent_repository telemetry_repository 0 0) new_response
      (telemetry_request ''GET'') (frozen_env (4000 * time_Second) [seconds_record 3000, seconds_record 500, seconds_record 1000])) =
    sendJSON 200 (OJ_analytics \<lparr>an_AgentID = ''a1'', an_Range = ''1h'',
      an_Points = map (series_point (\<lambda>_. 0) (\<lambda>_. 0)) shown\<rparr>) new_response \<and> length shown = 3"
proof -
  let ?s = "frozen_env (4000 * time_Second) [seconds_record 3000, seconds_record 500, seconds_record 1000]"
  let ?q = "telemetry_request ''GET''"
  have q: "Method ?q = ''GET''" "PathValue ?q ''id'' \<noteq> ''''" "PathValue ?q ''id'' = ''a1''"
    "''1h'' = (if Query_Get ?q ''range'' = '''' then ''1h'' else Query_Get ?q ''range'')"
    by (simp_all add: telemetry_request_def)
  obtain shown left where a: "fst (Analytics_h (\<lambda>_. 0) (\<lambda>_. 0) (NewService agent_repository telemetry_repository 0 0) new_response ?q ?s) =
      sendJSON 200 (OJ_analytics \<lparr>an_AgentID = ''a1'', an_Range = ''1h'',
        an_Points = map (series_point (\<lambda>_. 0) (\<lambda>_. 0)) shown\<rparr>) new_response"
    and m: "mset (left @ shown) =
      mset (filter (in_window (clock ?s (clock_pos ?s) - range_duration ''1h'') (clock ?s (Suc (clock_pos ?s))))
        (agent_records ''a1'' (telemetry ?s)))" "length shown = min 500 (length (left @ shown))"
    using analytics_newest [OF frozen_env_simps(1) q(1,2,4), of "\<lambda>_. 0" "\<lambda>_. 0" 0 0 new_response] unfolding q(3) by blast
  have "length (filter (in_window (4000 * time_Second - range_duration ''1h'') (4000 * time_Second))
      (agent_records ''a1'' [seconds_record 3000, seconds_record 500, seconds_record 1000])) = 3" by code_simp
  then have "length (left @ shown) = 3" using arg_cong [OF m(1), of size] unfolding size_mset by simp
  with a m(2) show ?thesis by auto
qed

end
