(* ===== verification/Retention.thy ===== *)
theory Retention
  imports Database "HOL-Library.Monad_Syntax"
begin

text \<open>
  internal/retention/worker.go: the hourly summary and the purge.  The summary is one SQL statement;
  it is translated clause by clause, as a function that fails (\<open>None\<close>) when a cast fails, since then
  PostgreSQL rejects the whole statement.  What PostgreSQL computes inside is an argument: the text of
  a JSON value, the casts of texts to numbers and the average of float8 values.  Hours start at UTC
  hours, as in a session whose time zone is UTC.
\<close>

section \<open>The functions of the database\<close>

record sql =
  json_text :: "goany \<Rightarrow> string"
  text_double :: "string \<Rightarrow> float64 option"
  text_bigint :: "string \<Rightarrow> int option"
  avg_double :: "float64 list \<Rightarrow> float64 option"

text \<open>The operators \<open>->\<close> and \<open>->>\<close>; a missing key and the JSON null both end as SQL's null.\<close>

definition json_get :: "goany \<Rightarrow> string \<Rightarrow> goany" where
  "json_get v k = (case as_map v of None \<Rightarrow> GNil | Some m \<Rightarrow> map_index m k)"

fun sql_text :: "sql \<Rightarrow> goany \<Rightarrow> string option" where
  "sql_text F GNil = None"
| "sql_text F (GString c) = Some c"
| "sql_text F v = Some (json_text F v)"

text \<open>A cast of null is null, a cast of a text may be rejected.\<close>

definition sql_cast :: "(string \<Rightarrow> 'v option) \<Rightarrow> string option \<Rightarrow> 'v option option" where
  "sql_cast f c = (case c of None \<Rightarrow> Some None | Some c \<Rightarrow> map_option Some (f c))"

definition sql_double :: "sql \<Rightarrow> goany \<Rightarrow> float64 option option" where
  "sql_double F v = sql_cast (text_double F) (sql_text F v)"

definition sql_bigint :: "sql \<Rightarrow> goany \<Rightarrow> int option option" where
  "sql_bigint F v = sql_cast (text_bigint F) (sql_text F v)"

text \<open>The order of float8, in which NaN is the greatest value.\<close>

definition fl8_less :: "float64 \<Rightarrow> float64 \<Rightarrow> bool" where
  "fl8_less a b \<longleftrightarrow> (if a = NaN then False else b = NaN \<or> fl_less a b)"

definition fl8_min :: "float64 list \<Rightarrow> float64" where
  "fl8_min vs = fold (\<lambda>v m. if fl8_less v m then v else m) (tl vs) (hd vs)"

definition fl8_max :: "float64 list \<Rightarrow> float64" where
  "fl8_max vs = fold (\<lambda>v m. if fl8_less m v then v else m) (tl vs) (hd vs)"

definition hour_start :: "time \<Rightarrow> time" where
  "hour_start t = t div time_Hour * time_Hour"

definition nonnull :: "'v option list \<Rightarrow> 'v list" where
  "nonnull = List.map_filter (\<lambda>v. v)"

section \<open>The rollup statement\<close>

text \<open>One row of the common table expression \<open>samples\<close>.\<close>

record sample =
  sm_agent_id :: string
  sm_bucket_start :: time
  sm_cpu_usage :: "float64 option"
  sm_memory_usage :: "float64 option"
  sm_disk_usage :: "float64 option"
  sm_bytes_recv :: int
  sm_bytes_sent :: int

definition array_elements :: "goany \<Rightarrow> goany list" where
  "array_elements v = (case as_slice v of None \<Rightarrow> [] | Some vs \<Rightarrow> vs)"

definition root_disk :: "sql \<Rightarrow> goany \<Rightarrow> float64 option option" where
  "root_disk F system =
     (case find (\<lambda>p. sql_text F (json_get p ''mountpoint'') = Some ''/'')
             (array_elements (json_get (json_get system ''disk'') ''partitions'')) of
        None \<Rightarrow> Some None
      | Some p \<Rightarrow> sql_double F (json_get p ''used_percent''))"

definition network_bytes :: "sql \<Rightarrow> goany \<Rightarrow> string \<Rightarrow> int option" where
  "network_bytes F system key =
     map_option (\<lambda>bs. sum_list (nonnull bs))
       (those (map (\<lambda>i. sql_bigint F (json_get i key)) (array_elements (json_get (json_get system ''network'') ''interfaces''))))"

definition sample_of :: "sql \<Rightarrow> TelemetryRecord \<Rightarrow> sample option" where
  "sample_of F r =
     (let system = json_get (GMap (tr_Metrics r)) ''system'' in
      do {
        cpu \<leftarrow> sql_double F (json_get (json_get system ''cpu'') ''usage_percent'');
        memory \<leftarrow> sql_double F (json_get (json_get system ''memory'') ''used_percent'');
        disk \<leftarrow> root_disk F system;
        recv \<leftarrow> network_bytes F system ''bytes_recv'';
        sent \<leftarrow> network_bytes F system ''bytes_sent'';
        Some \<lparr>sm_agent_id = tr_AgentID r, sm_bucket_start = hour_start (tr_Timestamp r), sm_cpu_usage = cpu,
              sm_memory_usage = memory, sm_disk_usage = disk, sm_bytes_recv = recv, sm_bytes_sent = sent\<rparr>
      })"

definition sample_key :: "sample \<Rightarrow> string \<times> time" where
  "sample_key x = (sm_agent_id x, sm_bucket_start x)"

text \<open>The aggregates ignore null, and give null over nothing, which becomes 0.\<close>

definition coalesce_avg :: "sql \<Rightarrow> float64 option list \<Rightarrow> float64 option" where
  "coalesce_avg F vs = (if nonnull vs = [] then Some (Fin 0) else avg_double F (nonnull vs))"

definition coalesce_min :: "float64 option list \<Rightarrow> float64" where
  "coalesce_min vs = (if nonnull vs = [] then Fin 0 else fl8_min (nonnull vs))"

definition coalesce_max :: "float64 option list \<Rightarrow> float64" where
  "coalesce_max vs = (if nonnull vs = [] then Fin 0 else fl8_max (nonnull vs))"

definition to_bigint :: "int \<Rightarrow> int option" where
  "to_bigint i = (if - (2 ^ 63) \<le> i \<and> i < 2 ^ 63 then Some i else None)"

text \<open>One group; the count must fit the INT column.\<close>

definition group_row :: "sql \<Rightarrow> sample list \<Rightarrow> string \<times> time \<Rightarrow> hourly_row option" where
  "group_row F samples k =
     (let g = filter (\<lambda>x. sample_key x = k) samples in
      do {
        cpu \<leftarrow> coalesce_avg F (map sm_cpu_usage g);
        memory \<leftarrow> coalesce_avg F (map sm_memory_usage g);
        disk \<leftarrow> coalesce_avg F (map sm_disk_usage g);
        recv \<leftarrow> to_bigint (sum_list (map sm_bytes_recv g));
        sent \<leftarrow> to_bigint (sum_list (map sm_bytes_sent g));
        if int4 (int (length g)) then
          Some \<lparr>ho_agent_id = fst k, ho_bucket_start = snd k,
            ho_cpu_avg = cpu, ho_cpu_min = coalesce_min (map sm_cpu_usage g), ho_cpu_max = coalesce_max (map sm_cpu_usage g),
            ho_memory_avg = memory, ho_memory_min = coalesce_min (map sm_memory_usage g),
            ho_memory_max = coalesce_max (map sm_memory_usage g), ho_disk_avg = disk,
            ho_network_received = recv, ho_network_sent = sent, ho_sample_count = int (length g)\<rparr>
        else None
      })"

definition samples_before :: "sql \<Rightarrow> time \<Rightarrow> TelemetryRecord list \<Rightarrow> sample list option" where
  "samples_before F t rs = those (map (sample_of F) (filter (\<lambda>r. tr_Timestamp r < t) rs))"

definition rollup_rows :: "sql \<Rightarrow> time \<Rightarrow> TelemetryRecord list \<Rightarrow> hourly_row list option" where
  "rollup_rows F now rs =
     do {
       samples \<leftarrow> samples_before F (hour_start now) rs;
       those (map (group_row F samples) (remdups (map sample_key samples)))
     }"

definition hourly_key :: "hourly_row \<Rightarrow> string \<times> time" where
  "hourly_key h = (ho_agent_id h, ho_bucket_start h)"

text \<open>INSERT with ON CONFLICT: all columns but the key are replaced.\<close>

definition upsert_hourly :: "hourly_row \<Rightarrow> hourly_row list \<Rightarrow> hourly_row list" where
  "upsert_hourly h rows =
     (if hourly_key h \<in> hourly_key ` set rows then map (\<lambda>x. if hourly_key x = hourly_key h then h else x) rows
      else rows @ [h])"

definition hourlyRollup :: "sql \<Rightarrow> 'a db_env_scheme \<Rightarrow> (dberr + unit) \<times> 'a db_env_scheme" where
  "hourlyRollup F s =
     (case time_Now s of (now, s1) \<Rightarrow>
      case rollup_rows F now (telemetry s1) of
        None \<Rightarrow> (Inl DBFail, s1)
      | Some rows \<Rightarrow>
          if ho_agent_id ` set rows \<subseteq> ag_ID ` set (agents s1)
          then (Inr (), s1\<lparr>telemetry_hourly := fold upsert_hourly rows (telemetry_hourly s1)\<rparr>)
          else (Inl Constraint, s1))"

section \<open>The worker\<close>

record Worker =
  wk_retentionDays :: int
  wk_interval :: duration

definition retention_NewWorker :: "int \<Rightarrow> duration \<Rightarrow> Worker" where
  "retention_NewWorker days interval =
     \<lparr>wk_retentionDays = (if days \<le> 0 then 30 else days), wk_interval = (if interval \<le> 0 then time_Hour else interval)\<rparr>"

definition rollupHourly :: "sql \<Rightarrow> 'a db_env_scheme \<Rightarrow> (dberr + unit) \<times> 'a db_env_scheme" where
  "rollupHourly F = db_run (hourlyRollup F)"

text \<open>\<open>AddDate(0, 0, -n)\<close> in UTC, where a day has 24 hours.\<close>

definition cutoff :: "Worker \<Rightarrow> time \<Rightarrow> time" where
  "cutoff w now = now - wk_retentionDays w * (24 * time_Hour)"

definition purgeOldTelemetry :: "Worker \<Rightarrow> 'a db_env_scheme \<Rightarrow> (dberr + unit) \<times> 'a db_env_scheme" where
  "purgeOldTelemetry w s =
     (case time_Now s of (now, s1) \<Rightarrow>
        db_run (\<lambda>t. (Inr (), t\<lparr>telemetry := filter (\<lambda>r. \<not> tr_Timestamp r < cutoff w now) (telemetry t)\<rparr>)) s1)"

text \<open>The second step runs whatever the first answers; both errors are only logged.\<close>

definition runRetentionTask :: "sql \<Rightarrow> Worker \<Rightarrow> 'a db_env_scheme \<Rightarrow> 'a db_env_scheme" where
  "runRetentionTask F w s = (case rollupHourly F s of (_, s1) \<Rightarrow> snd (purgeOldTelemetry w s1))"

text \<open>\<open>Start\<close>, up to the context's end: one run, then one per tick.\<close>

fun Worker_Start :: "sql \<Rightarrow> Worker \<Rightarrow> nat \<Rightarrow> 'a db_env_scheme \<Rightarrow> 'a db_env_scheme" where
  "Worker_Start F w 0 s = runRetentionTask F w s"
| "Worker_Start F w (Suc ticks) s = runRetentionTask F w (Worker_Start F w ticks s)"


section \<open>The table of summaries as a map\<close>

definition summary :: "hourly_row list \<Rightarrow> string \<times> time \<Rightarrow> hourly_row option" where
  "summary rows = map_of (map (\<lambda>h. (hourly_key h, h)) rows)"

lemma summary_simps [simp]:
  "summary [] = (\<lambda>_. None)"
  "summary (h # rows) = (summary rows)(hourly_key h \<mapsto> h)"
  by (auto simp: summary_def)

lemma summary_append [simp]: "summary (rows @ rows') = summary rows' ++ summary rows"
  by (simp add: summary_def)

lemma summary_None: "summary rows k = None \<longleftrightarrow> k \<notin> hourly_key ` set rows"
  by (induction rows) auto

lemma summary_Some: "summary rows k = Some h \<Longrightarrow> h \<in> set rows \<and> hourly_key h = k"
  by (induction rows) (auto split: if_splits)

lemma summary_in: "distinct (map hourly_key rows) \<Longrightarrow> h \<in> set rows \<Longrightarrow> summary rows (hourly_key h) = Some h"
proof (induction rows)
  case Nil
  then show ?case by simp
next
  case (Cons x rows)
  then show ?case by (cases "x = h") (auto simp: rev_image_eqI)
qed

lemma summary_replace:
  "summary (map (\<lambda>x. if hourly_key x = hourly_key h then h else x) rows) k =
     (if k = hourly_key h \<and> k \<in> hourly_key ` set rows then Some h else summary rows k)"
  by (induction rows) auto

lemma summary_upsert: "summary (upsert_hourly h rows) = (summary rows)(hourly_key h \<mapsto> h)"
proof
  fix k
  show "summary (upsert_hourly h rows) k = ((summary rows)(hourly_key h \<mapsto> h)) k"
  proof (cases "hourly_key h \<in> hourly_key ` set rows")
    case True
    then show ?thesis by (auto simp: upsert_hourly_def summary_replace)
  next
    case False
    then have "summary rows (hourly_key h) = None" by (simp add: summary_None)
    with False show ?thesis by (auto simp: upsert_hourly_def map_add_def split: option.split)
  qed
qed

lemma upsert_keys: "hourly_key ` set (upsert_hourly h rows) = insert (hourly_key h) (hourly_key ` set rows)"
proof -
  have "k \<in> hourly_key ` set (upsert_hourly h rows) \<longleftrightarrow> k = hourly_key h \<or> k \<in> hourly_key ` set rows" for k
    using summary_None [of "upsert_hourly h rows" k] summary_None [of rows k]
    by (cases "k = hourly_key h") (simp_all add: summary_upsert)
  then show ?thesis by blast
qed

lemma upsert_distinct: "distinct (map hourly_key rows) \<Longrightarrow> distinct (map hourly_key (upsert_hourly h rows))"
proof -
  have "map hourly_key (map (\<lambda>x. if hourly_key x = hourly_key h then h else x) rows) = map hourly_key rows"
    by (induction rows) simp_all
  then show "distinct (map hourly_key rows) \<Longrightarrow> distinct (map hourly_key (upsert_hourly h rows))"
    by (simp add: upsert_hourly_def del: map_map)
qed

lemma upsert_id: "distinct (map hourly_key rows) \<Longrightarrow> h \<in> set rows \<Longrightarrow> upsert_hourly h rows = rows"
proof -
  assume rows: "distinct (map hourly_key rows)" "h \<in> set rows"
  then have "map (\<lambda>x. if hourly_key x = hourly_key h then h else x) rows = rows"
    by (intro map_idI) (auto dest: key_unique)
  with rows(2) show "upsert_hourly h rows = rows" by (simp add: upsert_hourly_def)
qed

lemma summary_upserts: "distinct (map hourly_key rs) \<Longrightarrow> summary (fold upsert_hourly rs rows) = summary rows ++ summary rs"
proof (induction rs arbitrary: rows)
  case Nil
  then show ?case by simp
next
  case (Cons h rs)
  then have "summary rs (hourly_key h) = None" by (simp add: summary_None)
  then have "(summary rows)(hourly_key h \<mapsto> h) ++ summary rs = summary rows ++ (summary rs)(hourly_key h \<mapsto> h)"
    by (intro ext) (simp add: map_add_def split: option.split)
  moreover have "summary (fold upsert_hourly (h # rs) rows) = summary (upsert_hourly h rows) ++ summary rs"
    using Cons by simp
  ultimately show ?case by (simp only: summary_upsert summary_simps)
qed

lemma upserts_distinct: "distinct (map hourly_key rows) \<Longrightarrow> distinct (map hourly_key (fold upsert_hourly rs rows))"
  by (induction rs arbitrary: rows) (simp_all add: upsert_distinct)

lemma upserts_keys: "hourly_key ` set (fold upsert_hourly rs rows) = hourly_key ` set rs \<union> hourly_key ` set rows"
  by (induction rs arbitrary: rows) (auto simp: upsert_keys)

lemma upserts_id: "distinct (map hourly_key rows) \<Longrightarrow> set rs \<subseteq> set rows \<Longrightarrow> fold upsert_hourly rs rows = rows"
  by (induction rs) (simp_all add: upsert_id)

section \<open>The rows of a rollup\<close>

lemma those_map_Some_iff: "those (map f xs) = Some ys \<longleftrightarrow> map f xs = map Some ys"
  by (induction xs arbitrary: ys) (auto simp: Cons_eq_map_conv split: option.splits)

lemma those_map_nth:
  "those (map f xs) = Some ys \<Longrightarrow> length ys = length xs \<and> (\<forall>i < length xs. f (xs ! i) = Some (ys ! i))"
  unfolding those_map_Some_iff by (metis length_map nth_map)

lemma those_map_None: "x \<in> set xs \<Longrightarrow> f x = None \<Longrightarrow> those (map f xs) = None"
  by (induction xs) (auto split: option.splits)

lemma group_row_key: "group_row F samples k = Some h \<Longrightarrow> hourly_key h = k"
  by (auto simp: group_row_def hourly_key_def Let_def split: bind_splits if_splits)

lemma group_row_count:
  "group_row F samples k = Some h \<Longrightarrow> ho_sample_count h = int (length (filter (\<lambda>x. sample_key x = k) samples))"
  by (auto simp: group_row_def Let_def split: bind_splits if_splits)

lemma sample_of_key: "sample_of F r = Some x \<Longrightarrow> sample_key x = (tr_AgentID r, hour_start (tr_Timestamp r))"
  by (auto simp: sample_of_def sample_key_def Let_def split: bind_splits)

lemma samples_before_keys:
  assumes "samples_before F t rs = Some samples"
  shows "map sample_key samples =
    map (\<lambda>r. (tr_AgentID r, hour_start (tr_Timestamp r))) (filter (\<lambda>r. tr_Timestamp r < t) rs)"
proof -
  have "map (sample_of F) (filter (\<lambda>r. tr_Timestamp r < t) rs) = map Some samples"
    using assms by (simp add: samples_before_def those_map_Some_iff)
  moreover have "map sample_key samples = map (\<lambda>r. (tr_AgentID r, hour_start (tr_Timestamp r))) xs"
    if "map (sample_of F) xs = map Some samples" for xs
    using that by (induction xs arbitrary: samples) (auto simp: Cons_eq_map_conv sample_of_key)
  ultimately show ?thesis by blast
qed

lemma rollup_rows_summary:
  assumes "rollup_rows F now rs = Some rows"
  shows "\<exists>samples. samples_before F (hour_start now) rs = Some samples \<and> distinct (map hourly_key rows) \<and>
    summary rows = (\<lambda>k. if k \<in> sample_key ` set samples then group_row F samples k else None)"
proof -
  obtain samples where s: "samples_before F (hour_start now) rs = Some samples"
    and r: "map (group_row F samples) (remdups (map sample_key samples)) = map Some rows"
    using assms by (auto simp: rollup_rows_def those_map_Some_iff split: bind_splits)
  have gen: "map hourly_key rows = ks \<and> summary rows = (\<lambda>k. if k \<in> set ks then group_row F samples k else None)"
    if "map (group_row F samples) ks = map Some rows" "distinct ks" for ks
    using that
  proof (induction ks arbitrary: rows)
    case Nil
    then show ?case by simp
  next
    case (Cons k ks)
    then obtain h rows' where rows: "rows = h # rows'" "group_row F samples k = Some h" "map (group_row F samples) ks = map Some rows'"
      by (auto simp: Cons_eq_map_conv)
    from Cons.IH [OF rows(3)] Cons.prems(2) rows(1,2) show ?case by (auto simp: group_row_key fun_eq_iff)
  qed
  from gen [OF r] s show ?thesis by auto
qed


text \<open>The row of the summary a record goes into.\<close>

definition record_key :: "TelemetryRecord \<Rightarrow> string \<times> time" where
  "record_key r = (tr_AgentID r, hour_start (tr_Timestamp r))"

lemma samples_before_record_keys:
  "samples_before F t rs = Some samples \<Longrightarrow>
     map sample_key samples = map record_key (filter (\<lambda>r. tr_Timestamp r < t) rs)"
  by (simp add: samples_before_keys record_key_def)

lemma group_row_records:
  assumes "samples_before F t rs = Some samples" and "group_row F samples k = Some h"
  shows "ho_sample_count h = int (length (filter (\<lambda>r. record_key r = k) (filter (\<lambda>r. tr_Timestamp r < t) rs)))"
proof -
  have "count_list (map f xs) y = length (filter (\<lambda>x. f x = y) xs)" for f :: "'v \<Rightarrow> 'w" and xs y
    by (induction xs) auto
  from this [of sample_key samples k] this [of record_key "filter (\<lambda>r. tr_Timestamp r < t) rs" k]
  show ?thesis
    unfolding samples_before_record_keys [OF assms(1)] group_row_count [OF assms(2)] by (simp del: filter_filter)
qed

lemma hour_start_bounds: "hour_start t \<le> t" "t < hour_start t + time_Hour"
proof -
  have "0 < time_Hour" by (simp add: time_Hour_def time_Minute_def time_Second_def)
  then show "hour_start t \<le> t" "t < hour_start t + time_Hour"
    using div_mult_mod_eq [of t time_Hour] pos_mod_sign [of time_Hour t] pos_mod_bound [of time_Hour t]
    unfolding hour_start_def by linarith+
qed

lemma hour_start_mono: "t \<le> u \<Longrightarrow> hour_start t \<le> hour_start u"
  unfolding hour_start_def by (intro mult_right_mono zdiv_mono1) (simp_all add: time_Hour_def time_Minute_def time_Second_def)

section \<open>The steps of the worker\<close>

lemma rollupHourly_ok:
  assumes "rollupHourly F s = (Inr u, s')"
  shows "\<exists>rows. rollup_rows F (clock s (clock_pos s)) (telemetry s) = Some rows \<and>
    s' = s\<lparr>fault_pos := Suc (fault_pos s), clock_pos := Suc (clock_pos s),
      telemetry_hourly := fold upsert_hourly rows (telemetry_hourly s)\<rparr>"
  using db_run_Inr [OF assms [unfolded rollupHourly_def]]
  by (auto simp: hourlyRollup_def time_Now_def split: option.splits if_splits)

lemma rollupHourly_telemetry [simp]:
  "telemetry (snd (rollupHourly F s)) = telemetry s" "agents (snd (rollupHourly F s)) = agents s"
  "clock (snd (rollupHourly F s)) = clock s" "faults (snd (rollupHourly F s)) = faults s"
  unfolding rollupHourly_def
  by (rule db_run_state; simp add: hourlyRollup_def time_Now_def split: option.split)+

lemma purge_hourly [simp]:
  "telemetry_hourly (snd (purgeOldTelemetry w s)) = telemetry_hourly s"
  "agents (snd (purgeOldTelemetry w s)) = agents s"
  "clock (snd (purgeOldTelemetry w s)) = clock s" "faults (snd (purgeOldTelemetry w s)) = faults s"
  "clock_pos (snd (purgeOldTelemetry w s)) = Suc (clock_pos s)"
  unfolding purgeOldTelemetry_def time_Now_def prod.case
  by (rule db_run_state; simp)+

lemma purge_telemetry:
  "set (telemetry (snd (purgeOldTelemetry w s))) \<subseteq> set (telemetry s)"
  "r \<in> set (telemetry s) \<Longrightarrow> cutoff w (clock s (clock_pos s)) \<le> tr_Timestamp r \<Longrightarrow>
     r \<in> set (telemetry (snd (purgeOldTelemetry w s)))"
  unfolding purgeOldTelemetry_def time_Now_def prod.case
  by (rule db_run_state; auto)+

lemma purge_reliable:
  "reliable s \<Longrightarrow> telemetry (snd (purgeOldTelemetry w s)) =
     filter (\<lambda>r. \<not> tr_Timestamp r < cutoff w (clock s (clock_pos s))) (telemetry s)"
  by (simp add: purgeOldTelemetry_def time_Now_def db_run_reliable)

lemma runRetentionTask_hourly [simp]:
  "telemetry_hourly (runRetentionTask F w s) = telemetry_hourly (snd (rollupHourly F s))"
  by (simp add: runRetentionTask_def case_prod_beta)

lemma runRetentionTask_env [simp]:
  "agents (runRetentionTask F w s) = agents s" "clock (runRetentionTask F w s) = clock s"
  "reliable s \<Longrightarrow> reliable (runRetentionTask F w s)"
  by (simp_all add: runRetentionTask_def case_prod_beta reliable_def)

lemma runRetentionTask_telemetry:
  assumes "reliable s" and "fst (rollupHourly F s) = Inr ()"
  shows "telemetry (runRetentionTask F w s) =
      filter (\<lambda>r. \<not> tr_Timestamp r < cutoff w (clock s (Suc (clock_pos s)))) (telemetry s)"
    and "clock_pos (runRetentionTask F w s) = Suc (Suc (clock_pos s))"
proof -
  obtain s1 where s1: "rollupHourly F s = (Inr (), s1)" using assms(2) by (cases "rollupHourly F s") simp
  then have "clock_pos s1 = Suc (clock_pos s)" "clock s1 = clock s" "telemetry s1 = telemetry s" "reliable s1"
    using rollupHourly_ok [OF s1] assms(1) by (auto simp: reliable_def)
  then show "telemetry (runRetentionTask F w s) =
      filter (\<lambda>r. \<not> tr_Timestamp r < cutoff w (clock s (Suc (clock_pos s)))) (telemetry s)"
    and "clock_pos (runRetentionTask F w s) = Suc (Suc (clock_pos s))"
    using s1 by (simp_all add: runRetentionTask_def purge_reliable)
qed

text \<open>An hour is past as a whole.\<close>

lemma same_hour_past:
  assumes "record_key x = record_key r" and "tr_Timestamp r < hour_start u"
  shows "tr_Timestamp x < hour_start u"
proof -
  have pos: "0 < time_Hour" by (simp add: time_Hour_def time_Minute_def time_Second_def)
  have "hour_start (tr_Timestamp r) < hour_start u" using assms(2) hour_start_bounds(1) [of "tr_Timestamp r"] by linarith
  then have "tr_Timestamp r div time_Hour + 1 \<le> u div time_Hour" using pos by (simp add: hour_start_def)
  then have "(tr_Timestamp r div time_Hour + 1) * time_Hour \<le> hour_start u"
    unfolding hour_start_def using pos by (intro mult_right_mono) simp_all
  then have "hour_start (tr_Timestamp r) + time_Hour \<le> hour_start u" by (simp add: hour_start_def distrib_right)
  moreover have "hour_start (tr_Timestamp x) = hour_start (tr_Timestamp r)" using assms(1) by (simp add: record_key_def)
  ultimately show ?thesis using hour_start_bounds(2) [of "tr_Timestamp x"] by linarith
qed

text \<open>A successful rollup leaves the row of every record of a past hour.\<close>

lemma rollup_row:
  assumes "fst (rollupHourly F s) = Inr ()" and "r \<in> set (telemetry s)"
    and "tr_Timestamp r < hour_start (clock s (clock_pos s))"
  shows "\<exists>h. summary (telemetry_hourly (snd (rollupHourly F s))) (record_key r) = Some h \<and>
    ho_sample_count h = int (length (filter (\<lambda>x. record_key x = record_key r) (telemetry s)))"
proof -
  obtain s1 where s1: "rollupHourly F s = (Inr (), s1)" using assms(1) by (cases "rollupHourly F s") simp
  obtain rows where rows: "rollup_rows F (clock s (clock_pos s)) (telemetry s) = Some rows"
    and hourly: "telemetry_hourly s1 = fold upsert_hourly rows (telemetry_hourly s)"
    using rollupHourly_ok [OF s1] by auto
  obtain samples where samples: "samples_before F (hour_start (clock s (clock_pos s))) (telemetry s) = Some samples"
    and keys: "distinct (map hourly_key rows)"
    and sum: "summary rows = (\<lambda>k. if k \<in> sample_key ` set samples then group_row F samples k else None)"
    using rollup_rows_summary [OF rows] by blast
  have "set (map sample_key samples) = set (map record_key (filter (\<lambda>r. tr_Timestamp r < hour_start (clock s (clock_pos s))) (telemetry s)))"
    by (simp only: samples_before_record_keys [OF samples])
  then have k: "record_key r \<in> sample_key ` set samples" using assms(2,3) by auto
  have "\<exists>h. group_row F samples (record_key r) = Some h"
  proof -
    have "record_key r \<in> hourly_key ` set rows"
    proof -
      have "those (map (group_row F samples) (remdups (map sample_key samples))) = Some rows"
        using rows samples by (auto simp: rollup_rows_def split: bind_splits)
      then have "map (group_row F samples) (remdups (map sample_key samples)) = map Some rows"
        by (simp add: those_map_Some_iff)
      then have "group_row F samples ` sample_key ` set samples = Some ` set rows"
        by (metis list.set_map set_remdups)
      then obtain h where "h \<in> set rows" "group_row F samples (record_key r) = Some h" using k by blast
      moreover from this have "hourly_key h = record_key r" by (intro group_row_key)
      ultimately show ?thesis by (metis imageI)
    qed
    then show ?thesis using summary_None [of rows "record_key r"] sum k by (auto simp: not_None_eq)
  qed
  then obtain h where h: "group_row F samples (record_key r) = Some h" ..
  have "summary (telemetry_hourly s1) (record_key r) = Some h"
    using k h by (simp add: hourly summary_upserts [OF keys] sum map_add_def)
  moreover have "filter (\<lambda>x. record_key x = record_key r) (filter (\<lambda>r. tr_Timestamp r < hour_start (clock s (clock_pos s))) (telemetry s)) =
      filter (\<lambda>x. record_key x = record_key r) (telemetry s)"
    unfolding filter_filter using same_hour_past [OF _ assms(3)] by (intro filter_cong) auto
  ultimately show ?thesis using s1 group_row_records [OF samples h] by simp
qed

lemma hourlyRollup_schema: "schema_ok s \<Longrightarrow> schema_ok (snd (hourlyRollup F s))"
proof -
  assume ok: "schema_ok s"
  have "distinct (map hourly_key rows) \<longleftrightarrow> distinct (map (\<lambda>h. (ho_agent_id h, ho_bucket_start h)) rows)" for rows
    by (simp add: hourly_key_def [abs_def])
  moreover have "ho_agent_id ` set (fold upsert_hourly rs rows) = ho_agent_id ` set rs \<union> ho_agent_id ` set rows" for rs rows
  proof -
    have "fst ` hourly_key ` S = ho_agent_id ` S" for S by (simp add: image_image hourly_key_def)
    then show ?thesis using arg_cong [OF upserts_keys [of rs rows], of "image fst"] by (simp add: image_Un)
  qed
  ultimately show ?thesis
    using ok upserts_distinct [of "telemetry_hourly s"]
    by (simp add: hourlyRollup_def time_Now_def schema_defs split: option.split)
qed

lemma runRetentionTask_schema [schema_intro]: "schema_ok s \<Longrightarrow> schema_ok (runRetentionTask F w s)"
proof -
  assume "schema_ok s"
  then have "schema_ok (snd (rollupHourly F s))"
    unfolding rollupHourly_def by (intro db_run_schema hourlyRollup_schema)
  moreover have "schema_ok (snd (purgeOldTelemetry w t))" if "schema_ok t" for t :: "'a db_env_scheme"
  proof -
    have "schema_ok (snd (db_run (\<lambda>t. (Inr (), t\<lparr>telemetry := filter (\<lambda>r. \<not> tr_Timestamp r < c) (telemetry t)\<rparr>)) t))"
      if "schema_ok t" for c and t :: "'a db_env_scheme"
      using that by (intro db_run_schema) (auto simp: schema_defs)
    then show ?thesis using that by (simp add: purgeOldTelemetry_def time_Now_def)
  qed
  ultimately show ?thesis by (simp add: runRetentionTask_def case_prod_beta)
qed

lemma Worker_Start_schema [schema_intro]: "schema_ok s \<Longrightarrow> schema_ok (Worker_Start F w n s)"
  by (induction n) (simp_all add: runRetentionTask_schema)


section \<open>Properties\<close>

text \<open>
  C8: The rollup implements a map of summaries.  When the statement succeeds, the hourly table as
  a map from agent and hour is updated, at every agent and hour with records before the current hour,
  with the summary of exactly these records, and is otherwise what it was; its key stays unique, the
  telemetry is not touched, and a second rollup in the same hour over the same telemetry changes nothing.
\<close>

theorem rollup_summarises:
  fixes s :: "'a db_env_scheme"
  assumes "rollupHourly F s = (Inr (), s')" and "distinct (map hourly_key (telemetry_hourly s))"
  shows "telemetry s' = telemetry s \<and> distinct (map hourly_key (telemetry_hourly s')) \<and>
    (\<exists>samples. samples_before F (hour_start (clock s (clock_pos s))) (telemetry s) = Some samples \<and>
       summary (telemetry_hourly s') =
         (\<lambda>k. if k \<in> sample_key ` set samples then group_row F samples k else summary (telemetry_hourly s) k)) \<and>
    (\<forall>t t' :: 'a db_env_scheme. rollupHourly F t = (Inr (), t') \<and> telemetry t = telemetry s' \<and>
       telemetry_hourly t = telemetry_hourly s' \<and>
       hour_start (clock t (clock_pos t)) = hour_start (clock s (clock_pos s)) \<longrightarrow>
       telemetry_hourly t' = telemetry_hourly s')"
proof -
  obtain rows where rows: "rollup_rows F (clock s (clock_pos s)) (telemetry s) = Some rows"
    and s': "s' = s\<lparr>fault_pos := Suc (fault_pos s), clock_pos := Suc (clock_pos s),
      telemetry_hourly := fold upsert_hourly rows (telemetry_hourly s)\<rparr>"
    using rollupHourly_ok [OF assms(1)] by blast
  obtain samples where samples: "samples_before F (hour_start (clock s (clock_pos s))) (telemetry s) = Some samples"
    and keys: "distinct (map hourly_key rows)"
    and sum: "summary rows = (\<lambda>k. if k \<in> sample_key ` set samples then group_row F samples k else None)"
    using rollup_rows_summary [OF rows] by blast
  have keys': "distinct (map hourly_key (telemetry_hourly s'))"
    using upserts_distinct [OF assms(2)] by (simp add: s')
  have sum': "summary (telemetry_hourly s') = summary (telemetry_hourly s) ++ summary rows"
    by (simp add: s' summary_upserts [OF keys])
  have some: "\<exists>h. group_row F samples k = Some h" if "k \<in> sample_key ` set samples" for k
  proof -
    have "those (map (group_row F samples) (remdups (map sample_key samples))) = Some rows"
      using rows samples by (auto simp: rollup_rows_def split: bind_splits)
    then show ?thesis
      using that those_map_None [of k "remdups (map sample_key samples)" "group_row F samples"]
      by (cases "group_row F samples k") auto
  qed
  have "summary (telemetry_hourly s') k =
      (if k \<in> sample_key ` set samples then group_row F samples k else summary (telemetry_hourly s) k)" for k
    using some [of k] by (auto simp: sum' sum map_add_def)
  then have "summary (telemetry_hourly s') =
      (\<lambda>k. if k \<in> sample_key ` set samples then group_row F samples k else summary (telemetry_hourly s) k)"
    by (rule ext)
  moreover have "telemetry_hourly t' = telemetry_hourly s'"
    if t: "rollupHourly F t = (Inr (), t')" "telemetry t = telemetry s'" "telemetry_hourly t = telemetry_hourly s'"
      "hour_start (clock t (clock_pos t)) = hour_start (clock s (clock_pos s))" for t t' :: "'a db_env_scheme"
  proof -
    have "rollup_rows F (clock t (clock_pos t)) (telemetry t) = Some rows"
      using rows t(2,4) by (simp add: rollup_rows_def s')
    then have t': "telemetry_hourly t' = fold upsert_hourly rows (telemetry_hourly s')"
      using rollupHourly_ok [OF t(1)] t(3) by auto
    have "set rows \<subseteq> set (telemetry_hourly s')"
    proof
      fix h assume "h \<in> set rows"
      then have "summary rows (hourly_key h) = Some h" by (rule summary_in [OF keys])
      then have "summary (telemetry_hourly s') (hourly_key h) = Some h" by (simp add: sum')
      then show "h \<in> set (telemetry_hourly s')" by (blast dest: summary_Some)
    qed
    then show ?thesis by (simp add: t' upserts_id [OF keys'])
  qed
  ultimately show ?thesis using keys' samples by (auto simp: s')
qed

text \<open>
  C38: Nothing is purged before it has been summarised.  After a run whose rollup succeeded, and whose
  two readings of the clock are within an hour, every record the run deleted has a row in the hourly
  table, which counts all the records there were of its agent and hour.
\<close>

theorem purged_is_summarised:
  fixes s :: "'a db_env_scheme"
  assumes "fst (rollupHourly F s) = Inr ()"
    and "s' = runRetentionTask F (retention_NewWorker days interval) s"
    and "clock s (Suc (clock_pos s)) \<le> clock s (clock_pos s) + time_Hour"
    and "r \<in> set (telemetry s)" and "r \<notin> set (telemetry s')"
  shows "\<exists>h. summary (telemetry_hourly s') (record_key r) = Some h \<and>
    ho_sample_count h = int (length (filter (\<lambda>x. record_key x = record_key r) (telemetry s))) \<and> 0 < ho_sample_count h"
proof -
  let ?w = "retention_NewWorker days interval"
  obtain s1 where s1: "rollupHourly F s = (Inr (), s1)" using assms(1) by (cases "rollupHourly F s") simp
  then have "clock_pos s1 = Suc (clock_pos s)" "clock s1 = clock s" "telemetry s1 = telemetry s"
    using rollupHourly_ok [OF s1] by auto
  then have "tr_Timestamp r < cutoff ?w (clock s (Suc (clock_pos s)))"
    using purge_telemetry(2) [of r s1 ?w] assms(2,4,5) s1 by (force simp: runRetentionTask_def not_less)
  moreover have "24 * time_Hour \<le> wk_retentionDays ?w * (24 * time_Hour)"
    by (simp add: retention_NewWorker_def time_Hour_def time_Minute_def time_Second_def)
  moreover have "0 < time_Hour" by (simp add: time_Hour_def time_Minute_def time_Second_def)
  ultimately have old: "tr_Timestamp r < hour_start (clock s (clock_pos s))"
    using hour_start_bounds(2) [of "clock s (clock_pos s)"] assms(3) unfolding cutoff_def by linarith
  have "r \<in> set (filter (\<lambda>x. record_key x = record_key r) (telemetry s))" using assms(4) by simp
  then have "filter (\<lambda>x. record_key x = record_key r) (telemetry s) \<noteq> []" by (metis empty_iff empty_set)
  then show ?thesis using rollup_row [OF assms(1,4) old] unfolding assms(2) by auto
qed


text \<open>
  C39: A purge in the middle of an hour spoils its summary.  Let a purge delete one of two records of
  the same agent and hour.  If the next rollup succeeds too, the row of this hour, which counted all its
  records after the first run, counts only the remaining ones after the second.
\<close>

theorem purge_spoils_hour:
  fixes s :: "'a db_env_scheme"
  assumes "reliable s" and "w = retention_NewWorker days interval"
    and "fst (rollupHourly F s) = Inr ()" and "fst (rollupHourly F (runRetentionTask F w s)) = Inr ()"
    and "clock s (Suc (clock_pos s)) \<le> clock s (clock_pos s) + time_Hour"
    and "clock s (clock_pos s) \<le> clock s (Suc (Suc (clock_pos s)))"
    and "old \<in> set (telemetry s)" and "new \<in> set (telemetry s)" and "record_key old = record_key new"
    and "tr_Timestamp old < cutoff w (clock s (Suc (clock_pos s)))"
    and "cutoff w (clock s (Suc (clock_pos s))) \<le> tr_Timestamp new"
  shows "\<exists>h1 h2. summary (telemetry_hourly (runRetentionTask F w s)) (record_key old) = Some h1 \<and>
    summary (telemetry_hourly (runRetentionTask F w (runRetentionTask F w s))) (record_key old) = Some h2 \<and>
    ho_sample_count h2 < ho_sample_count h1"
proof -
  let ?s1 = "runRetentionTask F w s"
  let ?t0 = "hour_start (clock s (clock_pos s))" and ?t2 = "hour_start (clock s (Suc (Suc (clock_pos s))))"
  let ?key = "\<lambda>x. record_key x = record_key old"
  have day: "24 * time_Hour \<le> wk_retentionDays w * (24 * time_Hour)" "0 < time_Hour"
    by (simp_all add: assms(2) retention_NewWorker_def time_Hour_def time_Minute_def time_Second_def)
  have "hour_start (tr_Timestamp new) = hour_start (tr_Timestamp old)" using assms(9) by (simp add: record_key_def)
  then have "tr_Timestamp new < tr_Timestamp old + time_Hour"
    using hour_start_bounds [of "tr_Timestamp old"] hour_start_bounds [of "tr_Timestamp new"] by linarith
  then have past: "tr_Timestamp old < ?t0" "tr_Timestamp new < ?t0"
    using hour_start_bounds(2) [of "clock s (clock_pos s)"] assms(5,10) day unfolding cutoff_def by linarith+
  have "?t0 \<le> ?t2" by (rule hour_start_mono [OF assms(6)])
  then have past2: "tr_Timestamp new < ?t2" using past(2) by linarith
  have s1: "telemetry ?s1 = filter (\<lambda>r. \<not> tr_Timestamp r < cutoff w (clock s (Suc (clock_pos s)))) (telemetry s)"
      "clock ?s1 (clock_pos ?s1) = clock s (Suc (Suc (clock_pos s)))"
      "clock_pos ?s1 = Suc (Suc (clock_pos s))"
    using runRetentionTask_telemetry [OF assms(1,3), of w] by simp_all
  obtain h1 where h1: "summary (telemetry_hourly ?s1) (record_key old) = Some h1"
      "ho_sample_count h1 = int (length (filter ?key (telemetry s)))"
    using rollup_row [OF assms(3,7) past(1)] by auto
  have "new \<in> set (telemetry ?s1)" using assms(8,11) by (simp add: s1)
  then obtain h2 where h2: "summary (telemetry_hourly (runRetentionTask F w ?s1)) (record_key new) = Some h2"
      "ho_sample_count h2 = int (length (filter (\<lambda>x. record_key x = record_key new) (telemetry ?s1)))"
    using rollup_row [OF assms(4), of new] past2 s1(3) by auto
  have "length (filter (\<lambda>r. \<not> tr_Timestamp r < cutoff w (clock s (Suc (clock_pos s)))) (filter ?key (telemetry s))) <
      length (filter ?key (telemetry s))"
    using assms(7,10) by (intro length_filter_less) auto
  then have "ho_sample_count h2 < ho_sample_count h1"
    by (simp add: h1(2) h2(2) s1(1) assms(9) conj_commute)
  then show ?thesis using h1(1) h2(1) assms(9) by metis
qed

text \<open>
  C40: One bad record stops the rollup.  As long as the telemetry of a past hour holds a record that the
  statement cannot cast, however the database behaves, the hourly table stays as it is; with a working
  database the purge still deletes what is older than its cutoff.
\<close>

theorem bad_record_stops_rollup:
  fixes s :: "'a db_env_scheme"
  assumes "r \<in> set (telemetry s)" and "sample_of F r = None"
    and "\<And>n. tr_Timestamp r < hour_start (clock s n)" and "\<And>n. cutoff w (clock s n) \<le> tr_Timestamp r"
  shows "telemetry_hourly (Worker_Start F w ticks s) = telemetry_hourly s \<and>
    r \<in> set (telemetry (Worker_Start F w ticks s)) \<and>
    (reliable s \<longrightarrow> (\<exists>n. \<forall>x \<in> set (telemetry (Worker_Start F w ticks s)). cutoff w (clock s n) \<le> tr_Timestamp x))"
proof -
  have rollup: "telemetry_hourly (snd (rollupHourly F t)) = telemetry_hourly t"
    if "r \<in> set (telemetry t)" "clock t = clock s" for t :: "'a db_env_scheme"
  proof -
    have "samples_before F (hour_start (clock s n)) (telemetry t) = None" for n
      unfolding samples_before_def using that(1) assms(2,3) by (intro those_map_None [of r]) auto
    then have "rollup_rows F (clock s n) (telemetry t) = None" for n by (simp add: rollup_rows_def)
    then show ?thesis unfolding rollupHourly_def
      by (intro db_run_state [where P = "\<lambda>u. telemetry_hourly u = telemetry_hourly t"])
        (simp_all add: hourlyRollup_def time_Now_def that(2))
  qed
  have kept: "r \<in> set (telemetry (runRetentionTask F w t))" if "r \<in> set (telemetry t)" "clock t = clock s" for t :: "'a db_env_scheme"
    using that assms(4) by (simp add: runRetentionTask_def case_prod_beta purge_telemetry(2))
  have run: "clock (Worker_Start F w k s) = clock s \<and> r \<in> set (telemetry (Worker_Start F w k s)) \<and>
      telemetry_hourly (Worker_Start F w k s) = telemetry_hourly s \<and> (reliable s \<longrightarrow> reliable (Worker_Start F w k s))" for k
    using assms(1) by (induction k) (simp_all add: rollup kept)
  have last: "\<exists>n. \<forall>x \<in> set (telemetry (runRetentionTask F w t)). cutoff w (clock s n) \<le> tr_Timestamp x"
    if "reliable t" "clock t = clock s" for t :: "'a db_env_scheme"
  proof -
    have "reliable (snd (rollupHourly F t))" using that(1) by (simp add: reliable_def)
    from purge_reliable [OF this, of w] show ?thesis
      by (intro exI [of _ "clock_pos (snd (rollupHourly F t))"]) (auto simp: runRetentionTask_def case_prod_beta that(2))
  qed
  show ?thesis
    using run [of ticks] run [of "ticks - 1"] last [of s] last [of "Worker_Start F w (ticks - 1) s"] by (cases ticks) auto
qed

section \<open>The properties at work\<close>

definition demo_sql :: sql where
  "demo_sql = \<lparr>json_text = (\<lambda>v. case v of GFloat64 (Fin q) \<Rightarrow> show_int \<lfloor>q\<rfloor> | _ \<Rightarrow> ''true''),
     text_double = (\<lambda>c. map_option fl_of_int (strconv_Atoi c)), text_bigint = strconv_Atoi,
     avg_double = (\<lambda>vs. Some (fl_div_count (fold fl_add vs (Fin 0)) (length vs)))\<rparr>"

definition day_clock :: "nat \<Rightarrow> time" where
  "day_clock n = (if n < 2 then 24 * time_Hour + 1000 * time_Second else 25 * time_Hour + 1000 * time_Second)"

definition cpu_at :: "int \<Rightarrow> goany \<Rightarrow> TelemetryRecord" where
  "cpu_at k v = \<lparr>tr_AgentID = ''a1'', tr_Timestamp = k * time_Second,
     tr_Metrics = [(''system'', GMap [(''cpu'', GMap [(''usage_percent'', v)])])], tr_CreatedAt = k * time_Second\<rparr>"

definition aged_env :: "TelemetryRecord list \<Rightarrow> db_env" where
  "aged_env ts = \<lparr>clock = day_clock, clock_pos = 0, faults = (\<lambda>_. F_ok), fault_pos = 0,
     agents = [\<lparr>ag_ID = ''a1'', ag_Name = ''web'', ag_Hostname = ''h'', ag_OS = ''linux'', ag_Arch = ''amd64'',
       ag_Version = ''1'', ag_Status = ''online'', ag_LastSeen = 0, ag_CreatedAt = 0\<rparr>],
     telemetry = ts, alert_rules = [], alerts = [], alert_comments = [], notification_channels = [],
     notification_deliveries = [], api_tokens = [], telemetry_hourly = []\<rparr>"

definition two_samples :: "TelemetryRecord list" where
  "two_samples = [cpu_at 600 (GFloat64 (Fin 10)), cpu_at 1800 (GFloat64 (Fin 30))]"

lemma aged_env_simps [simp]:
  "reliable (aged_env ts)" "clock (aged_env ts) = day_clock" "clock_pos (aged_env ts) = 0"
  "telemetry (aged_env ts) = ts" "telemetry_hourly (aged_env ts) = []"
  "ag_ID ` set (agents (aged_env ts)) = {''a1''}"
  by (simp_all add: aged_env_def reliable_def)

lemma cpu_at_sample:
  assumes "- (2 ^ 63) \<le> i" and "i < 2 ^ 63"
  shows "sample_of demo_sql (cpu_at k (GFloat64 (Fin (of_int i)))) =
    Some \<lparr>sm_agent_id = ''a1'', sm_bucket_start = hour_start (k * time_Second), sm_cpu_usage = Some (fl_of_int i),
      sm_memory_usage = None, sm_disk_usage = None, sm_bytes_recv = 0, sm_bytes_sent = 0\<rparr>"
  using Atoi_show_int [OF assms]
  by (simp add: sample_of_def cpu_at_def demo_sql_def json_get_def map_index_def sql_double_def sql_cast_def root_disk_def
      network_bytes_def array_elements_def nonnull_def List.map_filter_def Let_def)

lemmas demo_samples = cpu_at_sample [of "numeral n" for n, unfolded of_int_numeral]

lemmas hours = hour_start_def time_Hour_def time_Minute_def time_Second_def

lemma two_samples_rows:
  "\<exists>h. rollup_rows demo_sql (24 * time_Hour + 1000 * time_Second) two_samples = Some [h] \<and> ho_agent_id h = ''a1''"
proof -
  have "tr_Timestamp (cpu_at k v) = k * time_Second" for k v by (simp add: cpu_at_def)
  then show ?thesis
    unfolding two_samples_def rollup_rows_def samples_before_def
    by (simp add: demo_samples hours)
       (simp add: sample_key_def group_row_def coalesce_avg_def nonnull_def List.map_filter_def demo_sql_def to_bigint_def int4_def)
qed

lemma second_sample_rows:
  "\<exists>h. rollup_rows demo_sql (25 * time_Hour + 1000 * time_Second) [cpu_at 1800 (GFloat64 (Fin 30))] = Some [h] \<and> ho_agent_id h = ''a1''"
proof -
  have "tr_Timestamp (cpu_at k v) = k * time_Second" for k v by (simp add: cpu_at_def)
  then show ?thesis
    unfolding two_samples_def rollup_rows_def samples_before_def
    by (simp add: demo_samples hours)
       (simp add: sample_key_def group_row_def coalesce_avg_def nonnull_def List.map_filter_def demo_sql_def to_bigint_def int4_def)
qed

lemma rollupHourly_reliable:
  assumes "reliable s" and "rollup_rows F (clock s (clock_pos s)) (telemetry s) = Some rows"
    and "ho_agent_id ` set rows \<subseteq> ag_ID ` set (agents s)"
  shows "fst (rollupHourly F s) = Inr ()"
  using assms by (simp add: rollupHourly_def db_run_reliable hourlyRollup_def time_Now_def)

lemma two_samples_rollup: "fst (rollupHourly demo_sql (aged_env two_samples)) = Inr ()"
proof -
  obtain h where "rollup_rows demo_sql (24 * time_Hour + 1000 * time_Second) two_samples = Some [h]" "ho_agent_id h = ''a1''"
    using two_samples_rows by blast
  then show ?thesis by (intro rollupHourly_reliable [of _ _ "[h]"]) (simp_all add: day_clock_def)
qed

definition one_day :: Worker where
  "one_day = retention_NewWorker 1 0"

lemma two_samples_task:
  "telemetry (runRetentionTask demo_sql one_day (aged_env two_samples)) = [cpu_at 1800 (GFloat64 (Fin 30))]"
  "clock_pos (runRetentionTask demo_sql one_day (aged_env two_samples)) = 2"
  using runRetentionTask_telemetry [OF aged_env_simps(1) two_samples_rollup, of one_day]
  by (simp_all add: two_samples_def cpu_at_def cutoff_def one_day_def retention_NewWorker_def day_clock_def
      time_Hour_def time_Minute_def time_Second_def)

lemma two_samples_rollup_again:
  "fst (rollupHourly demo_sql (runRetentionTask demo_sql one_day (aged_env two_samples))) = Inr ()"
proof -
  obtain h where "rollup_rows demo_sql (25 * time_Hour + 1000 * time_Second) [cpu_at 1800 (GFloat64 (Fin 30))] = Some [h]"
      "ho_agent_id h = ''a1''"
    using second_sample_rows by blast
  then show ?thesis
    by (intro rollupHourly_reliable [of _ _ "[h]"]) (simp_all add: two_samples_task day_clock_def)
qed

lemma two_samples_keys:
  "record_key (cpu_at 600 (GFloat64 (Fin 10))) = (''a1'', 0)" "record_key (cpu_at 1800 (GFloat64 (Fin 30))) = (''a1'', 0)"
  by (simp_all add: record_key_def cpu_at_def hours)

theorem rollup_summarises_witness:
  "\<exists>samples. samples_before demo_sql (24 * time_Hour) two_samples = Some samples \<and>
     summary (telemetry_hourly (snd (rollupHourly demo_sql (aged_env two_samples)))) (''a1'', 0) =
       group_row demo_sql samples (''a1'', 0) \<and> sample_key ` set samples = {(''a1'', 0)}"
proof -
  have run: "rollupHourly demo_sql (aged_env two_samples) = (Inr (), snd (rollupHourly demo_sql (aged_env two_samples)))"
    using two_samples_rollup by (metis prod.collapse)
  have now: "hour_start (clock (aged_env two_samples) (clock_pos (aged_env two_samples))) = 24 * time_Hour"
    by (simp add: day_clock_def hours)
  obtain samples where s: "samples_before demo_sql (24 * time_Hour) two_samples = Some samples"
      "summary (telemetry_hourly (snd (rollupHourly demo_sql (aged_env two_samples)))) =
         (\<lambda>k. if k \<in> sample_key ` set samples then group_row demo_sql samples k
              else summary (telemetry_hourly (aged_env two_samples)) k)"
    using rollup_summarises [OF run, THEN conjunct2, THEN conjunct2, THEN conjunct1] unfolding now by auto
  have "set (map sample_key samples) = set (map record_key (filter (\<lambda>r. tr_Timestamp r < 24 * time_Hour) two_samples))"
    by (simp only: samples_before_record_keys [OF s(1)])
  also have "\<dots> = {(''a1'', 0)}"
    by (simp add: two_samples_def two_samples_keys) (simp add: cpu_at_def time_Hour_def time_Minute_def time_Second_def)
  finally show ?thesis using s by (intro exI [of _ samples]) simp
qed

theorem purged_is_summarised_witness:
  "\<exists>h. summary (telemetry_hourly (runRetentionTask demo_sql one_day (aged_env two_samples))) (''a1'', 0) = Some h \<and>
     ho_sample_count h = 2"
proof -
  have "clock (aged_env two_samples) (Suc (clock_pos (aged_env two_samples))) \<le>
      clock (aged_env two_samples) (clock_pos (aged_env two_samples)) + time_Hour"
    by (simp add: day_clock_def time_Hour_def time_Minute_def time_Second_def)
  moreover have "cpu_at 600 (GFloat64 (Fin 10)) \<in> set (telemetry (aged_env two_samples))" by (simp add: two_samples_def)
  moreover have "cpu_at 600 (GFloat64 (Fin 10)) \<notin>
      set (telemetry (runRetentionTask demo_sql (retention_NewWorker 1 0) (aged_env two_samples)))"
    using two_samples_task(1) by (simp add: one_day_def) (simp add: cpu_at_def)
  ultimately show ?thesis
    using purged_is_summarised [OF two_samples_rollup refl, where r = "cpu_at 600 (GFloat64 (Fin 10))" and days = 1 and interval = 0]
    by (auto simp: one_day_def two_samples_keys two_samples_def)
qed

theorem purge_spoils_hour_witness:
  "\<exists>h1 h2. summary (telemetry_hourly (runRetentionTask demo_sql one_day (aged_env two_samples))) (''a1'', 0) = Some h1 \<and>
     summary (telemetry_hourly (runRetentionTask demo_sql one_day (runRetentionTask demo_sql one_day (aged_env two_samples))))
       (''a1'', 0) = Some h2 \<and> ho_sample_count h2 < ho_sample_count h1"
  using purge_spoils_hour [OF aged_env_simps(1) one_day_def two_samples_rollup two_samples_rollup_again,
      of "cpu_at 600 (GFloat64 (Fin 10))" "cpu_at 1800 (GFloat64 (Fin 30))"]
  by (simp add: two_samples_keys two_samples_def [THEN arg_cong [where f = set]] day_clock_def)
    (simp add: cpu_at_def cutoff_def one_day_def retention_NewWorker_def day_clock_def
      time_Hour_def time_Minute_def time_Second_def)

theorem bad_record_stops_rollup_witness:
  "telemetry_hourly (Worker_Start demo_sql one_day 3 (aged_env [cpu_at 600 (GFloat64 (Fin 10)), cpu_at 7200 (GBool True)])) = []"
proof -
  let ?s = "aged_env [cpu_at 600 (GFloat64 (Fin 10)), cpu_at 7200 (GBool True)]"
  have "strconv_Atoi ''true'' = None" by code_simp
  then have bad: "sample_of demo_sql (cpu_at 7200 (GBool True)) = None"
    by (simp add: sample_of_def cpu_at_def demo_sql_def json_get_def map_index_def sql_double_def sql_cast_def Let_def)
  have past: "tr_Timestamp (cpu_at 7200 (GBool True)) < hour_start (clock ?s n)"
    "cutoff one_day (clock ?s n) \<le> tr_Timestamp (cpu_at 7200 (GBool True))" for n
    by (simp_all add: cpu_at_def day_clock_def cutoff_def one_day_def retention_NewWorker_def hours)
  show ?thesis
    using bad_record_stops_rollup [OF _ bad past, of 3] by simp
qed

end
