(* ===== verification/Mux.thy ===== *)
theory Mux
  imports Http "HOL-Library.List_Lexorder" "HOL-Library.Char_ord"
begin

text \<open>
  What the server uses of net/http's ServeMux: patterns of an optional method and a path of literal
  segments and wildcards.  A pattern is compared with the escaped path of the request, segment by
  segment, each unescaped first; a path that is not in its canonical form is redirected; a path
  that only other methods match is answered with 405, any other with 404.  No pattern here has a
  host or ends in a slash.  The URL's own printing is the argument \<open>url_String\<close>.
\<close>

section \<open>Escaped paths\<close>

definition hex_value :: "char \<Rightarrow> nat option" where
  "hex_value c =
     (let n = of_char c in
      if 48 \<le> n \<and> n \<le> 57 then Some (n - 48)
      else if 97 \<le> n \<and> n \<le> 102 then Some (n - 87)
      else if 65 \<le> n \<and> n \<le> 70 then Some (n - 55)
      else None)"

text \<open>url.PathUnescape; None is its error, on which the server answers 400 without any handler.\<close>

fun path_unescape :: "string \<Rightarrow> string option" where
  "path_unescape [] = Some []"
| "path_unescape (c # cs) =
     (if c = CHR ''%'' then
        (case cs of
           a # b # rest \<Rightarrow>
             (case (hex_value a, hex_value b) of
                (Some x, Some y) \<Rightarrow> map_option (Cons (char_of (16 * x + y))) (path_unescape rest)
              | _ \<Rightarrow> None)
         | _ \<Rightarrow> None)
      else map_option (Cons c) (path_unescape cs))"

definition slashed :: "string list \<Rightarrow> string" where
  "slashed segs = concat (map (Cons (CHR ''/'')) segs)"

text \<open>path.Clean on a path with its leading slash, with the trailing slash put back.\<close>

fun push_segment :: "string \<Rightarrow> string list \<Rightarrow> string list" where
  "push_segment seg stack =
     (if seg = '''' \<or> seg = ''.'' then stack
      else if seg = ''..'' then drop 1 stack
      else seg # stack)"

definition cleanPath :: "string \<Rightarrow> string" where
  "cleanPath p =
     (if p = '''' then ''/''
      else
        (let rooted = (if HasPrefix p ''/'' then p else CHR ''/'' # p);
             stack = fold push_segment (strings_Split (CHR ''/'') rooted) []
         in if stack = [] then ''/''
            else slashed (rev stack) @ (if List.last rooted = CHR ''/'' then ''/'' else '''')))"

text \<open>The segments the tree of patterns is walked with.\<close>

definition segment_text :: "string \<Rightarrow> string" where
  "segment_text seg = (case path_unescape seg of None \<Rightarrow> seg | Some u \<Rightarrow> u)"

definition path_segments :: "string \<Rightarrow> string list" where
  "path_segments p = map segment_text (tl (strings_Split (CHR ''/'') p))"

section \<open>Patterns\<close>

datatype segment = Lit string | Wild string

record 'e route =
  rt_method :: "string option"
  rt_path :: "segment list"
  rt_entry :: 'e

text \<open>A pattern for GET also takes HEAD; one without a method takes every method.\<close>

definition method_matches :: "string option \<Rightarrow> string \<Rightarrow> bool" where
  "method_matches pattern m \<longleftrightarrow>
     (case pattern of None \<Rightarrow> True | Some p \<Rightarrow> m = p \<or> (p = ''GET'' \<and> m = ''HEAD''))"

fun match_segments :: "segment list \<Rightarrow> string list \<Rightarrow> (string \<times> string) list option" where
  "match_segments [] [] = Some []"
| "match_segments (Lit l # ps) (seg # segs) = (if seg = l then match_segments ps segs else None)"
| "match_segments (Wild n # ps) (seg # segs) =
     (if seg = '''' then None else map_option (Cons (n, seg)) (match_segments ps segs))"
| "match_segments _ _ = None"

fun mux_find :: "'e route list \<Rightarrow> string \<Rightarrow> string list \<Rightarrow> ('e \<times> (string \<times> string) list) option" where
  "mux_find [] m segs = None"
| "mux_find (rt # rts) m segs =
     (case (if method_matches (rt_method rt) m then match_segments (rt_path rt) segs else None) of
        Some binds \<Rightarrow> Some (rt_entry rt, binds)
      | None \<Rightarrow> mux_find rts m segs)"

definition matchingMethods :: "'e route list \<Rightarrow> string list \<Rightarrow> string list" where
  "matchingMethods rts segs =
     (let ms = concat (map (\<lambda>rt. case rt_method rt of
                  None \<Rightarrow> []
                | Some m \<Rightarrow> if match_segments (rt_path rt) segs = None then [] else [m]) rts)
      in sort (remdups (if ''GET'' \<in> set ms then ''HEAD'' # ms else ms)))"

definition bound_value :: "(string \<times> string) list \<Rightarrow> string \<Rightarrow> string" where
  "bound_value binds n = (case map_of binds n of None \<Rightarrow> '''' | Some v \<Rightarrow> v)"

section \<open>Serving\<close>

definition htmlEscape :: "string \<Rightarrow> string" where
  "htmlEscape t = concat (map (\<lambda>c.
     if c = CHR ''&'' then ''&amp;'' else if c = CHR ''<'' then ''&lt;'' else if c = CHR ''>'' then ''&gt;''
     else if c = CHR 34 then ''&#34;'' else if c = CHR 39 then ''&#39;'' else [c]) t)"

definition Redirect :: "string \<Rightarrow> request \<Rightarrow> nat \<Rightarrow> 'p response \<Rightarrow> 'p response" where
  "Redirect url r code w =
     (let hadCT = (hdr w ''Content-Type'' \<noteq> []);
          w1 = Header_Set ''Location'' url w;
          w2 = (if \<not> hadCT \<and> (Method r = ''GET'' \<or> Method r = ''HEAD'')
                then Header_Set ''Content-Type'' ''text/html; charset=utf-8'' w1 else w1);
          w3 = WriteHeader code w2
      in if \<not> hadCT \<and> Method r = ''GET''
         then Write (B_text (''<a href='' @ [CHR 34] @ htmlEscape url @ [CHR 34] @ ''>Moved Permanently</a>.\<newline>\<newline>'')) w3
         else w3)"

fun strings_Join :: "string \<Rightarrow> string list \<Rightarrow> string" where
  "strings_Join sep [] = ''''"
| "strings_Join sep [x] = x"
| "strings_Join sep (x # y # ys) = x @ sep @ strings_Join sep (y # ys)"

definition mux_ServeHTTP ::
  "(string \<Rightarrow> string) \<Rightarrow> 'e route list \<Rightarrow>
   ('e \<Rightarrow> 'p response \<Rightarrow> request \<Rightarrow> 's \<Rightarrow> 'p response \<times> 's) \<Rightarrow> string \<Rightarrow>
   'p response \<Rightarrow> request \<Rightarrow> 's \<Rightarrow> 'p response \<times> 's"
where
  "mux_ServeHTTP url_String rts run path w r s =
     (if cleanPath path \<noteq> path then (Redirect (url_String (cleanPath path)) r 301 w, s)
      else
        (case mux_find rts (Method r) (path_segments path) of
           Some (e, binds) \<Rightarrow> run e w (r\<lparr>PathValue := bound_value binds\<rparr>) s
         | None \<Rightarrow>
             (let allowed = matchingMethods rts (path_segments path) in
              if allowed \<noteq> []
              then (http_Error ''Method Not Allowed'' 405 (Header_Set ''Allow'' (strings_Join '', '' allowed) w), s)
              else (http_Error ''404 page not found'' 404 w, s))))"

section \<open>The path and its segments\<close>

lemma hex_value_slash: "hex_value (CHR ''/'') = None"
  by (simp add: hex_value_def)

lemma path_unescape_slash: "path_unescape (CHR ''/'' # cs) = map_option (Cons (CHR ''/'')) (path_unescape cs)"
  by simp

text \<open>An escape never runs across a slash.\<close>

lemma path_unescape_append:
  "path_unescape (a @ CHR ''/'' # b) =
     (case path_unescape a of None \<Rightarrow> None | Some u \<Rightarrow> map_option (\<lambda>v. u @ CHR ''/'' # v) (path_unescape b))"
proof (induction a rule: path_unescape.induct)
  case 1
  then show ?case by (simp add: option.case_eq_if map_option_case)
next
  case (2 c cs)
  show ?case
  proof (cases "c = CHR ''%''")
    case False
    then show ?thesis using 2(2) by (simp add: option.map_comp comp_def split: option.splits)
  next
    case True
    consider "cs = []" | x where "cs = [x]" | x y zs where "cs = x # y # zs" by (metis list.exhaust)
    then show ?thesis
    proof cases
      case 1
      then show ?thesis by (cases b) (simp_all add: True hex_value_slash)
    next
      case 2
      then show ?thesis by (simp add: True hex_value_slash split: option.splits)
    next
      case 3
      then show ?thesis using "2.IH"(1) [OF True 3]
        by (auto simp: True option.map_comp comp_def split: option.splits)
    qed
  qed
qed

lemma strings_Split_ne: "strings_Split c xs \<noteq> []"
  by (induction xs) (auto split: list.split)

lemma strings_Split_join: "xs = hd (strings_Split c xs) @ concat (map (Cons c) (tl (strings_Split c xs)))"
  by (induction xs) (auto simp: strings_Split_ne split: list.splits)

lemma strings_Split_free: "y \<in> set (strings_Split c xs) \<Longrightarrow> c \<notin> set y"
  by (induction xs arbitrary: y) (auto split: list.splits if_splits)

lemma path_unescape_slashed:
  "path_unescape (a @ slashed segs) = Some u \<Longrightarrow> u = segment_text a @ slashed (map segment_text segs)"
proof (induction segs arbitrary: a u)
  case Nil
  then show ?case by (simp add: slashed_def segment_text_def)
next
  case (Cons x xs)
  have "a @ slashed (x # xs) = a @ CHR ''/'' # (x @ slashed xs)" by (simp add: slashed_def)
  then obtain u1 v where uv: "path_unescape a = Some u1" "path_unescape (x @ slashed xs) = Some v" "u = u1 @ CHR ''/'' # v"
    using Cons.prems by (auto simp: path_unescape_append split: option.splits)
  then show ?case using Cons.IH [OF uv(2)] by (simp add: segment_text_def slashed_def)
qed

text \<open>The decoded path is its decoded segments, each after a slash.\<close>

lemma unescaped_segments:
  assumes "path_unescape p = Some u" and "HasPrefix p ''/''"
  shows "u = slashed (path_segments p)"
proof -
  let ?ss = "strings_Split (CHR ''/'') p"
  obtain q where q: "p = CHR ''/'' # q" using assms(2) by (cases p) (auto simp: HasPrefix_def)
  then have hd: "hd ?ss = ''''" by simp
  have "p = hd ?ss @ slashed (tl ?ss)" using strings_Split_join [of p "CHR ''/''"] by (simp add: slashed_def)
  then have "path_unescape (hd ?ss @ slashed (tl ?ss)) = Some u" using assms(1) by simp
  then have "u = segment_text (hd ?ss) @ slashed (map segment_text (tl ?ss))" by (rule path_unescape_slashed)
  then show ?thesis by (simp add: hd segment_text_def path_segments_def)
qed

lemma clean_rooted:
  assumes "cleanPath p = p"
  shows "HasPrefix p ''/''"
proof -
  have "HasPrefix (slashed (x # xs) @ y) ''/''" for x xs y by (simp add: slashed_def HasPrefix_def)
  moreover have "HasPrefix ''/'' ''/''" by (simp add: HasPrefix_def)
  ultimately have "HasPrefix (cleanPath p) ''/''"
    by (cases "rev (fold push_segment (strings_Split (CHR ''/'') (if HasPrefix p ''/'' then p else CHR ''/'' # p)) [])")
      (auto simp: cleanPath_def Let_def)
  with assms show ?thesis by simp
qed

section \<open>Which pattern answers\<close>

lemma mux_find_Some:
  "mux_find rts m segs = Some (e, binds) \<Longrightarrow>
     \<exists>rt \<in> set rts. rt_entry rt = e \<and> method_matches (rt_method rt) m \<and> match_segments (rt_path rt) segs = Some binds"
  by (induction rts) (auto split: option.splits if_splits)

lemma mux_find_None:
  "mux_find rts m segs = None \<longleftrightarrow>
     (\<forall>rt \<in> set rts. method_matches (rt_method rt) m \<longrightarrow> match_segments (rt_path rt) segs = None)"
  by (induction rts) (auto split: option.splits)

text \<open>Two patterns overlap when some request matches both.\<close>

fun paths_overlap :: "segment list \<Rightarrow> segment list \<Rightarrow> bool" where
  "paths_overlap [] [] \<longleftrightarrow> True"
| "paths_overlap (Lit a # ps) (Lit b # qs) \<longleftrightarrow> a = b \<and> paths_overlap ps qs"
| "paths_overlap (_ # ps) (_ # qs) \<longleftrightarrow> paths_overlap ps qs"
| "paths_overlap _ _ \<longleftrightarrow> False"

definition methods_overlap :: "string option \<Rightarrow> string option \<Rightarrow> bool" where
  "methods_overlap a b \<longleftrightarrow>
     a = None \<or> b = None \<or> a = b \<or> (a = Some ''GET'' \<and> b = Some ''HEAD'') \<or> (a = Some ''HEAD'' \<and> b = Some ''GET'')"

fun unambiguous :: "'e route list \<Rightarrow> bool" where
  "unambiguous [] \<longleftrightarrow> True"
| "unambiguous (rt # rts) \<longleftrightarrow>
     list_all (\<lambda>q. \<not> (methods_overlap (rt_method rt) (rt_method q) \<and> paths_overlap (rt_path rt) (rt_path q))) rts \<and>
     unambiguous rts"

lemma match_segments_overlap:
  "match_segments ps segs \<noteq> None \<Longrightarrow> match_segments qs segs \<noteq> None \<Longrightarrow> paths_overlap ps qs"
proof (induction ps segs arbitrary: qs rule: match_segments.induct)
  case 1
  then show ?case by (cases qs) (auto elim: match_segments.elims)
next
  case (2 l ps seg segs)
  then show ?case by (cases "(qs, seg # segs)" rule: match_segments.cases) (auto split: if_splits)
next
  case (3 n ps seg segs)
  then show ?case by (cases "(qs, seg # segs)" rule: match_segments.cases) (auto split: if_splits)
qed simp_all

lemma method_matches_overlap: "method_matches a m \<Longrightarrow> method_matches b m \<Longrightarrow> methods_overlap a b"
  by (auto simp: method_matches_def methods_overlap_def split: option.splits)

text \<open>With no overlap the order of registration does not matter: the match is the answer.\<close>

lemma unambiguous_unique:
  assumes "unambiguous rts" and "rt \<in> set rts" and "method_matches (rt_method rt) m"
    and "match_segments (rt_path rt) segs = Some binds"
  shows "mux_find rts m segs = Some (rt_entry rt, binds)"
  using assms(1,2)
proof (induction rts)
  case (Cons q rts)
  show ?case
  proof (cases "rt = q")
    case True
    then show ?thesis using assms(3,4) by simp
  next
    case False
    then have "rt \<in> set rts" using Cons.prems(2) by simp
    then have "\<not> (methods_overlap (rt_method q) (rt_method rt) \<and> paths_overlap (rt_path q) (rt_path rt))"
      using Cons.prems(1) by (auto simp: list_all_iff)
    then have "\<not> method_matches (rt_method q) m \<or> match_segments (rt_path q) segs = None"
      using method_matches_overlap [OF _ assms(3)] match_segments_overlap [of "rt_path q" segs "rt_path rt"] assms(4)
      by blast
    then show ?thesis using Cons \<open>rt \<in> set rts\<close> by auto
  qed
qed simp

end
