(* ===== verification/Health.thy ===== *)
theory Health
  imports Database Http
begin

text \<open>
  internal/health/handler.go: the health check.  A ping takes a connection and runs an empty
  statement; a fault of the connection is its error.  The timeout of two seconds is one such fault.
\<close>

record health_Response =
  hl_Status :: string
  hl_Database :: string

definition db_Ping :: "'a env_scheme \<Rightarrow> bool \<times> 'a env_scheme" where
  "db_Ping s = (case next_fault s of (f, s1) \<Rightarrow> (f = F_ok, s1))"

definition health_Handler ::
  "health_Response response \<Rightarrow> request \<Rightarrow> 'a env_scheme \<Rightarrow> health_Response response \<times> 'a env_scheme"
where
  "health_Handler w r s =
     (case db_Ping s of (reachable, s1) \<Rightarrow>
       let databaseStatus = (if reachable then ''ok'' else ''error'');
           status_text = (if reachable then ''ok'' else ''degraded'');
           w1 = Header_Set ''Content-Type'' ''application/json'' w;
           w2 = (if status_text \<noteq> ''ok'' then WriteHeader 503 w1 else w1)
       in (Write (B_json \<lparr>hl_Status = status_text, hl_Database = databaseStatus\<rparr>) w2, s1))"

text \<open>It answers 200 or 503 and changes no table.\<close>

lemma health_Handler_result:
  "snd (health_Handler w r s) = s\<lparr>fault_pos := Suc (fault_pos s)\<rparr>"
  "status w = None \<Longrightarrow>
     status (fst (health_Handler w r s)) = Some (if faults s (fault_pos s) = F_ok then 200 else 503)"
  by (simp_all add: health_Handler_def db_Ping_def next_fault_def Let_def http_defs)

end
