(* ===== verification/Server.thy ===== *)
theory Server
  imports Mux Health Cors Rate_Limiter Auth Agents Telemetry Alert_Handler Notif_Handler Observability
    Retention Config
begin

text \<open>
  internal/server/server.go: \<open>New\<close> builds the components over one database and registers their
  endpoints.  The state is the rate limiter beside the state of the components; each handler keeps
  the body type of its package and is lifted to the common one.  What a request brings from outside
  (decoders, random bytes, the hash) is the record \<open>externals\<close>.  The event stream answers with its
  opening lines; its goroutine is in \<open>Hub_System\<close>.
\<close>

section \<open>The bodies of all packages\<close>

datatype server_json =
    SJ_health health_Response
  | SJ_agent agent_json
  | SJ_telemetry telemetry_json
  | SJ_observability observability_json
  | SJ_alert alert_json
  | SJ_notif notif_json
  | SJ_token token_json

type_synonym 's server_handler =
  "server_json response \<Rightarrow> request \<Rightarrow> limiter \<times> 's \<Rightarrow> server_json response \<times> (limiter \<times> 's)"

definition lift_handler ::
  "('b \<Rightarrow> server_json) \<Rightarrow> ('b response \<Rightarrow> request \<Rightarrow> 's \<Rightarrow> 'b response \<times> 's) \<Rightarrow> 's server_handler"
where
  "lift_handler wrap h w r st =
     (case h \<lparr>hdr = hdr w, status = status w, chunks = []\<rparr> r (snd st) of (v, s) \<Rightarrow>
        (\<lparr>hdr = hdr v, status = status v, chunks = chunks w @ map (map_body wrap) (chunks v)\<rparr>, (fst st, s)))"

record externals =
  x_registration :: "AgentRegistration decoder"
  x_telemetry :: "AgentTelemetry decoder"
  x_ack :: "ackRequest decoder"
  x_comment :: "commentRequest decoder"
  x_rule :: "AlertRule decoder"
  x_channel :: "createChannelRequest decoder"
  x_token :: "createTokenReq decoder"
  x_url_Parse :: url_parser
  x_url_String :: "string \<Rightarrow> string"
  x_time_Parse :: time_parser
  x_provider :: ext
  x_sha256 :: "string \<Rightarrow> string"
  x_entropy :: string
  x_request_id :: string
  x_conv :: "float64 \<Rightarrow> int"
  x_uconv :: "float64 \<Rightarrow> 64 word"
  x_names :: "string list"

section \<open>The components\<close>

text \<open>The variables of \<open>New\<close> that are not part of the state.\<close>

record 's server =
  srv_Addr :: string
  srv_origins :: string
  srv_agents :: "'s AgentHandler"
  srv_telemetry :: "'s TelemetryHandler"
  srv_alerts :: AlertHandler
  srv_obs :: "'s Service"
  srv_authenticator :: Authenticator
  srv_engine :: Engine
  srv_retention :: Worker

definition NewAuthenticator :: "bool \<Rightarrow> Authenticator" where
  "NewAuthenticator enabled = \<lparr>au_authEnabled = enabled\<rparr>"

text \<open>An engine has a hub and a queue when it is given them.\<close>

definition NewEngine :: "bool \<Rightarrow> bool \<Rightarrow> Engine" where
  "NewEngine hub_given queue_given = \<lparr>eg_hub = hub_given, eg_queue = queue_given\<rparr>"

definition New :: "Config \<Rightarrow> 'a telemetry_env_scheme server" where
  "New cfg =
     \<lparr>srv_Addr = cf_Host cfg @ '':'' @ cf_Port cfg,
      srv_origins = cf_CORSOrigins cfg,
      srv_agents = agent_WithEvents (agent_NewHandler agent_repository),
      srv_telemetry = telemetry_WithAlerting (telemetry_WithEvents (telemetry_NewHandler telemetry_repository)),
      srv_alerts = alerting_WithEvents alerting_NewHandler,
      srv_obs = NewService agent_repository telemetry_repository (cf_HealthyThreshold cfg) (cf_StaleThreshold cfg),
      srv_authenticator = NewAuthenticator (cf_APIAuthEnabled cfg),
      srv_engine = NewEngine True True,
      srv_retention = retention_NewWorker (cf_TelemetryRetentionDays cfg) (1 * time_Hour)\<rparr>"

text \<open>The part of \<open>New\<close> that is state, beside the tables and the oracles, which stay.\<close>

definition New_state :: "Config \<Rightarrow> 'a telemetry_env_scheme \<Rightarrow> limiter \<times> 'a telemetry_env_scheme" where
  "New_state cfg s =
     (NewRateLimiter (cf_RateLimitRequestsPerMin cfg) (1 * time_Minute),
      s\<lparr>hub := NewHub, queue := NewQueue 4 256 3 (10 * time_Second), queue_panic := False, sleeps := [],
        sustained := (\<lambda>_. None), evaluations := []\<rparr>)"

section \<open>The endpoints\<close>

datatype endpoint =
    E_health | E_events
  | E_Register | E_Ingest | E_IngestForAgent
  | E_List | E_Get | E_GetLatest | E_GetHistory
  | E_Health | E_Latest | E_History | E_Analytics | E_Overview
  | E_ListAlerts | E_GetAlert | E_AcknowledgeAlert | E_ListComments | E_AddComment
  | E_ListRules | E_CreateRule | E_UpdateRule | E_DeleteRule
  | E_ListChannels | E_CreateChannel | E_DeleteChannel | E_TestChannel | E_ListDeliveries
  | E_ListTokens | E_CreateToken | E_DeleteToken

definition events_ServeHTTP :: "'s server_handler" where
  "events_ServeHTTP w r st = (snd (sse_open True w r), st)"

fun endpoint_handler ::
  "externals \<Rightarrow> 'a telemetry_env_scheme server \<Rightarrow> endpoint \<Rightarrow> 'a telemetry_env_scheme server_handler"
where
  "endpoint_handler X v E_health = lift_handler SJ_health health_Handler"
| "endpoint_handler X v E_events = events_ServeHTTP"
| "endpoint_handler X v E_Register = lift_handler SJ_agent (Register_h (srv_agents v) (x_registration X))"
| "endpoint_handler X v E_Ingest = lift_handler SJ_telemetry (Ingest_h (srv_telemetry v) (x_telemetry X))"
| "endpoint_handler X v E_IngestForAgent =
     lift_handler SJ_telemetry (IngestForAgent_h (srv_telemetry v) (x_telemetry X))"
| "endpoint_handler X v E_List = lift_handler SJ_agent (List_h (srv_agents v))"
| "endpoint_handler X v E_Get = lift_handler SJ_agent (Get_h (srv_agents v))"
| "endpoint_handler X v E_GetLatest = lift_handler SJ_telemetry (GetLatest_h (srv_telemetry v))"
| "endpoint_handler X v E_GetHistory =
     lift_handler SJ_telemetry (GetHistory_h (srv_telemetry v) (x_time_Parse X))"
| "endpoint_handler X v E_Health = lift_handler SJ_observability (Health_h (x_conv X) (srv_obs v))"
| "endpoint_handler X v E_Latest = lift_handler SJ_observability (Latest_h (srv_obs v))"
| "endpoint_handler X v E_History =
     lift_handler SJ_observability (History_h (srv_obs v) (x_time_Parse X) (x_names X))"
| "endpoint_handler X v E_Analytics =
     lift_handler SJ_observability (Analytics_h (x_conv X) (x_uconv X) (srv_obs v))"
| "endpoint_handler X v E_Overview = lift_handler SJ_observability (Overview_h (x_conv X) (srv_obs v))"
| "endpoint_handler X v E_ListAlerts = lift_handler SJ_alert ListAlerts_h"
| "endpoint_handler X v E_GetAlert = lift_handler SJ_alert GetAlert_h"
| "endpoint_handler X v E_AcknowledgeAlert =
     lift_handler SJ_alert (AcknowledgeAlert_h (srv_alerts v) (x_ack X))"
| "endpoint_handler X v E_ListComments = lift_handler SJ_alert ListComments_h"
| "endpoint_handler X v E_AddComment = lift_handler SJ_alert (AddComment_h (srv_alerts v) (x_comment X))"
| "endpoint_handler X v E_ListRules = lift_handler SJ_alert ListRules_h"
| "endpoint_handler X v E_CreateRule = lift_handler SJ_alert (CreateRule_h (x_rule X))"
| "endpoint_handler X v E_UpdateRule = lift_handler SJ_alert (UpdateRule_h (x_rule X))"
| "endpoint_handler X v E_DeleteRule = lift_handler SJ_alert DeleteRule_h"
| "endpoint_handler X v E_ListChannels = lift_handler SJ_notif ListChannels_h"
| "endpoint_handler X v E_CreateChannel =
     lift_handler SJ_notif (CreateChannel_h (x_url_Parse X) (x_channel X))"
| "endpoint_handler X v E_DeleteChannel = lift_handler SJ_notif DeleteChannel_h"
| "endpoint_handler X v E_TestChannel = lift_handler SJ_notif (TestChannel_h (x_provider X))"
| "endpoint_handler X v E_ListDeliveries = lift_handler SJ_notif ListDeliveries_h"
| "endpoint_handler X v E_ListTokens = lift_handler SJ_token ListTokens_h"
| "endpoint_handler X v E_CreateToken =
     lift_handler SJ_token (CreateToken_h (x_sha256 X) (x_entropy X) (x_token X))"
| "endpoint_handler X v E_DeleteToken = lift_handler SJ_token DeleteToken_h"

section \<open>The routes\<close>

text \<open>An entry is a handler with what it is wrapped in: the limiter, and a role.\<close>

record entry =
  en_limited :: bool
  en_role :: "string option"
  en_endpoint :: endpoint

definition HandleFunc :: "string option \<Rightarrow> segment list \<Rightarrow> endpoint \<Rightarrow> entry route" where
  "HandleFunc m path e =
     \<lparr>rt_method = m, rt_path = path, rt_entry = \<lparr>en_limited = False, en_role = None, en_endpoint = e\<rparr>\<rparr>"

definition limited :: "entry route \<Rightarrow> entry route" where
  "limited rt = rt\<lparr>rt_entry := (rt_entry rt)\<lparr>en_limited := True\<rparr>\<rparr>"

definition role_guarded :: "string \<Rightarrow> entry route \<Rightarrow> entry route" where
  "role_guarded role rt = rt\<lparr>rt_entry := (rt_entry rt)\<lparr>en_role := Some role\<rparr>\<rparr>"

definition api :: "segment list \<Rightarrow> segment list" where
  "api path = Lit ''api'' # Lit ''v1'' # path"

definition GET :: "string option" where "GET = Some ''GET''"
definition POST :: "string option" where "POST = Some ''POST''"
definition PUT :: "string option" where "PUT = Some ''PUT''"
definition DELETE :: "string option" where "DELETE = Some ''DELETE''"

definition server_routes :: "entry route list" where
  "server_routes =
     [HandleFunc None [Lit ''health''] E_health,
      HandleFunc GET (api [Lit ''events'']) E_events,

      limited (HandleFunc POST (api [Lit ''agents'', Lit ''register'']) E_Register),
      limited (HandleFunc POST (api [Lit ''telemetry'']) E_Ingest),
      limited (HandleFunc POST (api [Lit ''agents'', Wild ''id'', Lit ''telemetry'']) E_IngestForAgent),

      HandleFunc GET (api [Lit ''agents'']) E_List,
      HandleFunc GET (api [Lit ''agents'', Wild ''id'']) E_Get,
      HandleFunc GET (api [Lit ''agents'', Wild ''id'', Lit ''telemetry'', Lit ''latest'']) E_GetLatest,
      HandleFunc GET (api [Lit ''agents'', Wild ''id'', Lit ''telemetry'']) E_GetHistory,
      HandleFunc GET (api [Lit ''agents'', Wild ''id'', Lit ''health'']) E_Health,
      HandleFunc GET (api [Lit ''agents'', Wild ''id'', Lit ''metrics'']) E_Latest,
      HandleFunc GET (api [Lit ''agents'', Wild ''id'', Lit ''metrics'', Lit ''history'']) E_History,
      HandleFunc GET (api [Lit ''agents'', Wild ''id'', Lit ''analytics'']) E_Analytics,
      HandleFunc GET (api [Lit ''overview'']) E_Overview,

      HandleFunc GET (api [Lit ''alerts'']) E_ListAlerts,
      HandleFunc GET (api [Lit ''alerts'', Wild ''id'']) E_GetAlert,
      limited (role_guarded RoleOperator
        (HandleFunc POST (api [Lit ''alerts'', Wild ''id'', Lit ''acknowledge'']) E_AcknowledgeAlert)),
      HandleFunc GET (api [Lit ''alerts'', Wild ''id'', Lit ''comments'']) E_ListComments,
      limited (role_guarded RoleOperator
        (HandleFunc POST (api [Lit ''alerts'', Wild ''id'', Lit ''comments'']) E_AddComment)),
      HandleFunc GET (api [Lit ''alert-rules'']) E_ListRules,
      limited (role_guarded RoleOperator (HandleFunc POST (api [Lit ''alert-rules'']) E_CreateRule)),
      limited (role_guarded RoleOperator (HandleFunc PUT (api [Lit ''alert-rules'', Wild ''id'']) E_UpdateRule)),
      limited (role_guarded RoleOperator (HandleFunc DELETE (api [Lit ''alert-rules'', Wild ''id'']) E_DeleteRule)),

      HandleFunc GET (api [Lit ''notification-channels'']) E_ListChannels,
      limited (role_guarded RoleOperator (HandleFunc POST (api [Lit ''notification-channels'']) E_CreateChannel)),
      limited (role_guarded RoleOperator
        (HandleFunc DELETE (api [Lit ''notification-channels'', Wild ''id'']) E_DeleteChannel)),
      limited (role_guarded RoleOperator
        (HandleFunc POST (api [Lit ''notification-channels'', Wild ''id'', Lit ''test'']) E_TestChannel)),
      role_guarded RoleOperator (HandleFunc GET (api [Lit ''notification-deliveries'']) E_ListDeliveries),

      role_guarded RoleAdmin (HandleFunc GET (api [Lit ''tokens'']) E_ListTokens),
      limited (role_guarded RoleAdmin (HandleFunc POST (api [Lit ''tokens'']) E_CreateToken)),
      limited (role_guarded RoleAdmin (HandleFunc DELETE (api [Lit ''tokens'', Wild ''id'']) E_DeleteToken))]"

definition entry_handler ::
  "externals \<Rightarrow> 'a telemetry_env_scheme server \<Rightarrow> entry \<Rightarrow> 'a telemetry_env_scheme server_handler"
where
  "entry_handler X v e =
     (let h = endpoint_handler X v (en_endpoint e);
          guarded = (case en_role e of None \<Rightarrow> h | Some role \<Rightarrow> RequireRole role h)
      in if en_limited e then Limit guarded else guarded)"

section \<open>A request\<close>

text \<open>
  A request as it arrives, with its escaped path.  The server of net/http decodes the path and
  answers 400 itself when it cannot.
\<close>

record wire =
  wi_Method :: string
  wi_Path :: string
  wi_RemoteAddr :: string
  wi_Header_Get :: "string \<Rightarrow> string"
  wi_Query_Get :: "string \<Rightarrow> string"
  wi_Body :: string

definition request_of :: "wire \<Rightarrow> request option" where
  "request_of m = map_option (\<lambda>path.
     \<lparr>Method = wi_Method m, URL_Path = path, RemoteAddr = wi_RemoteAddr m, Header_Get = wi_Header_Get m,
      PathValue = (\<lambda>_. ''''), Query_Get = wi_Query_Get m, Body = wi_Body m, ctx_role = None,
      ctx_token = None, ctx_request_id = None\<rparr>) (path_unescape (wi_Path m))"

definition mux ::
  "externals \<Rightarrow> 'a telemetry_env_scheme server \<Rightarrow> string \<Rightarrow> 'a telemetry_env_scheme server_handler"
where
  "mux X v = mux_ServeHTTP (x_url_String X) server_routes (entry_handler X v)"

definition server_Handler ::
  "externals \<Rightarrow> 'a telemetry_env_scheme server \<Rightarrow> string \<Rightarrow> 'a telemetry_env_scheme server_handler"
where
  "server_Handler X v path =
     CORS (srv_origins v)
       (RequestID (x_request_id X)
         (Logging
           (Middleware (x_sha256 X) (srv_authenticator v) (mux X v path))))"

definition serve ::
  "externals \<Rightarrow> 'a telemetry_env_scheme server \<Rightarrow> wire \<Rightarrow> limiter \<times> 'a telemetry_env_scheme \<Rightarrow>
   server_json response \<times> (limiter \<times> 'a telemetry_env_scheme)"
where
  "serve X v m st =
     (case request_of m of
        None \<Rightarrow> (Write (B_text ''400 Bad Request'') (WriteHeader 400 new_response), st)
      | Some r \<Rightarrow> server_Handler X v (wi_Path m) new_response r st)"

end
