(* ===== verification/Server_Actions.thy ===== *)
theory Server_Actions
  imports Server Alert_System
begin

text \<open>
  What a request can do to the state.  Every endpoint, whatever is sent, is a sequence of a few
  primitive actions: readings of the clock and of the tables, the statements that write, an event
  for the hub, an evaluation that is started, a call of a provider.  What all actions keep, every
  request keeps.
\<close>

section \<open>The primitive actions\<close>

inductive action :: "'a telemetry_env_scheme \<Rightarrow> 'a telemetry_env_scheme \<Rightarrow> bool" where
  look: "clock_pos s \<le> n \<Longrightarrow> action s (s\<lparr>clock_pos := n, fault_pos := m\<rparr>)"
| register: "action s (snd (agent_Register g s))"
| store: "action s (snd (telemetry_Store t s))"
| acknowledge: "action s (snd (alert_AcknowledgeAlert i u c s))"
| comment: "action s (snd (alert_AddComment k s))"
| create_rule: "action s (snd (alert_CreateRule rule s))"
| update_rule: "action s (snd (alert_UpdateRule rule s))"
| delete_rule: "action s (snd (alert_DeleteRule i s))"
| create_channel: "action s (snd (notif_CreateChannel ch s))"
| delete_channel: "action s (snd (notif_DeleteChannel i s))"
| insert_token: "Role_IsValid ro \<Longrightarrow> action s (snd (insert_token i n h ro s))"
| delete_token: "action s (snd (delete_token i s))"
| touch_token: "action s (snd (touch_token i s))"
| publish: "action s (Publish e s)"
| start_evaluation: "action s (s\<lparr>evaluations := evaluations s @ [p]\<rparr>)"
| call_provider: "action s (s\<lparr>net_pos := n, net_log := lg\<rparr>)"

abbreviation acts :: "'a telemetry_env_scheme \<Rightarrow> 'a telemetry_env_scheme \<Rightarrow> bool" where
  "acts \<equiv> action\<^sup>*\<^sup>*"

text \<open>Only readings: the tables, the hub and everything else stay as they are.\<close>

definition reads :: "'a env_scheme \<Rightarrow> 'a env_scheme \<Rightarrow> bool" where
  "reads s t \<longleftrightarrow> (\<exists>n m. clock_pos s \<le> n \<and> t = s\<lparr>clock_pos := n, fault_pos := m\<rparr>)"

section \<open>Readings\<close>

named_theorems reading \<open>operations that only read\<close>
named_theorems acting \<open>operations that are sequences of actions\<close>

lemma reads_refl [reading]: "reads s s"
  unfolding reads_def by (rule exI [of _ "clock_pos s"], rule exI [of _ "fault_pos s"]) simp

lemma reads_trans: "reads s t \<Longrightarrow> reads t u \<Longrightarrow> reads s u"
proof -
  assume "reads s t" and "reads t u"
  then obtain k m n l where "clock_pos s \<le> k" "t = s\<lparr>clock_pos := k, fault_pos := m\<rparr>"
      "clock_pos t \<le> n" "u = t\<lparr>clock_pos := n, fault_pos := l\<rparr>"
    unfolding reads_def by blast
  then show "reads s u" unfolding reads_def by (intro exI [of _ n] exI [of _ l]) simp
qed

lemma reads_clock [reading]: "reads s t \<Longrightarrow> clock_pos t \<le> n \<Longrightarrow> reads s (t\<lparr>clock_pos := n\<rparr>)"
proof -
  assume "reads s t" and n: "clock_pos t \<le> n"
  then obtain k m where "clock_pos s \<le> k" "t = s\<lparr>clock_pos := k, fault_pos := m\<rparr>" unfolding reads_def by blast
  with n show "reads s (t\<lparr>clock_pos := n\<rparr>)"
    unfolding reads_def by (intro exI [of _ n] exI [of _ m]) simp
qed

lemma reads_fault [reading]: "reads s t \<Longrightarrow> reads s (t\<lparr>fault_pos := n\<rparr>)"
  unfolding reads_def by (elim exE conjE) auto

lemma reads_Now [reading]: "reads s t \<Longrightarrow> reads s (snd (time_Now t))"
  by (simp add: time_Now_def reading)

lemma reads_run:
  assumes "reads s t" and "\<And>u. reads u (snd (stmt u))"
  shows "reads s (snd (db_run stmt t))"
proof (rule db_run_state [where P = "reads s"])
  show "reads s (t\<lparr>fault_pos := Suc (fault_pos t)\<rparr>)" by (rule reads_fault [OF assms(1)])
  then show "reads s (snd (stmt (t\<lparr>fault_pos := Suc (fault_pos t)\<rparr>)))" by (rule reads_trans [OF _ assms(2)])
qed

lemma reads_repositories [reading]:
  "reads s t \<Longrightarrow> reads s (snd (agent_List t))"
  "reads s t \<Longrightarrow> reads s (snd (agent_GetByID i t))"
  "reads s t \<Longrightarrow> reads s (snd (telemetry_AgentExists i t))"
  "reads s t \<Longrightarrow> reads s (snd (telemetry_GetLatest i t))"
  "reads s t \<Longrightarrow> reads s (snd (telemetry_GetHistory i n f u t))"
  "reads s t \<Longrightarrow> reads s (snd (alert_ListRules t))"
  "reads s t \<Longrightarrow> reads s (snd (alert_ListAlerts st i t))"
  "reads s t \<Longrightarrow> reads s (snd (alert_GetAlertByID i t))"
  "reads s t \<Longrightarrow> reads s (snd (alert_ListComments i t))"
  "reads s t \<Longrightarrow> reads s (snd (notif_ListChannels t))"
  "reads s t \<Longrightarrow> reads s (snd (notif_GetChannelByID i t))"
  "reads s t \<Longrightarrow> reads s (snd (notif_ListDeliveries n t))"
  by (simp_all add: agent_List_def agent_GetByID_def telemetry_AgentExists_def telemetry_GetLatest_def
      telemetry_GetHistory_def alert_ListRules_def alert_ListAlerts_def alert_GetAlertByID_def
      alert_ListComments_def notif_ListChannels_def notif_GetChannelByID_def notif_ListDeliveries_def
      case_prod_beta Let_def reads_run reading split: sum.split)

lemma reads_find_token [reading]: "reads s t \<Longrightarrow> reads s (snd (find_token h t))"
  unfolding find_token_def by (erule reads_run) (simp add: time_Now_def reading)

lemma reads_service:
  assumes "sv = NewService agent_repository telemetry_repository hl st" and "reads s t"
  shows "reads s (snd (Service_Health conv sv i t))" and "reads s (snd (Service_Latest sv i t))"
    and "reads s (snd (Service_History sv i n f u t))" and "reads s (snd (Service_Analytics conv uconv sv i rg t))"
  using assms(2)
  by (simp_all add: assms(1) Service_Health_def Service_Latest_def Service_History_def Service_Analytics_def
      NewService_def agent_repository_def telemetry_repository_def case_prod_beta Let_def reading split: sum.split)

lemma reads_overview:
  assumes "sv = NewService agent_repository telemetry_repository hl st" and "reads s t"
  shows "reads s (snd (Service_Overview conv sv t))"
proof -
  have loop: "reads s u \<Longrightarrow> reads s (snd (overview_loop conv sv as ov u))" for as ov u
    by (induction as arbitrary: ov u)
      (simp_all add: case_prod_beta reads_service [OF assms(1)] split: sum.split)
  have "sv_agents sv = agent_List" by (simp add: assms(1) NewService_def agent_repository_def)
  then show ?thesis
    using assms(2) by (simp add: Service_Overview_def case_prod_beta loop reading split: sum.split)
qed


section \<open>Every endpoint is a sequence of actions\<close>

lemma acts_step: "acts s t \<Longrightarrow> action t u \<Longrightarrow> acts s u"
  by (rule rtranclp.rtrancl_into_rtrancl)

lemma acts_reads: "reads s t \<Longrightarrow> acts s t"
  unfolding reads_def by (auto intro: action.look)

lemma acts_look [acting]:
  "acts s t \<Longrightarrow> clock_pos t \<le> n \<Longrightarrow> acts s (t\<lparr>clock_pos := n\<rparr>)"
  "acts s t \<Longrightarrow> acts s (t\<lparr>fault_pos := m\<rparr>)"
proof -
  assume st: "acts s t"
  show "acts s (t\<lparr>clock_pos := n\<rparr>)" if "clock_pos t \<le> n"
    using acts_step [OF st action.look [OF that, of "fault_pos t"]] by simp
  show "acts s (t\<lparr>fault_pos := m\<rparr>)"
    using acts_step [OF st action.look [of t "clock_pos t" m]] by simp
qed

lemmas acts_actions [acting] = acts_step [OF _ action.register] acts_step [OF _ action.store]
  acts_step [OF _ action.acknowledge] acts_step [OF _ action.comment] acts_step [OF _ action.create_rule]
  acts_step [OF _ action.update_rule] acts_step [OF _ action.delete_rule] acts_step [OF _ action.create_channel]
  acts_step [OF _ action.delete_channel] acts_step [OF _ action.insert_token] acts_step [OF _ action.delete_token]
  acts_step [OF _ action.touch_token] acts_step [OF _ action.publish] acts_step [OF _ action.call_provider]

lemma acts_start_evaluation [acting]: "acts s t \<Longrightarrow> ev = evaluations t \<Longrightarrow> acts s (t\<lparr>evaluations := ev @ [p]\<rparr>)"
  using acts_step [OF _ action.start_evaluation] by simp

lemma acts_then_reads: "acts s t \<Longrightarrow> reads t u \<Longrightarrow> acts s u"
  using acts_reads rtranclp_trans by fastforce

text \<open>A handler that reads and then does at most one thing more.\<close>

lemma acts_repositories [acting]:
  "acts s t \<Longrightarrow> acts s (snd (agent_List t))" "acts s t \<Longrightarrow> acts s (snd (agent_GetByID i t))"
  "acts s t \<Longrightarrow> acts s (snd (telemetry_AgentExists i t))" "acts s t \<Longrightarrow> acts s (snd (telemetry_GetLatest i t))"
  "acts s t \<Longrightarrow> acts s (snd (telemetry_GetHistory i n f u t))" "acts s t \<Longrightarrow> acts s (snd (notif_GetChannelByID i t))"
  "acts s t \<Longrightarrow> acts s (snd (find_token h t))"
  by (erule acts_then_reads, simp add: reading)+

lemma acts_publish_if [acting]: "acts s t \<Longrightarrow> acts s (publish_if b ev t)"
  by (simp add: publish_if_def time_Now_def acting)

lemma acts_publish_registered [acting]: "acts s t \<Longrightarrow> acts s (publish_registered b a t)"
  by (simp add: publish_registered_def time_Now_def acting)

lemma acts_test_Send [acting]: "acts s t \<Longrightarrow> acts s (snd (test_Send x ch u k n t))"
proof -
  assume "acts s t"
  moreover obtain m lg where "snd (test_Send x ch u k n t) = t\<lparr>net_pos := m, net_log := lg\<rparr>"
    using tested.send_frame by blast
  ultimately show ?thesis by (simp add: acting)
qed

lemma agent_endpoints:
  "gh_repository h = agent_repository \<Longrightarrow> acts s (snd (Register_h h decode w r s))"
  "gh_repository h = agent_repository \<Longrightarrow> reads s (snd (List_h h w r s))"
  "gh_repository h = agent_repository \<Longrightarrow> reads s (snd (Get_h h w r s))"
  by (simp_all add: Register_h_def List_h_def Get_h_def agent_repository_def case_prod_beta Let_def acting reading
      split: sum.split)

lemma telemetry_endpoints:
  assumes "th_repository h = telemetry_repository"
  shows "acts s (snd (Ingest_h h decode w r s))" and "acts s (snd (IngestForAgent_h h decode w r s))"
    and "reads s (snd (GetLatest_h h w r s))" and "reads s (snd (GetHistory_h h parse w r s))"
  by (simp_all add: Ingest_h_def IngestForAgent_h_def GetLatest_h_def GetHistory_h_def known_agent_def persistTelemetry_def
      assms telemetry_repository_def case_prod_beta Let_def acting reading split: sum.split)

lemma alert_endpoints:
  "reads s (snd (ListAlerts_h w r s))" "reads s (snd (GetAlert_h w r s))" "reads s (snd (ListComments_h w r s))"
  "reads s (snd (ListRules_h w r s))" "acts s (snd (AcknowledgeAlert_h h da w r s))"
  "acts s (snd (AddComment_h h dc w r s))" "acts s (snd (CreateRule_h dr w r s))"
  "acts s (snd (UpdateRule_h dr w r s))" "acts s (snd (DeleteRule_h w r s))"
  by (simp_all add: ListAlerts_h_def GetAlert_h_def ListComments_h_def ListRules_h_def AcknowledgeAlert_h_def
      AddComment_h_def CreateRule_h_def UpdateRule_h_def DeleteRule_h_def case_prod_beta Let_def time_Now_def
      acting reading split: sum.split)

lemma notif_endpoints:
  "reads s (snd (ListChannels_h w r s))" "reads s (snd (ListDeliveries_h w r s))"
  "acts s (snd (CreateChannel_h up dc w r s))" "acts s (snd (DeleteChannel_h w r s))"
  "acts s (snd (TestChannel_h x w r s))"
  by (simp_all add: ListChannels_h_def ListDeliveries_h_def CreateChannel_h_def DeleteChannel_h_def TestChannel_h_def
      case_prod_beta Let_def time_Now_def acting reading split: sum.split option.split)

lemma token_endpoints:
  "reads s (snd (ListTokens_h w r s))" "acts s (snd (CreateToken_h sha en dt w r s))"
  "acts s (snd (DeleteToken_h w r s))"
  by (simp_all add: ListTokens_h_def CreateToken_h_def DeleteToken_h_def case_prod_beta Let_def time_Now_def
      acting reading split: sum.split)

lemma observability_endpoints:
  assumes "sv = NewService agent_repository telemetry_repository hl st"
  shows "reads s (snd (Health_h conv sv w r s))" and "reads s (snd (Latest_h sv w r s))"
    and "reads s (snd (History_h sv parse names w r s))" and "reads s (snd (Analytics_h conv uconv sv w r s))"
    and "reads s (snd (Overview_h conv sv w r s))"
  by (simp_all add: Health_h_def Latest_h_def History_h_def Analytics_h_def Overview_h_def call_h_def respond_with_def
      Let_def reads_service [OF assms] reads_overview [OF assms] reading split: option.split sum.split prod.split)

lemma health_endpoint: "reads s (snd (health_Handler w r s))"
  by (simp add: health_Handler_result reading)


section \<open>Every request is a sequence of actions\<close>

lemma lift_handler_state: "snd (lift_handler wrap h w r (rl, s)) = (rl, snd (h \<lparr>hdr = hdr w, status = status w, chunks = []\<rparr> r s))"
  by (simp add: lift_handler_def case_prod_beta)

lemma New_fields [simp]:
  "gh_repository (srv_agents (New cfg)) = agent_repository" "gh_hub (srv_agents (New cfg))"
  "th_repository (srv_telemetry (New cfg)) = telemetry_repository" "th_hub (srv_telemetry (New cfg))"
  "th_engine (srv_telemetry (New cfg))" "ah_hub (srv_alerts (New cfg))"
  "srv_obs (New cfg) = NewService agent_repository telemetry_repository (cf_HealthyThreshold cfg) (cf_StaleThreshold cfg)"
  "au_authEnabled (srv_authenticator (New cfg)) = cf_APIAuthEnabled cfg" "srv_origins (New cfg) = cf_CORSOrigins cfg"
  "srv_engine (New cfg) = \<lparr>eg_hub = True, eg_queue = True\<rparr>"
  by (simp_all add: New_def agent_WithEvents_def agent_NewHandler_def telemetry_WithAlerting_def telemetry_WithEvents_def
      telemetry_NewHandler_def alerting_WithEvents_def alerting_NewHandler_def NewAuthenticator_def NewEngine_def)

text \<open>The endpoints that only read; the others answer 405 to a method that is not their own.\<close>

fun read_only :: "endpoint \<Rightarrow> bool" where
  "read_only e \<longleftrightarrow> e \<notin> {E_Register, E_Ingest, E_IngestForAgent, E_AcknowledgeAlert, E_AddComment, E_CreateRule,
     E_UpdateRule, E_DeleteRule, E_CreateChannel, E_DeleteChannel, E_TestChannel, E_CreateToken, E_DeleteToken}"

lemmas observed = observability_endpoints [OF refl]

lemma endpoint_reads:
  "read_only e \<Longrightarrow> \<exists>t. snd (endpoint_handler X (New cfg) e w r (rl, s)) = (rl, t) \<and> reads s t"
  by (cases e) (simp_all add: lift_handler_state events_ServeHTTP_def observed agent_endpoints telemetry_endpoints
      alert_endpoints notif_endpoints token_endpoints health_endpoint reading)

lemma endpoint_acts:
  "\<exists>t. snd (endpoint_handler X (New cfg) e w r (rl, s)) = (rl, t) \<and> acts s t"
proof (cases "read_only e")
  case True
  then show ?thesis using endpoint_reads [OF True, of X cfg w r rl s] acts_reads by blast
next
  case False
  then show ?thesis
    by (cases e) (simp_all add: lift_handler_state agent_endpoints telemetry_endpoints alert_endpoints notif_endpoints
        token_endpoints)
qed


text \<open>Around the endpoint: the limiter reads the clock once, the role guard only answers.\<close>

lemma entry_cases:
  fixes s :: "'a telemetry_env_scheme"
  obtains (run) rl' u where "reads s u" "en_limited e \<or> rl' = rl \<and> u = s"
      "\<And>role. en_role e = Some role \<Longrightarrow> \<exists>own. ctx_role r = Some own \<and> hasPermission own role"
      "entry_handler X v e w r (rl, s) = endpoint_handler X v (en_endpoint e) w r (rl', u)"
  | (refuse) w' rl' u where "reads s u" "en_limited e \<or> rl' = rl" "entry_handler X v e w r (rl, s) = (w', (rl', u))"
      "status w = None \<longrightarrow> status w' = Some 403 \<and> en_role e \<noteq> None \<or> status w' = Some 429 \<and> en_limited e"
proof -
  define guarded where "guarded = (case en_role e of None \<Rightarrow> endpoint_handler X v (en_endpoint e)
    | Some role \<Rightarrow> RequireRole role (endpoint_handler X v (en_endpoint e)))"
  have entry: "entry_handler X v e w r (rl, s) = (if en_limited e then Limit guarded else guarded) w r (rl, s)"
    by (simp add: entry_handler_def guarded_def Let_def)
  have inner: thesis if u: "reads s u" "en_limited e \<or> rl' = rl \<and> u = s" "entry_handler X v e w r (rl, s) = guarded w r (rl', u)"
    for rl' u
  proof (cases "\<forall>role. en_role e = Some role \<longrightarrow> (\<exists>own. ctx_role r = Some own \<and> hasPermission own role)")
    case True
    then have "guarded w r (rl', u) = endpoint_handler X v (en_endpoint e) w r (rl', u)"
      by (auto simp: guarded_def RequireRole_def split: option.split)
    then show thesis using u True by (intro run [of u rl']) auto
  next
    case False
    then obtain role where "en_role e = Some role" "\<nexists>own. ctx_role r = Some own \<and> hasPermission own role" by blast
    then have "\<exists>w'. guarded w r (rl', u) = (w', (rl', u)) \<and> (status w = None \<longrightarrow> status w' = Some 403)"
      by (auto simp: guarded_def RequireRole_def split: option.split)
    then show thesis using u \<open>en_role e = Some role\<close> by (elim exE conjE) (rule refuse, auto)
  qed
  have look: "reads s (s\<lparr>clock_pos := Suc (clock_pos s)\<rparr>)" by (simp add: reading)
  show thesis
  proof (cases "en_limited e \<and> limit rl > 0")
    case False
    then have "entry_handler X v e w r (rl, s) = guarded w r (rl, s)" unfolding entry by (auto simp: Limit_def)
    then show thesis by (intro inner [of s rl] reads_refl) simp_all
  next
    case True
    obtain ok rl' where adm: "limiter_admit (clock s (clock_pos s)) (cut_last_colon (RemoteAddr r)) rl = (ok, rl')" by fastforce
    show thesis
    proof (cases ok)
      case ok: True
      then have "entry_handler X v e w r (rl, s) = guarded w r (rl', s\<lparr>clock_pos := Suc (clock_pos s)\<rparr>)"
        using True adm unfolding entry by (simp add: Limit_def time_Now_def)
      then show thesis using True by (intro inner [OF look]) simp_all
    next
      case no: False
      then have "entry_handler X v e w r (rl, s) = (http_Error rate_limit_body 429 w, (rl', s\<lparr>clock_pos := Suc (clock_pos s)\<rparr>))"
        using True adm unfolding entry by (simp add: Limit_def time_Now_def)
      then show thesis using True by (intro refuse [OF look]) auto
    qed
  qed
qed

lemma entry_acts: "\<exists>rl' t. snd (entry_handler X (New cfg) e w r (rl, s)) = (rl', t) \<and> acts s t"
proof (cases rule: entry_cases [where X = X and v = "New cfg" and e = e and w = w and r = r and rl = rl and s = s])
  case (run rl' u)
  then show ?thesis
    using endpoint_acts [of X cfg "en_endpoint e" w r rl' u] acts_reads rtranclp_trans by metis
next
  case (refuse w' rl' u)
  then show ?thesis using acts_reads by auto
qed

lemma mux_acts: "\<exists>rl' t. snd (mux X (New cfg) path w r (rl, s)) = (rl', t) \<and> acts s t"
  using entry_acts [of X cfg] by (auto simp: mux_def mux_ServeHTTP_def Let_def split: option.split prod.split)

text \<open>The authentication in front.\<close>

text \<open>A use of a token changes nothing but when it was last used.\<close>

definition forget_use :: "APIToken \<Rightarrow> APIToken" where
  "forget_use k = k\<lparr>tk_LastUsedAt := None\<rparr>"

definition only_last_use :: "'a db_env_scheme \<Rightarrow> 'a db_env_scheme \<Rightarrow> bool" where
  "only_last_use s t \<longleftrightarrow>
     (\<exists>n m ks. t = s\<lparr>clock_pos := n, fault_pos := m, api_tokens := ks\<rparr> \<and>
        map forget_use ks = map forget_use (api_tokens s))"

lemma reads_only_last_use: "reads s t \<Longrightarrow> only_last_use s t"
proof -
  assume "reads s t"
  then obtain n m where "t = s\<lparr>clock_pos := n, fault_pos := m\<rparr>" unfolding reads_def by blast
  then show ?thesis
    unfolding only_last_use_def by (intro exI [of _ n] exI [of _ m] exI [of _ "api_tokens s"]) simp
qed

lemma only_last_use_trans: "only_last_use s t \<Longrightarrow> only_last_use t u \<Longrightarrow> only_last_use s u"
proof -
  assume "only_last_use s t" and "only_last_use t u"
  then obtain k m ks n l ls where "t = s\<lparr>clock_pos := k, fault_pos := m, api_tokens := ks\<rparr>"
      "map forget_use ks = map forget_use (api_tokens s)"
      "u = t\<lparr>clock_pos := n, fault_pos := l, api_tokens := ls\<rparr>" "map forget_use ls = map forget_use (api_tokens t)"
    unfolding only_last_use_def by blast
  then show ?thesis
    unfolding only_last_use_def by (intro exI [of _ n] exI [of _ l] exI [of _ ls]) simp
qed

lemma touch_only_last_use: "only_last_use s (snd (touch_token i s))"
proof -
  have touched: "map forget_use (map (\<lambda>k. if tk_ID k = i then k\<lparr>tk_LastUsedAt := x\<rparr> else k) ks) = map forget_use ks" for x ks
    by (simp add: forget_use_def)
  have look: "only_last_use s (s\<lparr>fault_pos := m\<rparr>)" for m by (intro reads_only_last_use reads_fault reads_refl)
  have "only_last_use u (u\<lparr>clock_pos := n, api_tokens :=
      map (\<lambda>k. if tk_ID k = i then k\<lparr>tk_LastUsedAt := x\<rparr> else k) (api_tokens u)\<rparr>)" for n x and u :: "'a db_env_scheme"
    unfolding only_last_use_def using touched
    by (intro exI [of _ n] exI [of _ "fault_pos u"] exI [of _ "map (\<lambda>k. if tk_ID k = i then k\<lparr>tk_LastUsedAt := x\<rparr> else k) (api_tokens u)"])
      (simp add: comp_def)
  from only_last_use_trans [OF look this] have touch: "only_last_use s (s\<lparr>fault_pos := m, clock_pos := n, api_tokens :=
      map (\<lambda>k. if tk_ID k = i then k\<lparr>tk_LastUsedAt := x\<rparr> else k) (api_tokens s)\<rparr>)" for m n x by simp
  show ?thesis
    unfolding touch_token_def
    by (rule db_run_state [where P = "only_last_use s"]) (simp_all add: time_Now_def look touch)
qed

text \<open>
  The authentication in front: it hands on with the role of a live token, or with none on a public
  path, or as admin when it is switched off; or it refuses.
\<close>

lemma Middleware_cases:
  fixes s :: "'a telemetry_env_scheme"
  obtains (open_door) r' where "\<not> au_authEnabled a \<or> public_path (URL_Path r)" "r' = r \<or> \<not> au_authEnabled a"
      "Method r' = Method r" "Middleware sha a next_h w r (rl, s) = next_h w r' (rl, s)"
  | (pass) k raw t where "au_authEnabled a" "k \<in> set (api_tokens s)" "Header_Get r ''Authorization'' = ''Bearer '' @ raw"
      "tk_TokenHash k = token_hash sha raw" "token_alive (clock s (clock_pos s)) k" "acts s t" "only_last_use s t"
      "Middleware sha a next_h w r (rl, s) =
         next_h w (r\<lparr>ctx_role := Some (tk_Role k), ctx_token := Some (tk_ID k)\<rparr>) (rl, t)"
  | (refuse) w' t where "reads s t" "Middleware sha a next_h w r (rl, s) = (w', (rl, t))"
      "status w = None \<longrightarrow> status w' = Some 401 \<or> status w' = Some 500"
proof (cases "au_authEnabled a \<and> \<not> public_path (URL_Path r)")
  case False
  then show thesis
    by (cases "au_authEnabled a") (rule open_door, auto simp: Middleware_def)+
next
  case True
  note found = pass and missed = refuse
  have "au_authEnabled a" and "\<not> public_path (URL_Path r)" using True by simp_all
  then show thesis
  proof (cases rule: Middleware_on [where sha = sha and next_h = next_h and w = w and c = rl and s = s])
    case (pass k raw)
    let ?u = "snd (find_token (token_hash sha raw) s)"
    have u: "reads s ?u" by (rule reads_find_token [OF reads_refl])
    have "acts s (snd (touch_token (tk_ID k) ?u))" by (rule acts_step [OF acts_reads [OF u] action.touch_token])
    moreover have "only_last_use s (snd (touch_token (tk_ID k) ?u))"
      by (rule only_last_use_trans [OF reads_only_last_use [OF u] touch_only_last_use])
    ultimately show thesis using True pass by (intro found) simp_all
  next
    case (refuse w' s1)
    then have "reads s s1" by (auto simp: reading)
    then show thesis using refuse by (intro missed) simp_all
  qed
qed

text \<open>What the outer middleware leaves of a request that is not a preflight.\<close>

lemma serve_inner:
  assumes "request_of m = Some r" and "Method r \<noteq> ''OPTIONS''"
  obtains w1 q i where "status w1 = None" "Method q = Method r" "URL_Path q = URL_Path r" "Header_Get q = Header_Get r"
    "ctx_role q = None" "q = r\<lparr>ctx_request_id := Some i\<rparr>"
    "serve X v m (rl, s) = Middleware (x_sha256 X) (srv_authenticator v) (mux X v (wi_Path m)) w1 q (rl, s)"
proof -
  define h where "h = RequestID (x_request_id X) (Logging (Middleware (x_sha256 X) (srv_authenticator v) (mux X v (wi_Path m))))"
  obtain w0 where "CORS (srv_origins v) h new_response r (rl, s) = h w0 r (rl, s)" "status w0 = None"
    using CORS_next [OF assms(2), of "srv_origins v" h new_response "(rl, s)"] by auto
  then have "status w0 = None" "serve X v m (rl, s) =
      RequestID (x_request_id X) (Logging (Middleware (x_sha256 X) (srv_authenticator v) (mux X v (wi_Path m)))) w0 r (rl, s)"
    by (simp_all add: serve_def assms(1) server_Handler_def h_def)
  moreover have "ctx_role r = None" using assms(1) by (auto simp: request_of_def)
  ultimately show thesis by (intro that) (simp_all add: RequestID_def Logging_def Let_def)
qed

lemma serve_acts:
  assumes "serve X v m (rl, s) = (w, (rl', t))" and "v = New cfg"
  shows "acts s t"
proof (cases "request_of m")
  case None
  then show ?thesis using assms(1) by (simp add: serve_def)
next
  case (Some r)
  show ?thesis
  proof (cases "Method r = ''OPTIONS''")
    case True
    then show ?thesis using assms(1) Some by (auto simp: serve_def server_Handler_def CORS_def Let_def split: if_splits)
  next
    case False
    with Some obtain w1 q where "serve X v m (rl, s) =
        Middleware (x_sha256 X) (srv_authenticator v) (mux X v (wi_Path m)) w1 q (rl, s)"
      by (rule serve_inner [where X = X and v = v and rl = rl and s = s])
    then have end_state: "t = snd (snd (Middleware (x_sha256 X) (srv_authenticator v) (mux X v (wi_Path m)) w1 q (rl, s)))"
      using assms(1) by (metis snd_conv)
    show ?thesis
    proof (cases rule: Middleware_cases [where sha = "x_sha256 X" and a = "srv_authenticator v" and
          next_h = "mux X v (wi_Path m)" and w = w1 and r = q and rl = rl and s = s])
      case (open_door r')
      then show ?thesis using mux_acts [of X cfg "wi_Path m" w1 r' rl s] end_state assms(2) by auto
    next
      case (pass k raw u)
      then show ?thesis
        using mux_acts [of X cfg "wi_Path m" w1 "q\<lparr>ctx_role := Some (tk_Role k), ctx_token := Some (tk_ID k)\<rparr>" rl u]
          end_state assms(2) rtranclp_trans by fastforce
    next
      case (refuse w' u)
      then show ?thesis using end_state by (simp add: acts_reads)
    qed
  qed
qed

end
