(* ===== verification/Server_System.thy ===== *)
theory Server_System
  imports Server_Actions Hub_System
begin

text \<open>
  The whole server: requests, the evaluations they start, the retention worker, the delivery
  workers and the goroutines of the hub, over one state.  A step is fine: one action of a request
  or of an evaluation, so that any interleaving of any number of requests is a run (the loop body of
  an \<open>Enqueue\<close> is two of them, with the job in \<open>ss_offers\<close> in between); \<open>server_step\<close> runs whole
  requests and whole evaluations and is a sequence of fine steps.
\<close>

section \<open>The actions of an evaluation\<close>

inductive engine_action :: "'a telemetry_env_scheme \<Rightarrow> 'a telemetry_env_scheme \<Rightarrow> bool" where
  request_action: "action s t \<Longrightarrow> engine_action s t"
| fire: "engine_action s (snd (alert_CreateAlert a s))"
| resolve: "engine_action s (snd (alert_ResolveAlert i v s))"
| remember: "engine_action s (s\<lparr>sustained := f\<rparr>)"
| take_evaluation: "engine_action s (s\<lparr>evaluations := ps\<rparr>)"

text \<open>What an evaluation does when nothing comes between the two halves of the loop body of \<open>Enqueue\<close>.\<close>

inductive eval_action :: "'a telemetry_env_scheme \<Rightarrow> 'a telemetry_env_scheme \<Rightarrow> bool" where
  single: "engine_action s t \<Longrightarrow> eval_action s t"
| enqueue: "eval_action s (enqueue_channel event alertID n ch s)"

abbreviation eacts :: "'a telemetry_env_scheme \<Rightarrow> 'a telemetry_env_scheme \<Rightarrow> bool" where
  "eacts \<equiv> eval_action\<^sup>*\<^sup>*"

named_theorems evaluating \<open>operations that are sequences of the actions of an evaluation\<close>

lemma eacts_step: "eacts s t \<Longrightarrow> engine_action t u \<Longrightarrow> eacts s u"
  by (auto intro: rtranclp.rtrancl_into_rtrancl single)

lemma eacts_acts: "acts s t \<Longrightarrow> eacts s t"
  by (induction rule: rtranclp_induct) (auto intro: eacts_step request_action)

lemma eacts_then: "eacts s t \<Longrightarrow> acts t u \<Longrightarrow> eacts s u"
  using eacts_acts rtranclp_trans by fastforce

lemma eacts_actions [evaluating]:
  assumes "eacts s t"
  shows "eacts s (Publish e t)" and "clock_pos t \<le> n \<Longrightarrow> eacts s (t\<lparr>clock_pos := n\<rparr>)"
    and "eacts s (t\<lparr>fault_pos := m\<rparr>)" and "eacts s (snd (alert_CreateAlert a t))"
    and "eacts s (snd (alert_ResolveAlert i v t))" and "eacts s (enqueue_channel event alertID nt ch t)"
    and "eacts s (t\<lparr>sustained := f\<rparr>)"
proof -
  show "clock_pos t \<le> n \<Longrightarrow> eacts s (t\<lparr>clock_pos := n\<rparr>)" "eacts s (t\<lparr>fault_pos := m\<rparr>)"
    by (rule eacts_then [OF assms], simp add: acting)+
  show "eacts s (Publish e t)" by (rule eacts_step [OF assms request_action [OF action.publish]])
  show "eacts s (snd (alert_CreateAlert a t))" by (rule eacts_step [OF assms engine_action.fire])
  show "eacts s (snd (alert_ResolveAlert i v t))" by (rule eacts_step [OF assms engine_action.resolve])
  show "eacts s (enqueue_channel event alertID nt ch t)" by (rule rtranclp.rtrancl_into_rtrancl [OF assms eval_action.enqueue])
  show "eacts s (t\<lparr>sustained := f\<rparr>)" by (rule eacts_step [OF assms engine_action.remember])
qed

lemma eacts_fold: "(\<And>x u. eacts s u \<Longrightarrow> eacts s (f x u)) \<Longrightarrow> eacts s t \<Longrightarrow> eacts s (fold f xs t)"
  by (induction xs arbitrary: t) auto

lemma eacts_Enqueue [evaluating]: "eacts s t \<Longrightarrow> eacts s (Enqueue event alertID dat t)"
  by (simp add: Enqueue_def notif_ListChannels_def case_prod_beta time_Now_def evaluating eacts_fold split: sum.split)

lemma eacts_announce [evaluating]: "eacts s t \<Longrightarrow> eacts s (announce g ty nt agentID a t)"
  by (simp add: announce_def time_Now_def Let_def evaluating)

lemma eacts_GetActive [evaluating]: "eacts s t \<Longrightarrow> eacts s (snd (alert_GetActiveAlert i j t))"
proof -
  assume st: "eacts s t"
  have "eacts s (snd (db_run (\<lambda>s. (f s, s)) t))" for f :: "'a telemetry_env_scheme \<Rightarrow> dberr + Alert"
    by (rule db_run_state [where P = "eacts s"]) (simp_all add: st evaluating)
  then show ?thesis by (simp add: alert_GetActiveAlert_def case_prod_beta split: sum.split)
qed

lemma eacts_processAlertState [evaluating]: "eacts s t \<Longrightarrow> eacts s (processAlertState g rule a val b t)"
  by (simp add: processAlertState_def case_prod_beta time_Now_def evaluating split: sum.split option.split)

lemma eacts_processSustained [evaluating]: "eacts s t \<Longrightarrow> eacts s (processSustainedAndState g rule a val b t)"
  by (simp add: processSustainedAndState_def case_prod_beta time_Now_def Let_def evaluating split: option.split)

lemma eacts_EvaluateTelemetry [evaluating]: "eacts s t \<Longrightarrow> eacts s (EvaluateTelemetry g p t)"
  by (simp add: EvaluateTelemetry_def alert_ListRules_def evaluate_rule_def case_prod_beta evaluating eacts_fold
      split: sum.split option.split)

lemma run_evaluation_eacts: "eacts s (run_evaluation g i s)"
proof -
  have "eacts s (s\<lparr>evaluations := ps\<rparr>)" for ps
    by (intro r_into_rtranclp single engine_action.take_evaluation)
  then show ?thesis by (simp add: run_evaluation_def evaluating)
qed

section \<open>The steps\<close>

record 'a server_sys =
  ss_limiter :: limiter
  ss_env :: "'a telemetry_env_scheme"
  ss_flight :: "flight list"
  ss_offers :: "Job list"
  ss_hub :: hub_sys

text \<open>The state as the queue's workers and as the hub's goroutines see it.\<close>

definition queue_view where
  "queue_view s = \<lparr>qs_env = ss_env s, qs_flight = ss_flight s, qs_offers = ss_offers s\<rparr>"

definition hub_view where
  "hub_view s = (ss_hub s)\<lparr>sy_hub := hub (ss_env s)\<rparr>"

inductive fine_step ::
  "ext \<Rightarrow> sql \<Rightarrow> Worker \<Rightarrow> 'a server_sys \<Rightarrow> 'a server_sys \<Rightarrow> bool" for x F wk
where
  act: "engine_action (ss_env s) e \<Longrightarrow> fine_step x F wk s (s\<lparr>ss_env := e\<rparr>)"
| admit: "fine_step x F wk s (s\<lparr>ss_limiter := rl\<rparr>)"
| retain: "fine_step x F wk s (s\<lparr>ss_env := runRetentionTask F wk (ss_env s)\<rparr>)"
| insert: "create_pending event alertID n ch (ss_env s) = (made, e) \<Longrightarrow>
     fine_step x F wk s (s\<lparr>ss_env := e, ss_offers := ss_offers s @ offered made\<rparr>)"
| work: "worker_step x (queue_view s) \<lparr>qs_env = e, qs_flight = fs, qs_offers = js\<rparr> \<Longrightarrow>
     fine_step x F wk s (s\<lparr>ss_env := e, ss_flight := fs, ss_offers := js\<rparr>)"
| distribute: "hub_step (hub_view s) t \<Longrightarrow>
     fine_step x F wk s (s\<lparr>ss_hub := t, ss_env := (ss_env s)\<lparr>hub := sy_hub t\<rparr>\<rparr>)"

inductive server_step ::
  "ext \<Rightarrow> sql \<Rightarrow> 'a telemetry_env_scheme server \<Rightarrow> 'a server_sys \<Rightarrow> 'a server_sys \<Rightarrow> bool" for x F v
where
  request: "serve X v m (ss_limiter s, ss_env s) = (w, (rl, e)) \<Longrightarrow>
     server_step x F v s (s\<lparr>ss_env := e, ss_limiter := rl\<rparr>)"
| evaluation: "server_step x F v s (s\<lparr>ss_env := run_evaluation (srv_engine v) i (ss_env s)\<rparr>)"
| retention: "server_step x F v s (s\<lparr>ss_env := runRetentionTask F (srv_retention v) (ss_env s)\<rparr>)"
| worker: "worker_step x (queue_view s) \<lparr>qs_env = e, qs_flight = fs, qs_offers = js\<rparr> \<Longrightarrow>
     server_step x F v s (s\<lparr>ss_env := e, ss_flight := fs, ss_offers := js\<rparr>)"
| hub_run: "hub_step (hub_view s) t \<Longrightarrow> sy_published t = sy_published (ss_hub s) \<Longrightarrow>
     server_step x F v s (s\<lparr>ss_hub := t, ss_env := (ss_env s)\<lparr>hub := sy_hub t\<rparr>\<rparr>)"

lemma fine_enqueue: "(fine_step x F wk)\<^sup>*\<^sup>* s (s\<lparr>ss_env := enqueue_channel event alertID n ch (ss_env s)\<rparr>)"
proof -
  obtain made e where run: "create_pending event alertID n ch (ss_env s) = (made, e)" by fastforce
  let ?u = "s\<lparr>ss_env := e, ss_offers := ss_offers s @ offered made\<rparr>"
  have first: "fine_step x F wk s ?u" by (rule fine_step.insert [OF run])
  show ?thesis
  proof (cases made)
    case None
    then show ?thesis using first by (auto simp: enqueue_channel_def run)
  next
    case (Some job)
    have "worker_step x (queue_view ?u) (queue_view ?u\<lparr>qs_env := enqueue_job job (qs_env (queue_view ?u)), qs_offers := ss_offers s @ []\<rparr>)"
      by (rule worker_step.offer) (simp add: queue_view_def Some)
    then have "fine_step x F wk ?u (?u\<lparr>ss_env := enqueue_job job e, ss_flight := ss_flight s, ss_offers := ss_offers s\<rparr>)"
      by (intro fine_step.work) (simp add: queue_view_def)
    then show ?thesis
      using first Some by (simp add: enqueue_channel_def run converse_rtranclp_into_rtranclp r_into_rtranclp)
  qed
qed

lemma fine_acts: "eacts (ss_env s) e \<Longrightarrow> (fine_step x F wk)\<^sup>*\<^sup>* s (s\<lparr>ss_env := e\<rparr>)"
proof (induction rule: rtranclp_induct)
  case (step e f)
  have "(fine_step x F wk)\<^sup>*\<^sup>* (s\<lparr>ss_env := e\<rparr>) ((s\<lparr>ss_env := e\<rparr>)\<lparr>ss_env := f\<rparr>)"
    using step(2)
  proof (cases rule: eval_action.cases)
    case single
    then show ?thesis by (intro r_into_rtranclp fine_step.act) simp
  next
    case (enqueue event alertID n ch)
    then show ?thesis using fine_enqueue [of x F wk "s\<lparr>ss_env := e\<rparr>" event alertID n ch] by simp
  qed
  then show ?case using step(3) by simp
qed simp

lemma server_step_fine:
  assumes "server_step x F v s t" and "v = New cfg"
  shows "(fine_step x F (srv_retention v))\<^sup>*\<^sup>* s t"
  using assms(1)
proof (cases rule: server_step.cases)
  case (request X m w rl e)
  have "(fine_step x F (srv_retention v))\<^sup>*\<^sup>* s (s\<lparr>ss_env := e\<rparr>)"
    by (rule fine_acts) (rule eacts_acts [OF serve_acts [OF request(2) assms(2)]])
  moreover have "fine_step x F (srv_retention v) (s\<lparr>ss_env := e\<rparr>) ((s\<lparr>ss_env := e\<rparr>)\<lparr>ss_limiter := rl\<rparr>)"
    by (rule fine_step.admit)
  ultimately show ?thesis unfolding request(1) by (rule rtranclp.rtrancl_into_rtrancl)
next
  case (evaluation i)
  then show ?thesis using fine_acts [OF run_evaluation_eacts] by blast
next
  case retention
  show ?thesis unfolding retention by (rule r_into_rtranclp) (rule fine_step.retain)
next
  case (worker e fs js)
  show ?thesis unfolding worker(1) by (rule r_into_rtranclp) (rule fine_step.work [OF worker(2)])
next
  case (hub_run u)
  show ?thesis unfolding hub_run(1) by (rule r_into_rtranclp) (rule fine_step.distribute [OF hub_run(2)])
qed


section \<open>What every action keeps\<close>

subsection \<open>The queue and the deliveries\<close>

definition other_step :: "'a queue_env_scheme \<Rightarrow> 'a queue_env_scheme \<Rightarrow> bool" where
  "other_step s t \<longleftrightarrow>
     same_queue s t \<and> (\<exists>P. notification_deliveries t = filter P (notification_deliveries s)) \<and>
     (\<exists>es. hub t = fold hub_offer es (hub s))"

lemma keep_all: "\<exists>P. xs = filter P xs" "\<exists>es. h = fold hub_offer es h"
  by (rule exI [of _ "\<lambda>_. True"], simp) (rule exI [of _ "[]"], simp)

lemma other_refl: "other_step s s"
  by (simp add: other_step_def keep_all)

lemma other_trans: "other_step s t \<Longrightarrow> other_step t u \<Longrightarrow> other_step s u"
proof -
  assume "other_step s t" and "other_step t u"
  then obtain P Q es fs where "same_queue s t" "same_queue t u"
      "notification_deliveries t = filter P (notification_deliveries s)"
      "notification_deliveries u = filter Q (notification_deliveries t)"
      "hub t = fold hub_offer es (hub s)" "hub u = fold hub_offer fs (hub t)"
    unfolding other_step_def by blast
  then show "other_step s u"
    unfolding other_step_def
    by (intro conjI exI [of _ "\<lambda>d. P d \<and> Q d"] exI [of _ "es @ fs"]) (auto intro: same_queue_trans)
qed

lemma db_run_other:
  assumes "\<And>u. other_step u (snd (stmt u))"
  shows "other_step s (snd (db_run stmt s))"
proof (rule db_run_state [where P = "other_step s"])
  show first: "other_step s (s\<lparr>fault_pos := Suc (fault_pos s)\<rparr>)" by (simp add: other_step_def same_queue_def keep_all)
  show "other_step s (snd (stmt (s\<lparr>fault_pos := Suc (fault_pos s)\<rparr>)))" by (rule other_trans [OF first assms])
qed

lemma other_statements:
  "other_step s (snd (upsert_agent g s))" "other_step s (snd (insert_telemetry t m s))"
  "other_step s (snd (update_alert A f s))" "other_step s (snd (insert_comment k s))"
  "other_step s (snd (insert_rule rule s))" "other_step s (snd (update_rule rule s))"
  "other_step s (snd (delete_rule i s))" "other_step s (snd (insert_channel ch s))"
  "other_step s (snd (delete_channel i s))" "other_step s (snd (insert_alert a s))"
  by (auto simp: other_step_def same_queue_def upsert_agent_def insert_telemetry_def update_alert_def insert_comment_def
      insert_rule_def update_rule_def delete_rule_def delete_alerts_def insert_channel_def delete_channel_def
      insert_alert_def time_Now_def Let_def case_prod_beta keep_all split: sum.split)

lemma other_tokens:
  "other_step s (snd (insert_token i n h ro s))" "other_step s (snd (delete_token i s))"
  "other_step s (snd (touch_token i s))"
  unfolding insert_token_def delete_token_def touch_token_def
  by (rule db_run_other, simp add: other_step_def same_queue_def time_Now_def Let_def keep_all)+

lemma other_Store: "other_step s (snd (telemetry_Store t s))"
  by (simp add: telemetry_Store_def db_run_other other_statements other_refl split: option.split)

lemma other_Publish: "other_step s (Publish e s)"
proof -
  have "\<exists>es. hub_offer e' (hub s) = fold hub_offer es (hub s)" for e' by (rule exI [of _ "[e']"]) simp
  then show ?thesis by (simp add: other_step_def same_queue_def Publish_def time_Now_def keep_all)
qed

lemma action_other: "action s t \<Longrightarrow> other_step s t"
proof (induction rule: action.induct)
  case (look s n m)
  then show ?case by (simp add: other_step_def same_queue_def keep_all)
qed (simp_all add: agent_Register_def alert_AcknowledgeAlert_def alert_AddComment_def alert_CreateRule_def
    alert_UpdateRule_def alert_DeleteRule_def notif_CreateChannel_def notif_DeleteChannel_def db_run_other
    other_statements other_tokens other_Store other_Publish, simp_all add: other_step_def same_queue_def keep_all)

lemma engine_action_other: "engine_action s t \<Longrightarrow> other_step s t"
proof (induction rule: engine_action.induct)
  case (request_action s t)
  then show ?case by (simp add: action_other)
qed (simp_all add: alert_CreateAlert_def alert_ResolveAlert_def db_run_other other_statements,
    simp_all add: other_step_def same_queue_def keep_all)

lemma retention_other: "other_step s (runRetentionTask F wk s)"
proof -
  have "other_step s (snd (rollupHourly F s))" for s :: "'a queue_env_scheme"
    unfolding rollupHourly_def
    by (rule db_run_other) (simp add: hourlyRollup_def time_Now_def other_step_def same_queue_def keep_all split: option.split)
  moreover have "other_step s (snd (purgeOldTelemetry wk s))" for s :: "'a queue_env_scheme"
  proof -
    have "other_step (s\<lparr>clock_pos := Suc (clock_pos s)\<rparr>) (snd (purgeOldTelemetry wk s))"
      unfolding purgeOldTelemetry_def time_Now_def prod.case
      by (rule db_run_other) (simp add: other_step_def same_queue_def keep_all)
    moreover have "other_step s (s\<lparr>clock_pos := Suc (clock_pos s)\<rparr>)" by (simp add: other_step_def same_queue_def keep_all)
    ultimately show ?thesis by (metis other_trans)
  qed
  ultimately have "other_step s (snd (purgeOldTelemetry wk (snd (rollupHourly F s))))" by (metis other_trans)
  then show ?thesis by (simp add: runRetentionTask_def case_prod_beta)
qed


subsection \<open>The schema\<close>

lemma schema_server_fields [simp]:
  "schema_ok (s\<lparr>net_pos := n, net_log := lg\<rparr>) = schema_ok s" "schema_ok (t\<lparr>evaluations := ps\<rparr>) = schema_ok t"
  "schema_ok (u\<lparr>sustained := f\<rparr>) = schema_ok u" "schema_ok (q\<lparr>sleeps := ds\<rparr>) = schema_ok q"
  "schema_ok (q\<lparr>queue_panic := p\<rparr>) = schema_ok q" "schema_ok (set_jobs c q) = schema_ok q"
  by (simp_all add: schema_defs set_jobs_def)

lemma schema_token_statements [schema_intro]:
  assumes "schema_ok s"
  shows "schema_ok (snd (insert_token i n h ro s))" and "schema_ok (snd (delete_token i s))"
    and "schema_ok (snd (touch_token i s))"
proof -
  show "schema_ok (snd (insert_token i n h ro s))"
    unfolding insert_token_def by (rule db_run_schema [OF assms]) (auto simp: time_Now_def Let_def schema_defs)
  show "schema_ok (snd (delete_token i s))"
    unfolding delete_token_def by (rule db_run_schema [OF assms]) (auto simp: schema_defs distinct_filter_key)
  show "schema_ok (snd (touch_token i s))"
    unfolding touch_token_def
    by (rule db_run_schema [OF assms]) (auto simp: time_Now_def schema_defs map_key_update simp del: map_map)
qed

lemma schema_Store [schema_intro]: "schema_ok s \<Longrightarrow> schema_ok (snd (telemetry_Store t s))"
proof -
  assume ok: "schema_ok s"
  have "schema_ok (snd (db_run (insert_telemetry t m) s))" for m
    by (rule db_run_schema [OF ok]) (auto simp: insert_telemetry_def time_Now_def schema_defs)
  then show ?thesis using ok by (simp add: telemetry_Store_def split: option.split)
qed

lemma schema_register [schema_intro]: "schema_ok s \<Longrightarrow> schema_ok (snd (agent_Register g s))"
  unfolding agent_Register_def by (rule db_run_schema) (simp_all add: upsert_agent_schema)

lemma schema_create_pending [schema_intro]: "schema_ok s \<Longrightarrow> schema_ok (snd (create_pending event alertID n ch s))"
  by (simp add: create_pending_def time_Now_def case_prod_beta notif_schema split: sum.split)

lemma action_schema: "action s t \<Longrightarrow> schema_ok s \<Longrightarrow> schema_ok t"
  by (induction rule: action.induct) (simp_all add: schema_intro schema_register schema_Store schema_token_statements
      alert_schema notif_schema)

lemma engine_action_schema: "engine_action s t \<Longrightarrow> schema_ok s \<Longrightarrow> schema_ok t"
  by (induction rule: engine_action.induct) (simp_all add: action_schema alert_schema)

lemma worker_schema: "worker_step x s t \<Longrightarrow> schema_ok (qs_env s) \<Longrightarrow> schema_ok (qs_env t)"
proof -
  have sent: "schema_ok e'" if send: "job_send x job e = (r, e')" and ok: "schema_ok e" for job e r e'
  proof -
    obtain m lg where "e' = e\<lparr>net_pos := m, net_log := lg\<rparr>"
      using job_send_frame [of x job e] by (auto simp: send)
    then show ?thesis using ok by simp
  qed
  assume "worker_step x s t" and "schema_ok (qs_env s)"
  then show ?thesis
  proof (induction rule: worker_step.induct)
    case (wake s fs job resp err gs)
    then show ?case
      by (auto simp: job_requeue_def job_failed_def Let_def notif_schema split: prod.split chan_op.split)
  next
    case (offer s js job ks)
    then show ?case by (auto simp: enqueue_job_def notif_schema split: prod.split chan_op.split)
  qed (auto simp: job_delivered_def job_failed_def time_Sleep_def notif_schema dest: sent)
qed

subsection \<open>The tokens\<close>

lemma db_run_tokens:
  assumes "\<And>u. api_tokens (snd (stmt u)) = api_tokens u" and "tokens_ok s"
  shows "tokens_ok (snd (db_run stmt s))"
  by (rule db_run_state) (use assms in \<open>simp_all add: tokens_ok_def\<close>)

lemma token_free_statements:
  "api_tokens (snd (upsert_agent g s)) = api_tokens s" "api_tokens (snd (insert_telemetry t m s)) = api_tokens s"
  "api_tokens (snd (update_alert A f s)) = api_tokens s" "api_tokens (snd (insert_comment k s)) = api_tokens s"
  "api_tokens (snd (insert_rule rule s)) = api_tokens s" "api_tokens (snd (update_rule rule s)) = api_tokens s"
  "api_tokens (snd (delete_rule i s)) = api_tokens s" "api_tokens (snd (insert_channel ch s)) = api_tokens s"
  "api_tokens (snd (delete_channel i s)) = api_tokens s" "api_tokens (snd (insert_alert a s)) = api_tokens s"
  by (simp_all add: upsert_agent_def insert_telemetry_def update_alert_def insert_comment_def insert_rule_def
      update_rule_def delete_rule_def delete_alerts_def insert_channel_def delete_channel_def insert_alert_def
      time_Now_def Let_def case_prod_beta split: sum.split)

lemma action_tokens: "action s t \<Longrightarrow> tokens_ok s \<Longrightarrow> tokens_ok t"
proof (induction rule: action.induct)
  case (store s t)
  then show ?case by (simp add: telemetry_Store_def db_run_tokens token_free_statements split: option.split)
next
  case (publish s e)
  then show ?case by (simp add: tokens_ok_def Publish_def time_Now_def)
qed (simp_all add: tokens_ok_insert tokens_ok_delete tokens_ok_touch db_run_tokens token_free_statements
    agent_Register_def alert_AcknowledgeAlert_def alert_AddComment_def alert_CreateRule_def alert_UpdateRule_def
    alert_DeleteRule_def notif_CreateChannel_def notif_DeleteChannel_def, simp_all add: tokens_ok_def)

lemma engine_action_tokens: "engine_action s t \<Longrightarrow> tokens_ok s \<Longrightarrow> tokens_ok t"
proof (induction rule: engine_action.induct)
  case (request_action s t)
  then show ?case by (simp add: action_tokens)
qed (simp_all add: db_run_tokens token_free_statements alert_CreateAlert_def alert_ResolveAlert_def,
    simp_all add: tokens_ok_def)


text \<open>The workers touch neither the hub nor any table but that of the deliveries.\<close>

definition same_tables :: "'a hub_env_scheme \<Rightarrow> 'a hub_env_scheme \<Rightarrow> bool" where
  "same_tables s t \<longleftrightarrow>
     hub t = hub s \<and> api_tokens t = api_tokens s \<and> alerts t = alerts s \<and> alert_rules t = alert_rules s \<and>
     faults t = faults s"

lemma worker_same_tables:
  fixes s t :: "'a queue_sys"
  shows "worker_step x s t \<Longrightarrow> same_tables (qs_env s) (qs_env t)"
proof -
  have sent: "same_tables e e'" if send: "job_send x job e = (r, e')" for job e r and e' :: "'a queue_env_scheme"
  proof -
    obtain m lg where "e' = e\<lparr>net_pos := m, net_log := lg\<rparr>"
      using job_send_frame [of x job e] by (auto simp: send)
    then show ?thesis by (simp add: same_tables_def)
  qed
  have upd: "same_tables u (snd (notif_UpdateDelivery i st a r m u))" for i st a r m and u :: "'a queue_env_scheme"
    unfolding notif_UpdateDelivery_def
    by (rule db_run_state [where P = "same_tables u"]) (simp_all add: same_tables_def update_delivery_def time_Now_def)
  have both: "same_tables u v \<Longrightarrow> same_tables u (snd (notif_UpdateDelivery i st a r m v))"
    for i st a r m and u v :: "'a queue_env_scheme"
    using upd [of v i st a r m] by (simp add: same_tables_def)
  show "worker_step x s t \<Longrightarrow> ?thesis"
  proof (induction rule: worker_step.induct)
    case (take_job s job c)
    then show ?case by (simp add: same_tables_def set_jobs_def)
  next
    case (sleep s fs job gs resp err e)
    then show ?case using sent [OF sleep(2)] by (simp add: same_tables_def time_Sleep_def)
  next
    case (wake s fs job resp err gs)
    have "same_tables u (set_jobs c u)" "same_tables u (u\<lparr>queue_panic := p\<rparr>)" for c p and u :: "'a queue_env_scheme"
      by (simp_all add: same_tables_def set_jobs_def)
    then show ?case by (simp add: job_requeue_def job_failed_def Let_def upd split: prod.split chan_op.split)
  next
    case (offer s js job ks)
    have "same_tables u (set_jobs c u)" "same_tables u (u\<lparr>queue_panic := p\<rparr>)" for c p and u :: "'a queue_env_scheme"
      by (simp_all add: same_tables_def set_jobs_def)
    then show ?case by (simp add: enqueue_job_def upd split: prod.split chan_op.split)
  qed (auto simp: job_delivered_def job_failed_def dest!: sent intro: both)
qed

lemma worker_tokens: "worker_step x s t \<Longrightarrow> tokens_ok (qs_env s) \<Longrightarrow> tokens_ok (qs_env t)"
  using worker_same_tables [of x s t] by (simp add: same_tables_def tokens_ok_def)

subsection \<open>The alerts\<close>

lemma db_run_calm:
  assumes "\<And>u. alerts (snd (stmt u)) = alerts u" and "\<And>u. alert_rules (snd (stmt u)) = alert_rules u"
    and "\<And>u. faults (snd (stmt u)) = faults u" and "calm s"
  shows "calm (snd (db_run stmt s))"
  by (rule db_run_state [where P = calm])
    (use assms in \<open>simp_all add: calm_def reliable_def alerting_ok_def active_rows_def\<close>)

lemma calm_positions:
  "calm (s\<lparr>clock_pos := n\<rparr>) = calm s" "calm (s\<lparr>fault_pos := n\<rparr>) = calm s" "calm (t\<lparr>hub := h\<rparr>) = calm t"
  "calm (u\<lparr>evaluations := ps\<rparr>) = calm u" "calm (v\<lparr>net_pos := n, net_log := lg\<rparr>) = calm v"
  by (simp_all add: calm_def reliable_def alerting_ok_def active_rows_def)

text \<open>Every action of a request keeps that at most one alert is active for a rule and an agent.\<close>

lemma action_calm: "action s t \<Longrightarrow> calm s \<Longrightarrow> calm t"
proof (induction rule: action.induct)
  case (acknowledge s i u c)
  then show ?case using acknowledge_keeps_alerts by (auto simp: keeps_alerts_def)
next
  case (create_rule s rule)
  then show ?case using rules_keep_alerts(1) by (auto simp: keeps_alerts_def)
next
  case (update_rule s rule)
  then show ?case using rules_keep_alerts(2) by (auto simp: keeps_alerts_def)
next
  case (delete_rule s i)
  then show ?case using delete_rule_calm by blast
next
  case (store s t)
  then show ?case
    by (simp add: telemetry_Store_def db_run_calm insert_telemetry_def time_Now_def split: option.split)
next
  case (publish s e)
  then show ?case by (simp add: calm_positions Publish_def time_Now_def)
qed (simp_all add: calm_positions db_run_calm agent_Register_def upsert_agent_def alert_AddComment_def insert_comment_def
    notif_CreateChannel_def insert_channel_def notif_DeleteChannel_def delete_channel_def insert_token_def
    delete_token_def touch_token_def time_Now_def Let_def case_prod_beta split: sum.split)

end
