(* ===== verification/Queue_Restart.thy ===== *)
theory Queue_Restart
  imports Queue_System
begin

text \<open>
  Jobs live in memory and deliveries in the database, so a delivery can be pending with no job: one
  that was pending when the process stopped, or one whose insertion succeeded although its answer
  was lost.  Nothing in internal/notifications reads pending rows back into the queue.
\<close>

section \<open>A delivery without a job\<close>

definition orphaned :: "Delivery \<Rightarrow> 'a queue_sys \<Rightarrow> bool" where
  "orphaned d s \<longleftrightarrow> d \<in> set (deliveries s) \<and> de_ID d \<notin> jb_DeliveryID ` set (tokens s)"

lemma update_spares:
  "d \<in> set (notification_deliveries e) \<Longrightarrow> de_ID d \<noteq> i \<Longrightarrow>
   d \<in> set (notification_deliveries (snd (notif_UpdateDelivery i st a r m e)))"
  using UpdateDelivery_deliveries [of i st a r m e] by (auto simp: marked_def image_iff intro: bexI [of _ d])

text \<open>A step that only moves jobs about, or writes the outcome of another delivery, spares it.\<close>

lemma orphaned_moved:
  assumes "orphaned d s" and "set (deliveries s) \<subseteq> set (deliveries t)"
    and "jb_DeliveryID ` set (tokens t) \<subseteq> jb_DeliveryID ` set (tokens s)"
  shows "orphaned d t"
  using assms by (auto simp: orphaned_def)

lemma orphaned_updated:
  assumes "orphaned d s" and "qs_env t = snd (notif_UpdateDelivery (jb_DeliveryID j) st a r m e)"
    and "notification_deliveries e = deliveries s" and "j \<in> set (tokens s)"
    and "jb_DeliveryID ` set (tokens t) \<subseteq> jb_DeliveryID ` set (tokens s)"
  shows "orphaned d t"
proof -
  have "de_ID d \<noteq> jb_DeliveryID j" using assms(1,4) by (auto simp: orphaned_def)
  then have "d \<in> set (deliveries t)" using assms(1-3) by (simp add: orphaned_def deliveries_def update_spares)
  then show ?thesis using assms(1,5) by (auto simp: orphaned_def)
qed

lemma orphaned_worker: "worker_step x s t \<Longrightarrow> base_inv s \<Longrightarrow> orphaned d s \<Longrightarrow> orphaned d t"
proof (induction rule: worker_step.induct)
  case (take_job s job c)
  from take_job(4) show ?case by (rule orphaned_moved) (use chan_recv_val [OF take_job(2)] in \<open>auto simp: token_defs\<close>)
next
  case (delivered s fs job gs resp e)
  from delivered(4) show ?case
    by (rule orphaned_updated [where j = job and e = e and st = "''delivered''" and a = "jb_Attempt job" and r = resp and m = "''''"])
      (use delivered(1) job_send_result [OF delivered(2)] in \<open>auto simp: token_defs job_delivered_def\<close>)
next
  case (gave_up s fs job gs resp err e)
  from gave_up(5) show ?case
    by (rule orphaned_updated [where j = job and e = e and st = "''failed''" and a = "jb_Attempt job" and r = resp and m = err])
      (use gave_up(1) job_send_result [OF gave_up(2)] in \<open>auto simp: token_defs job_failed_def\<close>)
next
  case (sleep s fs job gs resp err e)
  from sleep(5) show ?case
    by (rule orphaned_moved) (use sleep(1) job_send_result [OF sleep(2)] in \<open>auto simp: token_defs\<close>)
next
  case (wake s fs job resp err gs)
  have ok: "queue_ok (qs_env s)" using wake by (simp add: base_inv_def)
  show ?case
  proof (cases "length (ch_buf (q_jobs (queue (qs_env s)))) < ch_cap (q_jobs (queue (qs_env s)))")
    case True
    from wake(3) show ?thesis
      by (rule orphaned_moved) (use wake(1) True ok in \<open>auto simp: token_defs job_requeue_cases chan_offer_buf\<close>)
  next
    case False
    from wake(3) show ?thesis
      by (rule orphaned_updated [where j = job and e = "qs_env s" and st = "''failed''" and a = "jb_Attempt job + 1" and r = resp
            and m = err])
        (use wake(1) False ok in \<open>auto simp: token_defs job_requeue_cases job_failed_def\<close>)
  qed
next
  case (offer s js job ks)
  have ok: "queue_ok (qs_env s)" using offer by (simp add: base_inv_def)
  show ?case
  proof (cases "length (ch_buf (q_jobs (queue (qs_env s)))) < ch_cap (q_jobs (queue (qs_env s)))")
    case True
    from offer(3) show ?thesis
      by (rule orphaned_moved) (use offer(1) True ok in \<open>auto simp: token_defs enqueue_job_cases chan_offer_buf\<close>)
  next
    case False
    from offer(3) show ?thesis
      by (rule orphaned_updated [where j = job and e = "qs_env s" and st = "''failed''" and a = 0 and r = 0 and m = "''queue full''"])
        (use offer(1) False ok in \<open>auto simp: token_defs enqueue_job_cases\<close>)
  qed
qed

text \<open>It stays as it is and without a job, until it is deleted.\<close>

lemma orphaned_step:
  assumes "queue_step x s t" and "base_inv s" and "orphaned d s"
  shows "orphaned d t \<or> d \<notin> set (deliveries t)"
proof (cases "worker_step x s t")
  case True
  then show ?thesis using orphaned_worker assms(2,3) by blast
next
  case False
  then have "env_step s t" using assms(1) by (simp add: queue_step_def)
  then show ?thesis using assms(3)
  proof (induction rule: env_step.induct)
    case (insert event a n ch s made e)
    have "de_ID d \<in> de_ID ` set (notification_deliveries (qs_env s))"
      using insert(2) by (simp add: orphaned_def deliveries_def)
    then have new: "i \<notin> de_ID ` set (notification_deliveries (qs_env s)) \<Longrightarrow> de_ID d \<noteq> i" for i by blast
    from insert(2) show ?case
      using queue_frames(1) [OF create_pending_same [OF insert(1)]]
      by (cases rule: create_pending_cases [OF insert(1)]) (auto simp: orphaned_def token_defs dest: new)
  next
    case (other s e P)
    then show ?case using queue_frames(1) [OF other(1)] by (auto simp: orphaned_def token_defs)
  qed
qed

end
