(* ===== verification/Server_Properties.thy ===== *)
theory Server_Properties
  imports Server_System Queue_Restart
begin

text \<open>
  What holds of the whole server: its invariants in every interleaving, the queue of notifications
  inside it, alerts when evaluations do not overlap, and what a request can reach without a token,
  without a role, or with a method that only reads.
\<close>

section \<open>The queue inside the server\<close>

lemma view_simps [simp]:
  "qs_env (queue_view s) = ss_env s" "qs_flight (queue_view s) = ss_flight s" "qs_offers (queue_view s) = ss_offers s"
  "queue_view (s\<lparr>ss_env := e\<rparr>) = (queue_view s)\<lparr>qs_env := e\<rparr>" "queue_view (s\<lparr>ss_limiter := rl\<rparr>) = queue_view s"
  "queue_view (s\<lparr>ss_env := e, ss_flight := fs, ss_offers := js\<rparr>) = \<lparr>qs_env = e, qs_flight = fs, qs_offers = js\<rparr>"
  "queue_view (s\<lparr>ss_env := e, ss_offers := js\<rparr>) = (queue_view s)\<lparr>qs_env := e, qs_offers := js\<rparr>"
  "queue_view (s\<lparr>ss_hub := t\<rparr>) = queue_view s"
  "sy_hub (hub_view s) = hub (ss_env s)" "hub_view (s\<lparr>ss_limiter := rl\<rparr>) = hub_view s"
  "hub_view (s\<lparr>ss_env := e\<rparr>) = (hub_view s)\<lparr>sy_hub := hub e\<rparr>"
  by (simp_all add: queue_view_def hub_view_def)

lemma other_env_step: "other_step (qs_env s) e \<Longrightarrow> env_step s (s\<lparr>qs_env := e\<rparr>)"
  unfolding other_step_def by (elim conjE exE) (rule env_step.other)

lemma engine_action_env_step: "engine_action (qs_env s) e \<Longrightarrow> env_step s (s\<lparr>qs_env := e\<rparr>)"
  by (intro other_env_step engine_action_other)

lemma fine_step_queue: "fine_step x F wk s t \<Longrightarrow> queue_step x (queue_view s) (queue_view t)"
proof (induction rule: fine_step.induct)
  case (act s e)
  then show ?case by (simp add: queue_step_def engine_action_env_step)
next
  case (admit s rl)
  have "queue_step x (queue_view s) ((queue_view s)\<lparr>qs_env := ss_env s\<rparr>)"
    unfolding queue_step_def by (intro disjI2 other_env_step) (simp add: other_refl)
  then show ?case by (simp add: queue_view_def)
next
  case (retain s)
  then show ?case by (simp add: queue_step_def other_env_step retention_other)
next
  case (insert event alertID n ch s made e)
  then show ?case using env_step.insert [of event alertID n ch "queue_view s" made e] by (simp add: queue_step_def)
next
  case (work s e fs js)
  then show ?case by (simp add: queue_step_def)
next
  case (distribute s t)
  have "env_step (queue_view s) ((queue_view s)\<lparr>qs_env := (ss_env s)\<lparr>hub := sy_hub t\<rparr>\<rparr>)"
    by (rule env_step.other [where P = "\<lambda>_. True"]) (simp_all add: same_queue_def)
  then show ?case by (simp add: queue_step_def)
qed

lemma fine_steps_queue: "(fine_step x F wk)\<^sup>*\<^sup>* s t \<Longrightarrow> (queue_step x)\<^sup>*\<^sup>* (queue_view s) (queue_view t)"
  by (induction rule: rtranclp_induct) (auto dest: fine_step_queue intro: rtranclp.rtrancl_into_rtrancl)

section \<open>The invariant of the server\<close>

definition server_inv :: "'a server_sys \<Rightarrow> bool" where
  "server_inv s \<longleftrightarrow>
     schema_ok (ss_env s) \<and> tokens_ok (ss_env s) \<and> base_inv (queue_view s) \<and>
     chans_inv (hub (ss_env s)) \<and> conns_inv (hub_view s)"

text \<open>
  A server that has just started on a database: whatever \<open>New\<close> makes, over tables that satisfy the
  schema, with valid roles and a truthful log of deliveries, which may hold pending ones.
\<close>

definition server_start :: "Config \<Rightarrow> 'a server_sys \<Rightarrow> bool" where
  "server_start cfg s \<longleftrightarrow>
     (\<exists>e. (ss_limiter s, ss_env s) = New_state cfg e) \<and> ss_flight s = [] \<and> ss_offers s = [] \<and> ss_hub s = hub_start \<and>
     schema_ok (ss_env s) \<and> tokens_ok (ss_env s) \<and>
     list_all (row_ok 3) (notification_deliveries (ss_env s))"

lemma server_start_inv: "server_start cfg s \<Longrightarrow> server_inv s"
proof -
  assume start: "server_start cfg s"
  then obtain e where "(ss_limiter s, ss_env s) = New_state cfg e" by (auto simp: server_start_def)
  then have env: "hub (ss_env s) = NewHub" "queue (ss_env s) = NewQueue 4 256 3 (10 * time_Second)" "\<not> queue_panic (ss_env s)"
    by (auto simp: New_state_def)
  then have hv: "hub_view s = hub_start" using start by (simp add: hub_view_def server_start_def hub_start_def)
  have "hub_inv hub_start" by (rule hub_start_inv)
  then have "chans_inv (hub (ss_env s))" "conns_inv (hub_view s)"
    by (simp_all add: hv hub_inv_def) (simp add: env hub_start_def)
  moreover have "base_inv (queue_view s)"
    using start by (auto simp: base_inv_def queue_ok_def env NewQueue_def make_chan_def max_tries_def server_start_def list_all_iff)
  ultimately show "server_inv s" using start by (simp add: server_inv_def server_start_def)
qed

lemma hub_offers_inv:
  "chans_inv h \<Longrightarrow> conns_inv (c\<lparr>sy_hub := h\<rparr>) \<Longrightarrow>
     chans_inv (fold hub_offer es h) \<and> conns_inv (c\<lparr>sy_hub := fold hub_offer es h\<rparr>)"
proof (induction es arbitrary: h)
  case (Cons e es)
  have "chans_inv (hub_offer e h)" using Cons.prems(1) by (simp add: chans_inv_def)
  moreover have "conns_inv (c\<lparr>sy_hub := hub_offer e h\<rparr>)" using Cons.prems(2) by (simp add: conns_inv_def)
  ultimately show ?case using Cons.IH by simp
qed simp

lemma create_pending_frames:
  "hub (snd (create_pending event alertID n ch s)) = hub s"
  "api_tokens (snd (create_pending event alertID n ch s)) = api_tokens s"
proof -
  have "hub (snd (notif_CreateDelivery d u)) = hub u \<and> api_tokens (snd (notif_CreateDelivery d u)) = api_tokens u"
    for d and u :: "'a queue_env_scheme"
    unfolding notif_CreateDelivery_def by (rule db_run_state) (simp_all add: insert_delivery_def time_Now_def Let_def)
  then show "hub (snd (create_pending event alertID n ch s)) = hub s"
    and "api_tokens (snd (create_pending event alertID n ch s)) = api_tokens s"
    by (simp_all add: create_pending_def time_Now_def case_prod_beta split: sum.split)
qed

lemma worker_step_hub: "worker_step x s t \<Longrightarrow> hub (qs_env t) = hub (qs_env s)"
  using worker_same_tables [of x s t] by (simp add: same_tables_def)

lemma retention_tokens: "api_tokens (runRetentionTask F wk s) = api_tokens s"
proof -
  have "api_tokens (snd (rollupHourly F s)) = api_tokens s" for s :: "'a db_env_scheme"
    unfolding rollupHourly_def by (rule db_run_state) (simp_all add: hourlyRollup_def time_Now_def split: option.split)
  moreover have "api_tokens (snd (purgeOldTelemetry wk s)) = api_tokens s" for s :: "'a db_env_scheme"
    unfolding purgeOldTelemetry_def time_Now_def prod.case by (rule db_run_state) simp_all
  ultimately show ?thesis by (simp add: runRetentionTask_def case_prod_beta)
qed

lemma other_hub:
  assumes "other_step e f" and "chans_inv (hub e)" and "conns_inv (c\<lparr>sy_hub := hub e\<rparr>)"
  shows "chans_inv (hub f) \<and> conns_inv (c\<lparr>sy_hub := hub f\<rparr>)"
  using assms hub_offers_inv unfolding other_step_def by metis

lemma act_hub:
  assumes "engine_action e f" and "chans_inv (hub e)" and "conns_inv (c\<lparr>sy_hub := hub e\<rparr>)"
  shows "chans_inv (hub f) \<and> conns_inv (c\<lparr>sy_hub := hub f\<rparr>)"
  by (rule other_hub [OF engine_action_other [OF assms(1)] assms(2,3)])

lemma fine_step_inv: "fine_step x F wk s t \<Longrightarrow> server_inv s \<Longrightarrow> server_inv t"
proof -
  assume step: "fine_step x F wk s t" and inv: "server_inv s"
  have "base_inv (queue_view t)"
    using fine_step_queue [OF step] inv queue_machine.step_inv by (auto simp: server_inv_def)
  with step inv show ?thesis
  proof (induction rule: fine_step.induct)
    case (act s e)
    then show ?case
      using act_hub [OF act(1), of "ss_hub s"] engine_action_schema [OF act(1)] engine_action_tokens [OF act(1)]
      by (simp add: server_inv_def hub_view_def)
  next
    case (retain s)
    then show ?case
      using other_hub [OF retention_other [of "ss_env s" F wk], of "ss_hub s"] runRetentionTask_schema [of "ss_env s" F wk]
        retention_tokens [of F wk "ss_env s"]
      by (simp add: server_inv_def tokens_ok_def hub_view_def)
  next
    case (insert event alertID n ch s made e)
    then have "e = snd (create_pending event alertID n ch (ss_env s))" by simp
    then show ?case
      using insert schema_create_pending [of "ss_env s" event alertID n ch]
        create_pending_frames [of event alertID n ch "ss_env s"]
      by (simp add: server_inv_def hub_view_def tokens_ok_def)
  next
    case (work s e fs js)
    then show ?case
      using worker_step_hub [OF work(1)] worker_schema [OF work(1)] worker_tokens [OF work(1)]
      by (simp add: server_inv_def hub_view_def)
  next
    case (distribute s t)
    then have "chans_inv (sy_hub t)" "conns_inv t"
      using hub_step_chans [OF distribute(1)] hub_step_conns [OF distribute(1)] by (simp_all add: server_inv_def)
    then show ?case using distribute by (simp add: server_inv_def hub_view_def tokens_ok_def)
  qed (simp add: server_inv_def)
qed

interpretation server_machine: invariant_system "server_start cfg" "fine_step x F wk" server_inv for cfg x F wk
  by unfold_locales (auto simp: server_start_inv fine_step_inv)


section \<open>Which requests reach which endpoint\<close>

lemma routes_shape:
  "list_all (\<lambda>rt. list_ex (\<lambda>me. rt_method rt = me) [None, GET, POST, PUT, DELETE]) server_routes"
  "list_all (\<lambda>rt. rt_method rt = None \<or> rt_method rt = GET \<longrightarrow>
     \<not> en_limited (rt_entry rt) \<and> read_only (en_endpoint (rt_entry rt))) server_routes"
  by code_simp+

lemma routes_unambiguous: "unambiguous server_routes"
  by code_simp

lemma reading_route:
  assumes "mux_find server_routes me segs = Some (e, binds)" and "me \<notin> {''POST'', ''PUT'', ''DELETE''}"
  shows "\<not> en_limited e" and "read_only (en_endpoint e)"
proof -
  obtain rt where rt: "rt \<in> set server_routes" "rt_entry rt = e" "method_matches (rt_method rt) me"
    using mux_find_Some [OF assms(1)] by blast
  then have "rt_method rt = None \<or> rt_method rt = GET"
    using routes_shape(1) assms(2) by (auto simp: list_all_iff method_matches_def GET_def POST_def PUT_def DELETE_def)
  then show "\<not> en_limited e" "read_only (en_endpoint e)"
    using routes_shape(2) rt by (auto simp: list_all_iff)
qed

lemma mux_reads:
  assumes "Method r \<notin> {''POST'', ''PUT'', ''DELETE''}"
  shows "\<exists>t. snd (mux X (New cfg) path w r (rl, s)) = (rl, t) \<and> reads s t"
proof (cases "cleanPath path = path \<and> mux_find server_routes (Method r) (path_segments path) \<noteq> None")
  case False
  then show ?thesis using reads_refl [of s] by (auto simp: mux_def mux_ServeHTTP_def Let_def split: option.split)
next
  case True
  then obtain e binds where find: "mux_find server_routes (Method r) (path_segments path) = Some (e, binds)" by auto
  let ?r = "r\<lparr>PathValue := bound_value binds\<rparr>"
  note route = reading_route [OF find assms]
  have run: "mux X (New cfg) path w r (rl, s) = entry_handler X (New cfg) e w ?r (rl, s)"
    using True find by (simp add: mux_def mux_ServeHTTP_def)
  show ?thesis
  proof (cases rule: entry_cases [where X = X and v = "New cfg" and e = e and w = w and r = ?r and rl = rl and s = s])
    case (run rl' u)
    then show ?thesis
      using route endpoint_reads [OF route(2), of X cfg w ?r rl s] \<open>mux X _ path w r (rl, s) = _\<close> by auto
  next
    case (refuse w' rl' u)
    then show ?thesis using route \<open>mux X _ path w r (rl, s) = _\<close> by auto
  qed
qed

text \<open>
  C10: Only POST, PUT and DELETE write.  A request with any other method, whatever it asks for and
  whatever the database does, leaves every table, the hub, the queue and the limiter as they were;
  all it can change is when the token it came with was last used.
\<close>

theorem reading_requests_read:
  assumes "wi_Method m \<notin> {''POST'', ''PUT'', ''DELETE''}" and "v = New cfg"
    and "serve X v m (rl, s) = (w, (rl', t))"
  shows "rl' = rl \<and> only_last_use s t"
proof (cases "request_of m")
  case None
  then show ?thesis using assms(3) by (auto simp: serve_def intro: reads_only_last_use reads_refl)
next
  case (Some r)
  then have "Method r = wi_Method m" by (auto simp: request_of_def)
  show ?thesis
  proof (cases "Method r = ''OPTIONS''")
    case True
    then show ?thesis
      using assms(3) Some by (auto simp: serve_def server_Handler_def CORS_def Let_def intro: reads_only_last_use reads_refl split: if_splits)
  next
    case False
    obtain w1 q where q: "Method q = Method r" "serve X v m (rl, s) =
        Middleware (x_sha256 X) (srv_authenticator v) (mux X v (wi_Path m)) w1 q (rl, s)"
      using Some False by (rule serve_inner [where X = X and v = v and rl = rl and s = s])
    have out: "snd (Middleware (x_sha256 X) (srv_authenticator v) (mux X v (wi_Path m)) w1 q (rl, s)) = (rl', t)"
      using assms(3) by (simp add: q(2) [symmetric])
    have safe: "Method q \<notin> {''POST'', ''PUT'', ''DELETE''}" using assms(1) q(1) \<open>Method r = wi_Method m\<close> by simp
    have inner: "\<exists>u'. snd (mux X v (wi_Path m) w1 q' (rl, u)) = (rl, u') \<and> reads u u'" if "Method q' = Method q" for q' u
      using mux_reads [of q' X cfg "wi_Path m" w1 rl u] safe that assms(2) by simp
    show ?thesis
    proof (cases rule: Middleware_cases [where sha = "x_sha256 X" and a = "srv_authenticator v" and
          next_h = "mux X v (wi_Path m)" and w = w1 and r = q and rl = rl and s = s])
      case (open_door r')
      then obtain u' where "snd (mux X v (wi_Path m) w1 r' (rl, s)) = (rl, u')" "reads s u'" using inner by blast
      then show ?thesis using out open_door(4) by (simp add: reads_only_last_use)
    next
      case (pass k raw u)
      let ?q = "q\<lparr>ctx_role := Some (tk_Role k), ctx_token := Some (tk_ID k)\<rparr>"
      obtain u' where "snd (mux X v (wi_Path m) w1 ?q (rl, u)) = (rl, u')" "reads u u'" using inner [of ?q u] by auto
      then show ?thesis using out pass(8) only_last_use_trans [OF pass(7) reads_only_last_use] by auto
    next
      case (refuse w' u)
      then show ?thesis using out by (simp add: reads_only_last_use)
    qed
  qed
qed


text \<open>The branches of the mux.\<close>

lemma mux_found:
  assumes "cleanPath path = path" and "mux_find server_routes (Method r) (path_segments path) = Some (e, binds)"
  shows "mux X v path w r st = entry_handler X v e w (r\<lparr>PathValue := bound_value binds\<rparr>) st"
  using assms by (simp add: mux_def mux_ServeHTTP_def)

lemma mux_missed:
  assumes "cleanPath path \<noteq> path \<or> mux_find server_routes (Method r) (path_segments path) = None" and "status w = None"
  shows "\<exists>w'. mux X v path w r st = (w', st) \<and> (status w' = Some 301 \<or> status w' = Some 404 \<or> status w' = Some 405)"
  using assms by (auto simp: mux_def mux_ServeHTTP_def Let_def Redirect_def http_defs)

text \<open>
  C3: A role is needed.  With authentication on, a request for a route that is guarded by a role
  and that carries no live token whose role permits it is answered with 401, 403, 429 or 500, and
  changes nothing but when a token was last used (a live token whose role is too low is marked as
  used), even on the paths that skip authentication.
\<close>

theorem access_control:
  assumes "cf_APIAuthEnabled cfg" and "v = New cfg" and "request_of m = Some r" and "wi_Method m \<noteq> ''OPTIONS''"
    and "cleanPath (wi_Path m) = wi_Path m"
    and "mux_find server_routes (wi_Method m) (path_segments (wi_Path m)) = Some (e, binds)" and "en_role e = Some role"
    and "\<And>k raw. k \<in> set (api_tokens s) \<Longrightarrow> wi_Header_Get m ''Authorization'' = ''Bearer '' @ raw \<Longrightarrow>
      tk_TokenHash k = token_hash (x_sha256 X) raw \<Longrightarrow> token_alive (clock s (clock_pos s)) k \<Longrightarrow>
      \<not> hasPermission (tk_Role k) role"
    and "serve X v m (rl, s) = (w, (rl', t))"
  shows "status w \<in> {Some 401, Some 403, Some 429, Some 500} \<and> only_last_use s t"
proof -
  have r: "Method r = wi_Method m" "Header_Get r = wi_Header_Get m" using assms(3) by (auto simp: request_of_def)
  have "Method r \<noteq> ''OPTIONS''" using assms(4) r(1) by simp
  with assms(3) obtain w1 q where q: "status w1 = None" "Method q = Method r" "Header_Get q = Header_Get r" "ctx_role q = None"
      "serve X v m (rl, s) = Middleware (x_sha256 X) (srv_authenticator v) (mux X v (wi_Path m)) w1 q (rl, s)"
    by (rule serve_inner [where X = X and v = v and rl = rl and s = s])
  have on: "au_authEnabled (srv_authenticator v)" by (simp add: assms(1,2))
  have guarded: "(status w' = Some 403 \<or> status w' = Some 429) \<and> reads u t'"
    if "mux X v (wi_Path m) w1 p (rl, u) = (w', (rl', t'))" "Method p = Method q"
      "\<nexists>own. ctx_role p = Some own \<and> hasPermission own role" for w' p u t'
  proof -
    let ?p = "p\<lparr>PathValue := bound_value binds\<rparr>"
    have run: "entry_handler X v e w1 ?p (rl, u) = (w', (rl', t'))"
      using that(1) mux_found [OF assms(5), of p e binds X v w1 "(rl, u)"] assms(6) that(2) q(2) r(1) by simp
    show ?thesis
    proof (cases rule: entry_cases [where X = X and v = v and e = e and w = w1 and r = ?p and rl = rl and s = u])
      case (run rl2 u2)
      then show ?thesis using assms(7) that(3) by simp
    next
      case (refuse w2 rl2 u2)
      then show ?thesis using run q(1) by auto
    qed
  qed
  show ?thesis
  proof (cases rule: Middleware_cases [where sha = "x_sha256 X" and a = "srv_authenticator v" and
        next_h = "mux X v (wi_Path m)" and w = w1 and r = q and rl = rl and s = s])
    case (open_door r')
    then have "r' = q" using on by simp
    then have "mux X v (wi_Path m) w1 q (rl, s) = (w, (rl', t))" using open_door(4) q(5) assms(9) by simp
    from guarded [OF this] show ?thesis using q(4) by (auto intro: reads_only_last_use)
  next
    case (pass k raw u)
    let ?p = "q\<lparr>ctx_role := Some (tk_Role k), ctx_token := Some (tk_ID k)\<rparr>"
    have "mux X v (wi_Path m) w1 ?p (rl, u) = (w, (rl', t))" using pass(8) q(5) assms(9) by simp
    moreover have "\<not> hasPermission (tk_Role k) role"
      using assms(8) [OF pass(2) _ pass(4,5)] pass(3) q(3) r(2) by simp
    ultimately show ?thesis
      using guarded [of ?p u w t] only_last_use_trans [OF pass(7) reads_only_last_use] by auto
  next
    case (refuse w' u)
    then show ?thesis using q(1,5) assms(9) by (auto intro: reads_only_last_use)
  qed
qed

text \<open>Which patterns can have produced a decoded path.\<close>

fun pattern_fits :: "segment list \<Rightarrow> string \<Rightarrow> bool" where
  "pattern_fits [] u \<longleftrightarrow> u = ''''"
| "pattern_fits (Lit l # ps) u \<longleftrightarrow> HasPrefix u (CHR ''/'' # l) \<and> pattern_fits ps (drop (Suc (length l)) u)"
| "pattern_fits (Wild n # ps) u \<longleftrightarrow> HasPrefix u ''/''"

lemma match_fits: "match_segments ps segs = Some binds \<Longrightarrow> pattern_fits ps (slashed segs)"
  by (induction ps segs arbitrary: binds rule: match_segments.induct)
    (auto simp: slashed_def HasPrefix_def split: if_splits)

lemma public_routes:
  "list_all (\<lambda>rt. pattern_fits (rt_path rt) ''/health'' \<or> pattern_fits (rt_path rt) ''/api/v1/events'' \<longrightarrow>
     rt_entry rt = \<lparr>en_limited = False, en_role = None, en_endpoint = E_health\<rparr> \<or>
     rt_entry rt = \<lparr>en_limited = False, en_role = None, en_endpoint = E_events\<rparr>) server_routes"
  by code_simp


lemma public_endpoints:
  assumes "mux_find server_routes me (path_segments p) = Some (e, binds)" and "cleanPath p = p"
    and "path_unescape p = Some u" and "public_path u"
  shows "e = \<lparr>en_limited = False, en_role = None, en_endpoint = E_health\<rparr> \<or>
    e = \<lparr>en_limited = False, en_role = None, en_endpoint = E_events\<rparr>"
proof -
  obtain rt where rt: "rt \<in> set server_routes" "rt_entry rt = e" "match_segments (rt_path rt) (path_segments p) = Some binds"
    using mux_find_Some [OF assms(1)] by blast
  have "pattern_fits (rt_path rt) u"
    using match_fits [OF rt(3)] unescaped_segments [OF assms(3) clean_rooted [OF assms(2)]] by simp
  then show ?thesis using public_routes rt(1,2) assms(4) by (auto simp: list_all_iff public_path_def)
qed

lemma public_answers:
  assumes "e = \<lparr>en_limited = False, en_role = None, en_endpoint = E_health\<rparr> \<or>
      e = \<lparr>en_limited = False, en_role = None, en_endpoint = E_events\<rparr>" and "status w = None"
  shows "\<exists>w' t. entry_handler X v e w r (rl, s) = (w', (rl, t)) \<and> reads s t \<and>
    (status w' = Some 200 \<or> status w' = Some 503 \<or> status w' = Some 405)"
proof -
  have "reads s (s\<lparr>fault_pos := Suc (fault_pos s)\<rparr>)" by (simp add: reading)
  then show ?thesis
    using assms
    by (auto simp: entry_handler_def lift_handler_def case_prod_beta health_Handler_result events_ServeHTTP_def
        sse_open_def sse_headers_def http_defs reads_refl)
qed


text \<open>With authentication off a request goes to the route that matches it, whoever sends it.\<close>

lemma open_route:
  assumes "\<not> cf_APIAuthEnabled cfg" and "v = New cfg" and "request_of m = Some r" and "wi_Method m \<noteq> ''OPTIONS''"
    and "cleanPath (wi_Path m) = wi_Path m"
    and "rt \<in> set server_routes" and "method_matches (rt_method rt) (wi_Method m)"
    and "match_segments (rt_path rt) (path_segments (wi_Path m)) = Some binds"
  obtains w1 i where "status w1 = None" "serve X v m (rl, s) = entry_handler X v (rt_entry rt) w1
      (r\<lparr>ctx_request_id := Some i, ctx_role := Some RoleAdmin, PathValue := bound_value binds\<rparr>) (rl, s)"
proof -
  have r: "Method r = wi_Method m" using assms(3) by (auto simp: request_of_def)
  have "Method r \<noteq> ''OPTIONS''" using assms(4) r(1) by simp
  with assms(3) obtain w1 q i where q: "status w1 = None" "Method q = Method r"
      "serve X v m (rl, s) = Middleware (x_sha256 X) (srv_authenticator v) (mux X v (wi_Path m)) w1 q (rl, s)"
      "q = r\<lparr>ctx_request_id := Some i\<rparr>"
    by (rule serve_inner [where X = X and v = v and rl = rl and s = s])
  let ?q = "q\<lparr>ctx_role := Some RoleAdmin\<rparr>"
  have find: "mux_find server_routes (Method ?q) (path_segments (wi_Path m)) = Some (rt_entry rt, binds)"
    using unambiguous_unique [OF routes_unambiguous assms(6,7,8)] q(2) r by simp
  have "serve X v m (rl, s) = mux X v (wi_Path m) w1 ?q (rl, s)"
    using q(3) assms(1,2) by (simp add: Middleware_def)
  also have "\<dots> = entry_handler X v (rt_entry rt) w1 (?q\<lparr>PathValue := bound_value binds\<rparr>) (rl, s)"
    by (rule mux_found [OF assms(5) find])
  finally show thesis unfolding q(4) using q(1) by (intro that) simp_all
qed

text \<open>
  C15: Every registered endpoint is reached, whatever the order of registration.  A request that one
  of the patterns matches, on a clean path, is answered by the handler of this pattern with the
  values of its wildcards; with authentication off and no limit, this holds for all 31 patterns,
  the guarded ones included, since everyone is an administrator then.
\<close>

theorem every_route_answers:
  assumes "\<not> cf_APIAuthEnabled cfg" and "v = New cfg" and "request_of m = Some r" and "wi_Method m \<noteq> ''OPTIONS''"
    and "cleanPath (wi_Path m) = wi_Path m" and "limit rl \<le> 0"
    and "rt \<in> set server_routes" and "method_matches (rt_method rt) (wi_Method m)"
    and "match_segments (rt_path rt) (path_segments (wi_Path m)) = Some binds"
  shows "\<exists>w1 i. status w1 = None \<and> serve X v m (rl, s) =
    endpoint_handler X v (en_endpoint (rt_entry rt)) w1
      (r\<lparr>ctx_request_id := Some i, ctx_role := Some RoleAdmin, PathValue := bound_value binds\<rparr>) (rl, s)"
proof (rule open_route [OF assms(1-5,7-9), where X = X and rl = rl and s = s])
  fix w1 i
  let ?r = "r\<lparr>ctx_request_id := Some i, ctx_role := Some RoleAdmin, PathValue := bound_value binds\<rparr>"
  assume "status w1 = None" and "serve X v m (rl, s) = entry_handler X v (rt_entry rt) w1 ?r (rl, s)"
  moreover have "entry_handler X v (rt_entry rt) w1 ?r (rl, s) = endpoint_handler X v (en_endpoint (rt_entry rt)) w1 ?r (rl, s)"
    using assms(6) by (simp add: entry_handler_def Limit_def RequireRole_def hasPermission_def Let_def split: option.split)
  ultimately show ?thesis by auto
qed

section \<open>The server as it runs\<close>

text \<open>The dimensions of the queue are those \<open>New\<close> gives it, in every state.\<close>

definition dims :: "'a queue_env_scheme \<Rightarrow> int \<times> nat \<times> nat" where
  "dims e = (q_maxRetries (queue e), q_workerCount (queue e), ch_cap (q_jobs (queue e)))"

lemma queue_step_dims: "queue_step x s t \<Longrightarrow> base_inv s \<Longrightarrow> dims (qs_env t) = dims (qs_env s)"
proof -
  have worker: "worker_step x s t \<Longrightarrow> base_inv s \<Longrightarrow> dims (qs_env t) = dims (qs_env s)"
  proof (induction rule: worker_step.induct)
    case (take_job s job c)
    then show ?case using chan_recv_val_cap by (fastforce simp: dims_def)
  next
    case (delivered s fs job gs resp e)
    then show ?case using job_send_result(1) [OF delivered(2)] by (simp add: dims_def queue_frames)
  next
    case (gave_up s fs job gs resp err e)
    then show ?case using job_send_result(1) [OF gave_up(2)] by (simp add: dims_def queue_frames)
  next
    case (sleep s fs job gs resp err e)
    then show ?case using job_send_result(1) [OF sleep(2)] by (simp add: dims_def)
  next
    case (wake s fs job resp err gs)
    then show ?case by (simp add: dims_def queue_frames base_inv_def)
  next
    case (offer s js job ks)
    then show ?case by (simp add: dims_def enqueue_job_frames base_inv_def)
  qed
  have env: "env_step s t \<Longrightarrow> base_inv s \<Longrightarrow> dims (qs_env t) = dims (qs_env s)"
  proof (induction rule: env_step.induct)
    case (insert event a n ch s made e)
    then show ?case using create_pending_same [OF insert(1)] by (simp add: dims_def queue_frames)
  next
    case (other s e P)
    then show ?case by (simp add: dims_def queue_frames)
  qed
  show "queue_step x s t \<Longrightarrow> base_inv s \<Longrightarrow> ?thesis" using worker env by (auto simp: queue_step_def)
qed

lemma server_dims:
  assumes "server_start cfg s0" and "(fine_step x F wk)\<^sup>*\<^sup>* s0 s"
  shows "dims (ss_env s) = (3, 4, 256)"
  using assms(2)
proof (induction rule: rtranclp_induct)
  case base
  obtain e where "(ss_limiter s0, ss_env s0) = New_state cfg e" using assms(1) by (auto simp: server_start_def)
  then show ?case by (auto simp: New_state_def dims_def NewQueue_def make_chan_def)
next
  case (step u t)
  have "server_inv u" by (rule server_machine.reachable_inv [OF assms(1) step(1)])
  then show ?case
    using queue_step_dims [OF fine_step_queue [OF step(2)]] step(3) by (simp add: server_inv_def)
qed

text \<open>
  C4: The server is safe.  However the actions of any number of requests and evaluations, the
  retention worker, the delivery workers and the goroutines of the hub interleave, and whatever
  the database and the network do: nothing is sent on a closed channel, the queue holds at most 256
  jobs and at most 4 workers are busy, the hub's channels stay within their buffers, keys and
  references of the schema hold, ids, hashes and roles of the tokens are valid, and every delivery
  row is pending and untried, or delivered or failed after at most 3 attempts.
\<close>

theorem server_safe:
  assumes "server_start cfg s0" and "(fine_step x F wk)\<^sup>*\<^sup>* s0 s"
  shows "\<not> queue_panic (ss_env s) \<and> \<not> sy_panic (ss_hub s) \<and>
    length (ch_buf (q_jobs (queue (ss_env s)))) \<le> 256 \<and> length (ss_flight s) \<le> 4 \<and>
    length (ch_buf (hb_register (hub (ss_env s)))) \<le> 64 \<and> length (ch_buf (hb_unregister (hub (ss_env s)))) \<le> 64 \<and>
    length (ch_buf (hb_broadcast (hub (ss_env s)))) \<le> 256 \<and>
    schema_ok (ss_env s) \<and> tokens_ok (ss_env s) \<and> list_all (row_ok 3) (notification_deliveries (ss_env s))"
proof -
  have inv: "server_inv s" by (rule server_machine.reachable_inv [OF assms])
  have "dims (ss_env s) = (3, 4, 256)" by (rule server_dims [OF assms])
  then have "\<not> queue_panic (ss_env s) \<and> length (ch_buf (q_jobs (queue (ss_env s)))) \<le> 256 \<and> length (ss_flight s) \<le> 4 \<and>
      list_all (row_ok 3) (notification_deliveries (ss_env s))"
    using inv by (auto simp: server_inv_def base_inv_def queue_ok_def dims_def list_all_iff)
  moreover have "\<not> sy_panic (ss_hub s)" using inv by (simp add: server_inv_def conns_inv_def hub_view_def)
  ultimately show ?thesis using inv by (simp add: server_inv_def chans_inv_def chan_of_def)
qed

text \<open>
  C21: A restart forgets what was pending.  A delivery that is in the table when the server starts
  has no job and never gets one: its row stays exactly as it is, pending if it was pending, in
  every state that is reached before the row itself is deleted.
\<close>

theorem restart_forgets_pending:
  assumes "server_start cfg s0" and "d \<in> set (notification_deliveries (ss_env s0))"
    and "(fine_step x F wk)\<^sup>*\<^sup>* s0 s"
  shows "orphaned d (queue_view s) \<or>
    (\<exists>u. (fine_step x F wk)\<^sup>*\<^sup>* s0 u \<and> (fine_step x F wk)\<^sup>*\<^sup>* u s \<and> d \<notin> set (notification_deliveries (ss_env u)))"
  using assms(3)
proof (induction rule: rtranclp_induct)
  case base
  obtain e where "(ss_limiter s0, ss_env s0) = New_state cfg e" "ss_flight s0 = []" "ss_offers s0 = []"
    using assms(1) by (auto simp: server_start_def)
  then have "tokens (queue_view s0) = []" by (auto simp: token_defs New_state_def NewQueue_def make_chan_def)
  then show ?case using assms(2) by (simp add: orphaned_def deliveries_def)
next
  case (step u t)
  show ?case
  proof (cases "orphaned d (queue_view u)")
    case True
    have "base_inv (queue_view u)"
      using server_machine.reachable_inv [OF assms(1) step(1)] by (simp add: server_inv_def)
    from orphaned_step [OF fine_step_queue [OF step(2)] this True]
    have "orphaned d (queue_view t) \<or> d \<notin> set (notification_deliveries (ss_env t))" by (simp add: deliveries_def)
    moreover have "(fine_step x F wk)\<^sup>*\<^sup>* s0 t" using step(1,2) by (rule rtranclp.rtrancl_into_rtrancl)
    ultimately show ?thesis by blast
  next
    case False
    then show ?thesis using step(2,3) by (meson rtranclp.rtrancl_into_rtrancl)
  qed
qed

text \<open>
  C11: The delivery workers always come to an end.  From no state of the server can they, and the
  offers that are under way, take infinitely many steps by themselves: every job is given up after
  its third attempt.
\<close>

theorem deliveries_terminate:
  assumes "server_start cfg s0" and "(fine_step x F wk)\<^sup>*\<^sup>* s0 s" and "f 0 = queue_view s"
  shows "\<exists>i. \<not> worker_step x (f i) (f (Suc i))"
proof (rule ccontr)
  assume "\<nexists>i. \<not> worker_step x (f i) (f (Suc i))"
  then have run: "(worker_step x ^^ n) (f 0) (f n)" for n by (induction n) auto
  have "base_inv (f 0)" using server_machine.reachable_inv [OF assms(1,2)] assms(3) by (simp add: server_inv_def)
  from worker_steps_work [OF run [of "Suc (work (f 0))"] this] show False by simp
qed


section \<open>Alerts under the whole server\<close>

lemma retention_calm: "calm s \<Longrightarrow> calm (runRetentionTask F wk s)"
proof -
  assume "calm s"
  then have "calm (snd (rollupHourly F s))"
    unfolding rollupHourly_def by (intro db_run_calm) (simp_all add: hourlyRollup_def time_Now_def split: option.split)
  then have "calm (snd (purgeOldTelemetry wk (snd (rollupHourly F s))))"
    unfolding purgeOldTelemetry_def time_Now_def prod.case by (intro db_run_calm) (simp_all add: calm_positions)
  then show ?thesis by (simp add: runRetentionTask_def case_prod_beta)
qed

lemma acts_calm: "acts s t \<Longrightarrow> calm s \<Longrightarrow> calm t"
  by (induction rule: rtranclp_induct) (auto intro: action_calm)

lemma server_step_calm:
  assumes "server_step x F v s t" and "v = New cfg" and "calm (ss_env s)"
  shows "calm (ss_env t)"
  using assms(1)
proof (cases rule: server_step.cases)
  case (request X m w rl e)
  then show ?thesis using acts_calm [OF serve_acts [OF request(2) assms(2)] assms(3)] by simp
next
  case (evaluation i)
  have "calm (ss_env s\<lparr>evaluations := ps\<rparr>)" for ps using assms(3) by (simp add: calm_positions)
  then show ?thesis
    using evaluation assms(3) evaluations_keep_alerts(1) by (auto simp: run_evaluation_def keeps_alerts_def)
next
  case retention
  then show ?thesis using retention_calm assms(3) by simp
next
  case (worker e fs)
  then show ?thesis
    using worker_same_tables [OF worker(2)] calm_same [of e "ss_env s"] assms(3) by (simp add: same_tables_def)
next
  case (hub_run u)
  then show ?thesis using assms(3) by (simp add: calm_positions)
qed

interpretation alerting_machine: invariant_system "\<lambda>s. calm (ss_env s) \<and> v = New cfg" "server_step x F v"
  "\<lambda>s. calm (ss_env s) \<and> v = New cfg" for v cfg x F
  by unfold_locales (use server_step_calm in blast)+

text \<open>
  C1: At most one alert is active in the whole server.  Whatever requests arrive and whatever the
  workers do, with a working database and evaluations that run one after the other, a rule never
  has two alerts that are firing or acknowledged for the same agent.
\<close>

theorem server_one_active_alert:
  assumes "calm (ss_env s0)" and "v = New cfg" and "(server_step x F v)\<^sup>*\<^sup>* s0 s"
  shows "length (active_rows ruleID agentID (ss_env s)) \<le> 1"
  using alerting_machine.reachable_inv [of s0 v cfg x F s] assms by (simp add: calm_def alerting_ok_def)

section \<open>A server on a small database\<close>

definition demo_cfg :: Config where
  "demo_cfg = \<lparr>cf_Host = ''0.0.0.0'', cf_Port = ''8080'', cf_DatabaseURL = ''db'', cf_HealthyThreshold = 30 * time_Second,
     cf_StaleThreshold = 2 * time_Minute, cf_CORSOrigins = ''*'', cf_RateLimitRequestsPerMin = 0,
     cf_TelemetryRetentionDays = 30, cf_APIAuthEnabled = True\<rparr>"

definition demo_left :: Delivery where
  "demo_left = demo_failed\<lparr>de_ID := ''del-left'', de_Status := ''pending'', de_Attempts := 0, de_ResponseStatus := 0\<rparr>"

definition demo_db :: telemetry_env where
  "demo_db = (telemetry_start [])\<lparr>alert_rules := [demo_rule],
     alerts := [demo_alert\<lparr>ar_rule_id := ''rule-cpu-high'', ar_agent_id := ''a1''\<rparr>],
     notification_channels := [demo_channel], notification_deliveries := [demo_left], api_tokens := [demo_tok]\<rparr>"

definition demo_server :: "unit server_sys" where
  "demo_server = \<lparr>ss_limiter = fst (New_state demo_cfg demo_db), ss_env = snd (New_state demo_cfg demo_db),
     ss_flight = [], ss_offers = [], ss_hub = hub_start\<rparr>"

definition demo_externals :: externals where
  "demo_externals = \<lparr>x_registration = (\<lambda>_. (\<lparr>rg_ID = ''a2'', rg_Name = ''n'', rg_Hostname = ''h'', rg_OS = ''linux'',
       rg_Arch = ''amd64'', rg_Version = ''1''\<rparr>, False)),
     x_telemetry = (\<lambda>_. (demo_cpu 95, False)), x_ack = (\<lambda>_. (\<lparr>ack_User = '''', ack_Comment = ''''\<rparr>, True)),
     x_comment = (\<lambda>_. (\<lparr>cmr_AuthorID = '''', cmr_Comment = ''ok''\<rparr>, False)), x_rule = (\<lambda>_. (demo_rule, False)),
     x_channel = (\<lambda>_. (\<lparr>cr_Name = ''ops'', cr_Type = '''', cr_URL = ''http://h'', cr_Secret = '''', cr_Enabled = None\<rparr>, False)),
     x_token = (\<lambda>_. (\<lparr>ct_Name = ''ci'', ct_Role = ''''\<rparr>, False)),
     x_url_Parse = (\<lambda>u. Some (''http'', ''h'', u)), x_url_String = id, x_time_Parse = (\<lambda>_. None),
     x_provider = demo_ext, x_sha256 = demo_sha, x_entropy = ''xyz'', x_request_id = ''0011'', x_conv = (\<lambda>_. 0),
     x_uconv = (\<lambda>_. 0), x_names = [''from'', ''to'']\<rparr>"

definition demo_wire :: "string \<Rightarrow> string \<Rightarrow> wire" where
  "demo_wire me path = \<lparr>wi_Method = me, wi_Path = path, wi_RemoteAddr = ''10.0.0.1:5000'', wi_Header_Get = (\<lambda>_. ''''),
     wi_Query_Get = (\<lambda>_. ''''), wi_Body = ''''\<rparr>"

definition demo_answer :: "string \<Rightarrow> string \<Rightarrow> server_json response \<times> (limiter \<times> telemetry_env)" where
  "demo_answer me path =
     serve demo_externals (New demo_cfg) (demo_wire me path) (ss_limiter demo_server, ss_env demo_server)"

definition demo_served :: "unit server_sys" where
  "demo_served = demo_server\<lparr>ss_env := snd (snd (demo_answer ''POST'' ''/api/v1/alert-rules'')),
     ss_limiter := fst (snd (demo_answer ''POST'' ''/api/v1/alert-rules''))\<rparr>"

lemma demo_server_start: "server_start demo_cfg demo_server"
  unfolding server_start_def
proof (intro conjI exI [of _ demo_db])
  show "schema_ok (ss_env demo_server)" "tokens_ok (ss_env demo_server)"
    by (simp_all add: demo_server_def New_state_def demo_db_def telemetry_start_def schema_defs demo_alert_def demo_rule_def
        demo_left_def demo_failed_def demo_channel_def demo_tok_def tokens_ok_def Role_IsValid_def role_defs)
  show "list_all (row_ok 3) (notification_deliveries (ss_env demo_server))"
    by (simp add: demo_server_def New_state_def demo_db_def demo_left_def demo_failed_def row_ok_def)
qed (simp_all add: demo_server_def)

lemma demo_served_step: "server_step x F (New demo_cfg) demo_server demo_served"
proof -
  obtain w rl e where "demo_answer ''POST'' ''/api/v1/alert-rules'' = (w, (rl, e))" by (metis surj_pair)
  then show ?thesis
    using server_step.request [of demo_externals "New demo_cfg" "demo_wire ''POST'' ''/api/v1/alert-rules''" demo_server w rl e x F]
    by (simp add: demo_served_def demo_answer_def)
qed

lemma demo_server_reach: "(fine_step x F (srv_retention (New demo_cfg :: telemetry_env server)))\<^sup>*\<^sup>* demo_server demo_served"
  by (rule server_step_fine [OF demo_served_step refl])

lemma demo_request: "request_of (demo_wire me path) = map_option (\<lambda>u.
     \<lparr>Method = me, URL_Path = u, RemoteAddr = ''10.0.0.1:5000'', Header_Get = (\<lambda>_. ''''), PathValue = (\<lambda>_. ''''),
      Query_Get = (\<lambda>_. ''''), Body = '''', ctx_role = None, ctx_token = None, ctx_request_id = None\<rparr>) (path_unescape path)"
  by (simp add: request_of_def demo_wire_def)

theorem server_safe_witness:
  "\<not> queue_panic (ss_env demo_served) \<and> \<not> sy_panic (ss_hub demo_served) \<and> schema_ok (ss_env demo_served) \<and>
   tokens_ok (ss_env demo_served) \<and> length (ss_flight demo_served) \<le> 4"
  using server_safe [OF demo_server_start demo_server_reach [of demo_ext demo_sql]] by blast

theorem restart_forgets_pending_witness:
  "orphaned demo_left (queue_view demo_served) \<or>
    (\<exists>u. (fine_step demo_ext demo_sql (srv_retention (New demo_cfg :: telemetry_env server)))\<^sup>*\<^sup>* demo_server u \<and>
       (fine_step demo_ext demo_sql (srv_retention (New demo_cfg :: telemetry_env server)))\<^sup>*\<^sup>* u demo_served \<and>
       demo_left \<notin> set (notification_deliveries (ss_env u)))"
  by (rule restart_forgets_pending [OF demo_server_start _ demo_server_reach])
    (simp add: demo_server_def New_state_def demo_db_def)

theorem server_one_active_alert_witness:
  "length (active_rows ''rule-cpu-high'' ''a1'' (ss_env demo_served)) \<le> 1"
proof -
  have "calm (ss_env demo_server)"
    by (simp add: calm_def reliable_def alerting_ok_def active_rows_def demo_server_def New_state_def demo_db_def
        telemetry_start_def demo_alert_def demo_rule_def)
  then show ?thesis
    using server_one_active_alert [OF _ refl, of demo_server demo_ext demo_sql demo_cfg demo_served]
      r_into_rtranclp [of "server_step demo_ext demo_sql (New demo_cfg)", OF demo_served_step] by blast
qed

theorem reading_requests_read_witness:
  "only_last_use (ss_env demo_server) (snd (snd (demo_answer ''GET'' ''/api/v1/tokens'')))"
proof -
  obtain w rl e where "demo_answer ''GET'' ''/api/v1/tokens'' = (w, (rl, e))" by (metis surj_pair)
  then show ?thesis
    using reading_requests_read [of "demo_wire ''GET'' ''/api/v1/tokens''" "New demo_cfg" demo_cfg demo_externals
        "ss_limiter demo_server" "ss_env demo_server" w rl e]
    by (simp add: demo_answer_def demo_wire_def)
qed

lemma demo_guarded:
  "mux_find server_routes ''POST'' (path_segments ''/api/v1/alert-rules'') =
     Some (\<lparr>en_limited = True, en_role = Some ''operator'', en_endpoint = E_CreateRule\<rparr>, [])"
  "cleanPath ''/api/v1/alert-rules'' = ''/api/v1/alert-rules''"
  "path_unescape ''/api/v1/alert-rules'' = Some ''/api/v1/alert-rules''"
  by code_simp+

theorem access_control_witness:
  "status (fst (demo_answer ''POST'' ''/api/v1/alert-rules'')) \<in> {Some 401, Some 403, Some 429, Some 500} \<and>
   only_last_use (ss_env demo_server) (snd (snd (demo_answer ''POST'' ''/api/v1/alert-rules'')))"
proof -
  let ?m = "demo_wire ''POST'' ''/api/v1/alert-rules''"
  obtain w rl e where "serve demo_externals (New demo_cfg) ?m (ss_limiter demo_server, ss_env demo_server) = (w, (rl, e))"
    by (metis surj_pair)
  moreover obtain r where "request_of ?m = Some r" by (simp add: demo_request demo_guarded)
  moreover have "wi_Method ?m \<noteq> ''OPTIONS''" "cleanPath (wi_Path ?m) = wi_Path ?m"
      "mux_find server_routes (wi_Method ?m) (path_segments (wi_Path ?m)) =
        Some (\<lparr>en_limited = True, en_role = Some ''operator'', en_endpoint = E_CreateRule\<rparr>, [])"
    by (simp_all add: demo_wire_def demo_guarded)
  moreover have "wi_Header_Get ?m h = ''''" for h by (simp add: demo_wire_def)
  moreover have "cf_APIAuthEnabled demo_cfg" by (simp add: demo_cfg_def)
  ultimately show ?thesis
    using access_control [of demo_cfg "New demo_cfg" ?m r "\<lparr>en_limited = True, en_role = Some ''operator'', en_endpoint = E_CreateRule\<rparr>"
        "[]" "''operator''" "ss_env demo_server" demo_externals "ss_limiter demo_server" w rl e]
    by (simp add: demo_answer_def)
qed


definition open_cfg :: Config where
  "open_cfg = demo_cfg\<lparr>cf_APIAuthEnabled := False\<rparr>"

lemma demo_wildcard:
  "cleanPath ''/api/v1/agents/a%2F1/health'' = ''/api/v1/agents/a%2F1/health''"
  "path_segments ''/api/v1/agents/a%2F1/health'' = [''api'', ''v1'', ''agents'', ''a/1'', ''health'']"
  "path_unescape ''/api/v1/agents/a%2F1/health'' = Some ''/api/v1/agents/a/1/health''"
  by code_simp+

text \<open>An agent id with an escaped slash is one segment for the router.\<close>

theorem every_route_answers_witness:
  "\<exists>w1 r. status w1 = None \<and> PathValue r ''id'' = ''a/1'' \<and>
     serve demo_externals (New open_cfg) (demo_wire ''GET'' ''/api/v1/agents/a%2F1/health'') (ss_limiter demo_server, ss_env demo_server) =
       endpoint_handler demo_externals (New open_cfg) E_Health w1 r (ss_limiter demo_server, ss_env demo_server)"
proof -
  let ?m = "demo_wire ''GET'' ''/api/v1/agents/a%2F1/health''"
  let ?rt = "HandleFunc GET (api [Lit ''agents'', Wild ''id'', Lit ''health'']) E_Health"
  obtain r where r: "request_of ?m = Some r" unfolding demo_request demo_wildcard by simp
  have "?rt \<in> set server_routes" by (simp add: server_routes_def)
  moreover have "method_matches (rt_method ?rt) (wi_Method ?m)"
      "match_segments (rt_path ?rt) (path_segments (wi_Path ?m)) = Some [(''id'', ''a/1'')]"
      "wi_Method ?m \<noteq> ''OPTIONS''" "cleanPath (wi_Path ?m) = wi_Path ?m"
    by (simp_all add: demo_wire_def demo_wildcard HandleFunc_def GET_def api_def method_matches_def)
  moreover have "limit (ss_limiter demo_server) \<le> 0"
    by (simp add: demo_server_def New_state_def NewRateLimiter_def demo_cfg_def)
  moreover have "\<not> cf_APIAuthEnabled open_cfg" by (simp add: open_cfg_def)
  ultimately obtain w1 i where "status w1 = None"
      "serve demo_externals (New open_cfg) ?m (ss_limiter demo_server, ss_env demo_server) =
        endpoint_handler demo_externals (New open_cfg) (en_endpoint (rt_entry ?rt)) w1
         (r\<lparr>ctx_request_id := Some i, ctx_role := Some RoleAdmin, PathValue := bound_value [(''id'', ''a/1'')]\<rparr>)
         (ss_limiter demo_server, ss_env demo_server)"
    using every_route_answers [OF _ refl r, of open_cfg "ss_limiter demo_server" ?rt "[(''id'', ''a/1'')]" demo_externals "ss_env demo_server"]
    by blast
  then show ?thesis
    by (intro exI [of _ w1] exI [of _ "r\<lparr>ctx_request_id := Some i, ctx_role := Some RoleAdmin, PathValue := bound_value [(''id'', ''a/1'')]\<rparr>"])
      (simp add: HandleFunc_def bound_value_def)
qed

end
