(* ===== verification/Server_Flow.thy ===== *)
theory Server_Flow
  imports Server_Properties
begin

text \<open>
  How deliveries and alerts move in the whole server: what is proved of the queue and of the alerts
  beside an arbitrary environment, stated of the server that is this environment.
\<close>

section \<open>Deliveries\<close>

lemma server_start_queue: "server_start cfg s \<Longrightarrow> queue_start (queue_view s)"
proof -
  assume start: "server_start cfg s"
  then obtain e where "(ss_limiter s, ss_env s) = New_state cfg e" by (auto simp: server_start_def)
  then have q: "queue (ss_env s) = NewQueue 4 256 3 (10 * time_Second)" "\<not> queue_panic (ss_env s)"
    by (auto simp: New_state_def)
  then have "max_tries (queue_view s) = 3" by (simp add: max_tries_def NewQueue_def)
  then show ?thesis
    using start q by (auto simp: queue_start_def server_start_def list_all_iff deliveries_def)
qed

lemma queue_steps_dims:
  "(queue_step x)\<^sup>*\<^sup>* s t \<Longrightarrow> base_inv s \<Longrightarrow> base_inv t \<and> dims (qs_env t) = dims (qs_env s)"
proof (induction rule: rtranclp_induct)
  case (step t u)
  then show ?case using queue_machine.step_inv queue_step_dims by metis
qed simp

lemma server_working:
  assumes "server_start cfg s0" and "(fine_step x F wk)\<^sup>*\<^sup>* s0 s" and "reliable (ss_env s)" and "net_int4 (ss_env s)"
  shows "working (queue_view s)"
  using server_dims [OF assms(1,2)] assms(3,4) by (simp add: working_def dims_def max_tries_def int4_def)

text \<open>
  C2: One job per pending delivery, in the whole server.  With a working database, HTTP statuses of 32
  bits and clock readings that give distinct ids, in every state of every interleaving, also between
  the insertion of a row and the offer of its job, a delivery that was not already pending when the
  server started is pending exactly when one job carries it (with the Enqueue that inserted it, in
  the channel of the queue, or with a worker), and then only one.  (A row that was pending at the
  start has no job: \<open>restart_forgets_pending\<close>.)
\<close>

theorem server_one_job_per_pending:
  assumes "server_start cfg s0" and "(fine_step x F wk)\<^sup>*\<^sup>* s0 s" and "reliable (ss_env s)"
    and "net_int4 (ss_env s)" and "distinct_readings (ss_env s)" and "d \<in> set (notification_deliveries (ss_env s))"
    and "de_ID d \<notin> pending_ids (ss_env s0)"
  shows "length (filter (\<lambda>j. jb_DeliveryID j = de_ID d) (tokens (queue_view s))) =
    (if de_Status d = ''pending'' then 1 else 0)"
  using one_job_per_pending [OF server_start_queue [OF assms(1)] fine_steps_queue [OF assms(2)]
      server_working [OF assms(1-4)]] assms(5-7)
  by (simp add: deliveries_def)

text \<open>
  C7: Every delivery is settled.  From every state the server reaches in any interleaving, with a
  working database and HTTP statuses of 32 bits, the workers and the offers that are under way take a
  bounded number of steps by themselves (\<open>work\<close> of the state) and come to a state in which they can
  do nothing more.  In every such state the channel is empty, no worker is busy and nothing is left to
  offer, every delivery row is pending and untried, or delivered after one to three attempts, or
  failed after at most three (none when the queue was full), and the only rows still pending are
  those that were pending already when the server started.
\<close>

theorem server_settles_deliveries:
  assumes "server_start cfg s0" and "(fine_step x F wk)\<^sup>*\<^sup>* s0 s" and "reliable (ss_env s)" and "net_int4 (ss_env s)"
  shows "(\<forall>n t. (worker_step x ^^ n) (queue_view s) t \<longrightarrow> n \<le> work (queue_view s)) \<and>
    (\<exists>t. (worker_step x)\<^sup>*\<^sup>* (queue_view s) t \<and> (\<nexists>u. worker_step x t u)) \<and>
    (\<forall>t. (worker_step x)\<^sup>*\<^sup>* (queue_view s) t \<longrightarrow> (\<nexists>u. worker_step x t u) \<longrightarrow>
       qs_buf t = [] \<and> qs_flight t = [] \<and> qs_offers t = [] \<and>
       list_all (row_ok 3) (notification_deliveries (qs_env t)) \<and>
       pending_ids (qs_env t) \<subseteq> pending_ids (ss_env s0))"
proof -
  note start = server_start_queue [OF assms(1)] and run = fine_steps_queue [OF assms(2)]
  note drains = queue_drains [OF start run server_working [OF assms]]
  have base: "base_inv (queue_view s)" by (rule queue_machine.reachable_inv [OF start run])
  have rows: "list_all (row_ok 3) (notification_deliveries (qs_env t))" if "(worker_step x)\<^sup>*\<^sup>* (queue_view s) t" for t
    using queue_steps_dims [OF worker_steps_queue_steps [OF that] base] server_dims [OF assms(1,2)]
    by (auto simp: base_inv_def queue_ok_def dims_def list_all_iff)
  show ?thesis
    using drains reaches_stuck [OF base, of x] rows by simp
qed

text \<open>
  C17: Outcomes are final.  Once a delivery is delivered or failed, nothing the workers do changes
  its row, in the whole server, as long as the clock readings give distinct ids.
\<close>

theorem server_outcomes_final:
  assumes "server_start cfg s0" and "(fine_step x F wk)\<^sup>*\<^sup>* s0 s" and "(worker_step x)\<^sup>*\<^sup>* (queue_view s) t"
    and "distinct_readings (qs_env t)" and "d \<in> set (notification_deliveries (ss_env s))" and "de_Status d \<noteq> ''pending''"
  shows "d \<in> set (notification_deliveries (qs_env t))"
  using outcomes_are_final [OF server_start_queue [OF assms(1)] fine_steps_queue [OF assms(2)] assms(3,4)] assms(5,6)
  by (simp add: deliveries_def)

section \<open>Alerts\<close>

definition alerts_move :: "alert_row list \<Rightarrow> alert_row list \<Rightarrow> bool" where
  "alerts_move as bs \<longleftrightarrow>
     ar_rule_id ` set bs \<subseteq> ar_rule_id ` set as \<and>
     (\<forall>a \<in> set as. (\<exists>b \<in> set bs. forward a b) \<or> ar_rule_id a \<notin> ar_rule_id ` set bs)"

lemma alerts_move_refl [simp]: "alerts_move as as"
  unfolding alerts_move_def using forward_refl by blast

lemma alerts_move_trans:
  assumes "alerts_move as bs" and "alerts_move bs cs"
  shows "alerts_move as cs"
  unfolding alerts_move_def
proof (intro conjI ballI)
  show "ar_rule_id ` set cs \<subseteq> ar_rule_id ` set as" using assms unfolding alerts_move_def by (meson subset_trans)
  fix a
  assume a: "a \<in> set as"
  show "(\<exists>c \<in> set cs. forward a c) \<or> ar_rule_id a \<notin> ar_rule_id ` set cs"
  proof (cases "\<exists>b \<in> set bs. forward a b")
    case True
    then obtain b where b: "b \<in> set bs" "forward a b" by blast
    then have "ar_rule_id b = ar_rule_id a" by (simp add: forward_def)
    then show ?thesis using assms(2) b forward_trans unfolding alerts_move_def by metis
  next
    case False
    then have "ar_rule_id a \<notin> ar_rule_id ` set bs" using assms(1) a by (auto simp: alerts_move_def)
    then show ?thesis using assms(2) unfolding alerts_move_def by (meson subsetD)
  qed
qed

lemma evolves_alerts_move:
  "evolves as bs \<Longrightarrow> ar_rule_id ` set bs \<subseteq> ar_rule_id ` set as \<Longrightarrow> alerts_move as bs"
  by (auto simp: alerts_move_def evolves_def)

lemma db_run_alerts:
  "(\<And>u. alerts (snd (stmt u)) = alerts u) \<Longrightarrow> alerts (snd (db_run stmt s)) = alerts s"
  by (rule db_run_state [where P = "\<lambda>t. alerts t = alerts s"]) simp_all

lemma acknowledge_rules:
  "ar_rule_id ` set (alerts (snd (alert_AcknowledgeAlert i user comment s))) \<subseteq> ar_rule_id ` set (alerts s)"
  unfolding alert_AcknowledgeAlert_def
  by (rule db_run_state [where P = "\<lambda>t. ar_rule_id ` set (alerts t) \<subseteq> ar_rule_id ` set (alerts s)"])
    (auto simp: update_alert_def update_returning_def time_Now_def acknowledge_row_def split: list.split if_splits)

lemma filtered_alerts_move: "alerts_move as (filter (\<lambda>a. ar_rule_id a \<noteq> i) as)"
  unfolding alerts_move_def
proof (intro conjI ballI)
  fix a
  assume "a \<in> set as"
  then show "(\<exists>b \<in> set (filter (\<lambda>a. ar_rule_id a \<noteq> i) as). forward a b) \<or>
      ar_rule_id a \<notin> ar_rule_id ` set (filter (\<lambda>a. ar_rule_id a \<noteq> i) as)"
    using forward_refl [of a] by (cases "ar_rule_id a = i") auto
qed auto

lemma action_alerts_move: "action s t \<Longrightarrow> calm s \<Longrightarrow> alerts_move (alerts s) (alerts t)"
proof (induction rule: action.induct)
  case (acknowledge s i u c)
  have "keeps_alerts s (snd (alert_AcknowledgeAlert i u c s))" by (rule acknowledge_keeps_alerts) (rule acknowledge)
  then show ?case by (intro evolves_alerts_move acknowledge_rules) (simp add: keeps_alerts_def)
next
  case (delete_rule s i)
  then show ?case using delete_rule_calm filtered_alerts_move by metis
next
  case (store s t)
  then show ?case
    by (simp add: telemetry_Store_def db_run_alerts insert_telemetry_def time_Now_def split: option.split)
next
  case (publish s e)
  then show ?case by (simp add: Publish_def time_Now_def)
qed (simp_all add: db_run_alerts agent_Register_def upsert_agent_def alert_AddComment_def insert_comment_def
    alert_CreateRule_def insert_rule_def alert_UpdateRule_def update_rule_def
    notif_CreateChannel_def insert_channel_def notif_DeleteChannel_def delete_channel_def insert_token_def
    delete_token_def touch_token_def time_Now_def Let_def case_prod_beta split: sum.split)

lemma acts_alerts_move: "acts s t \<Longrightarrow> calm s \<Longrightarrow> alerts_move (alerts s) (alerts t)"
proof (induction rule: rtranclp_induct)
  case (step t u)
  then show ?case using alerts_move_trans action_alerts_move acts_calm by blast
qed simp

lemma retention_alerts: "alerts (runRetentionTask F wk s) = alerts s"
proof -
  have "alerts (snd (rollupHourly F s)) = alerts s" for s :: "'a db_env_scheme"
    unfolding rollupHourly_def by (intro db_run_alerts) (simp add: hourlyRollup_def time_Now_def split: option.split)
  moreover have "alerts (snd (purgeOldTelemetry wk s)) = alerts s" for s :: "'a db_env_scheme"
    unfolding purgeOldTelemetry_def time_Now_def prod.case by (simp add: db_run_alerts)
  ultimately show ?thesis by (simp add: runRetentionTask_def case_prod_beta)
qed


section \<open>Telemetry through the router\<close>

lemma New_telemetry: "srv_telemetry (New cfg) = server_handler"
  by (simp add: New_def server_handler_def)

lemma lift_handler_response:
  "status w = None \<Longrightarrow> fst (h \<lparr>hdr = hdr w, status = None, chunks = []\<rparr> r s) = sendJSON code j \<lparr>hdr = hdr w, status = None, chunks = []\<rparr> \<Longrightarrow>
     status (fst (lift_handler wrap h w r (rl, s))) = Some code \<and>
     chunks (fst (lift_handler wrap h w r (rl, s))) = chunks w @ [B_json (wrap j)]"
  by (simp add: lift_handler_def case_prod_beta sendJSON_def http_defs)

lemma accepted_agent:
  assumes "status (fst (Ingest_h h decode w r s)) = Some 201" and "status w = None" and "decode (Body r) = (p, bad)"
  shows "at_AgentID p \<noteq> ''''"
proof
  assume "at_AgentID p = ''''"
  moreover have "TrimSpace '''' = ''''" by code_simp
  ultimately show False
    using assms by (auto simp: Ingest_h_def decodeTelemetryPayload_def split: prod.splits if_splits)
qed

text \<open>What a limited route does when it answers 201: its handler ran, after at most one reading of the clock.\<close>

lemma limited_telemetry:
  assumes "Limit (lift_handler wrap h) w r (rl, s) = (w', (rl', s'))" and "status w = None" and "status w' = Some 201"
    and "reliable s"
  shows "\<exists>s0. reliable s0 \<and> telemetry s0 = telemetry s \<and> agents s0 = agents s \<and>
    status (fst (h \<lparr>hdr = hdr w, status = None, chunks = []\<rparr> r s0)) = Some 201 \<and>
    s' = snd (h \<lparr>hdr = hdr w, status = None, chunks = []\<rparr> r s0)"
proof -
  obtain s0 where s0: "lift_handler wrap h w r (rl, s0) = (w', (rl, s')) \<or> (\<exists>rl1. lift_handler wrap h w r (rl1, s0) = (w', (rl1, s')))"
      "reliable s0" "telemetry s0 = telemetry s" "agents s0 = agents s"
  proof (cases "limit rl \<le> 0")
    case True
    then have "lift_handler wrap h w r (rl, s) = (w', (rl', s'))" using assms(1) by (simp add: Limit_def)
    moreover from this have "rl' = rl" by (auto simp: lift_handler_def split: prod.splits)
    ultimately show thesis using that [of s] assms(4) by simp
  next
    case False
    let ?s1 = "s\<lparr>clock_pos := Suc (clock_pos s)\<rparr>"
    obtain adm rl1 where adm: "limiter_admit (clock s (clock_pos s)) (cut_last_colon (RemoteAddr r)) rl = (adm, rl1)" by fastforce
    have "adm" using assms(1-3) False adm by (cases adm) (auto simp: Limit_def Let_def time_Now_def http_defs http_Error_def)
    then have "lift_handler wrap h w r (rl1, ?s1) = (w', (rl', s'))"
      using assms(1) False adm by (simp add: Limit_def Let_def time_Now_def)
    moreover from this have "rl' = rl1" by (auto simp: lift_handler_def split: prod.splits)
    ultimately show thesis using that [of ?s1] assms(4) by auto
  qed
  then have "status (fst (h \<lparr>hdr = hdr w, status = None, chunks = []\<rparr> r s0)) = Some 201 \<and>
      s' = snd (h \<lparr>hdr = hdr w, status = None, chunks = []\<rparr> r s0)"
    using assms(2,3) by (auto simp: lift_handler_def split: prod.splits)
  then show ?thesis using s0(2-4) by blast
qed

text \<open>
  C30: Telemetry that was posted is served.  With authentication off, once POST /api/v1/telemetry has
  answered 201 to a payload that is newer than what its agent has, GET of the agent's latest
  telemetry answers 200 with this agent, this timestamp and exactly these metrics, whatever the
  agent's id, as long as the path spells it (escaped where it must be), in every later state with
  the same telemetry and agents and a working database.
\<close>

theorem posted_telemetry_is_served:
  assumes "\<not> cf_APIAuthEnabled cfg" and "v = New cfg" and "reliable s" and "reliable t"
    and "wi_Method m = ''POST''" and "wi_Path m = ''/api/v1/telemetry''" and "x_telemetry X (wi_Body m) = (p, bad)"
    and "serve X v m (rl, s) = (w, (rl', s'))" and "status w = Some 201"
    and "\<And>a. at_Metrics p = Some a \<Longrightarrow> list_all (\<lambda>kv. is_json (snd kv)) a"
    and "\<And>y. y \<in> set (agent_records (at_AgentID p) (telemetry s)) \<Longrightarrow> tr_Timestamp y < at_Timestamp p"
    and "wi_Method q = ''GET''" and "cleanPath (wi_Path q) = wi_Path q" and "path_unescape (wi_Path q) \<noteq> None"
    and "path_segments (wi_Path q) = [''api'', ''v1'', ''agents'', at_AgentID p, ''telemetry'', ''latest'']"
    and "telemetry t = telemetry s'" and "agents t = agents s'"
  shows "\<exists>rec. status (fst (serve X v q (rl', t))) = Some 200 \<and>
    last (chunks (fst (serve X v q (rl', t)))) = B_json (SJ_telemetry (MJ_record rec)) \<and>
    tr_AgentID rec = at_AgentID p \<and> tr_Timestamp rec = at_Timestamp p \<and> at_Metrics p = Some (tr_Metrics rec)"
proof -
  let ?post = "limited (HandleFunc POST (api [Lit ''telemetry'']) E_Ingest)"
  let ?get = "HandleFunc GET (api [Lit ''agents'', Wild ''id'', Lit ''telemetry'', Lit ''latest'']) E_GetLatest"
  have path: "cleanPath ''/api/v1/telemetry'' = ''/api/v1/telemetry''"
      "path_segments ''/api/v1/telemetry'' = [''api'', ''v1'', ''telemetry'']"
      "path_unescape ''/api/v1/telemetry'' = Some ''/api/v1/telemetry''" by code_simp+
  have routes: "?post \<in> set server_routes" "?get \<in> set server_routes" by (simp_all add: server_routes_def)
  obtain r where r: "request_of m = Some r" "Body r = wi_Body m" by (simp add: request_of_def assms(6) path)
  obtain w1 i where w1: "status w1 = None" "serve X v m (rl, s) = entry_handler X v (rt_entry ?post) w1
      (r\<lparr>ctx_request_id := Some i, ctx_role := Some RoleAdmin, PathValue := bound_value []\<rparr>) (rl, s)"
    by (rule open_route [OF assms(1,2) r(1) _ _ routes(1), where X = X and rl = rl and s = s])
      (simp_all add: assms(5,6) path limited_def HandleFunc_def POST_def api_def method_matches_def)
  define rr where "rr = r\<lparr>ctx_request_id := Some i, ctx_role := Some RoleAdmin, PathValue := bound_value []\<rparr>"
  define w2 where "w2 = (\<lparr>hdr = hdr w1, status = None, chunks = []\<rparr> :: telemetry_json response)"
  have "Limit (lift_handler SJ_telemetry (Ingest_h server_handler (x_telemetry X))) w1 rr (rl, s) = (w, (rl', s'))"
    using assms(8) w1(2) by (simp add: rr_def entry_handler_def limited_def HandleFunc_def assms(2) New_telemetry Let_def)
  from limited_telemetry [OF this w1(1) assms(9,3)] obtain s0 where s0: "reliable s0" "telemetry s0 = telemetry s"
      "agents s0 = agents s" "status (fst (Ingest_h server_handler (x_telemetry X) w2 rr s0)) = Some 201"
      "s' = snd (Ingest_h server_handler (x_telemetry X) w2 rr s0)" by (auto simp: w2_def)
  obtain r2 where r2: "request_of q = Some r2" "Method r2 = ''GET''"
    using assms(12,14) by (auto simp: request_of_def)
  have id: "at_AgentID p \<noteq> ''''"
    by (rule accepted_agent [OF s0(4)]) (simp_all add: w2_def rr_def r(2) assms(7))
  obtain w3 i3 where w3: "status w3 = None" "serve X v q (rl', t) = entry_handler X v (rt_entry ?get) w3
      (r2\<lparr>ctx_request_id := Some i3, ctx_role := Some RoleAdmin, PathValue := bound_value [(''id'', at_AgentID p)]\<rparr>) (rl', t)"
    by (rule open_route [OF assms(1,2) r2(1) _ assms(13) routes(2), where X = X and rl = rl' and s = t])
      (simp_all add: assms(12,15) id HandleFunc_def GET_def api_def method_matches_def)
  define q3 where "q3 = r2\<lparr>ctx_request_id := Some i3, ctx_role := Some RoleAdmin, PathValue := bound_value [(''id'', at_AgentID p)]\<rparr>"
  define w4 where "w4 = (\<lparr>hdr = hdr w3, status = None, chunks = []\<rparr> :: telemetry_json response)"
  obtain rec where rec: "fst (GetLatest_h server_handler w4 q3 t) = sendJSON 200 (MJ_record rec) w4"
      "tr_AgentID rec = at_AgentID p" "tr_Timestamp rec = at_Timestamp p" "at_Metrics p = Some (tr_Metrics rec)"
    using ingest_then_latest [OF s0(1) _ prod.collapse [symmetric] s0(4), of p bad q3 t w4] assms(4,7,10,11,16,17) r(2) r2(2) s0
    by (auto simp: w2_def rr_def q3_def bound_value_def)
  have "serve X v q (rl', t) = lift_handler SJ_telemetry (GetLatest_h server_handler) w3 q3 (rl', t)"
    unfolding w3(2) q3_def by (simp add: entry_handler_def HandleFunc_def assms(2) New_telemetry Let_def)
  then show ?thesis
    using lift_handler_response [OF w3(1), of "GetLatest_h server_handler" q3 t 200 "MJ_record rec" SJ_telemetry rl'] rec
    by (intro exI [of _ rec]) (simp add: w4_def)
qed

section \<open>Witnesses\<close>

definition settled_db :: telemetry_env where
  "settled_db = (telemetry_start [])\<lparr>alert_rules := [demo_rule],
     alerts := [demo_alert\<lparr>ar_rule_id := ''rule-cpu-high'', ar_agent_id := ''a1''\<rparr>],
     notification_channels := [demo_channel], notification_deliveries := [demo_failed]\<rparr>"

definition settled_server :: "unit server_sys" where
  "settled_server = \<lparr>ss_limiter = fst (New_state demo_cfg settled_db), ss_env = snd (New_state demo_cfg settled_db),
     ss_flight = [], ss_offers = [], ss_hub = hub_start\<rparr>"

text \<open>One delivery of the alert: its row is inserted, then its job is offered, by two steps of an evaluation.\<close>

definition demo_notification :: Notification where
  "demo_notification = \<lparr>nt_ID = ''notif-1'', nt_Event = ''alert.firing'', nt_Timestamp = 0, nt_Alert = NA_Map [],
     nt_Agent = None\<rparr>"

definition offering_server :: "unit server_sys" where
  "offering_server =
     (case create_pending ''alert.firing'' (ar_id demo_alert) demo_notification demo_channel (ss_env settled_server) of
        (made, e) \<Rightarrow> settled_server\<lparr>ss_env := e, ss_offers := offered made\<rparr>)"

definition queued_server :: "unit server_sys" where
  "queued_server = settled_server\<lparr>ss_env :=
     enqueue_channel ''alert.firing'' (ar_id demo_alert) demo_notification demo_channel (ss_env settled_server)\<rparr>"

lemma New_state_tables [simp]:
  "schema_ok (snd (New_state cfg s)) = schema_ok s" "tokens_ok (snd (New_state cfg s)) = tokens_ok s"
  "notification_deliveries (snd (New_state cfg s)) = notification_deliveries s"
  by (simp_all add: New_state_def schema_defs tokens_ok_def)

lemma settled_start: "server_start demo_cfg settled_server"
  unfolding server_start_def
proof (intro conjI exI [of _ settled_db])
  have "schema_ok settled_db" "tokens_ok settled_db"
    by (simp_all add: settled_db_def telemetry_start_def schema_defs demo_alert_def
        demo_rule_def demo_failed_def demo_channel_def tokens_ok_def)
  then show "schema_ok (ss_env settled_server)" "tokens_ok (ss_env settled_server)" by (simp_all add: settled_server_def)
  show "list_all (row_ok 3) (notification_deliveries (ss_env settled_server))"
    by (simp add: settled_server_def settled_db_def demo_failed_def row_ok_def)
qed (simp_all add: settled_server_def)

lemma settled_none_pending: "pending_ids (ss_env settled_server) = {}"
  by (simp add: pending_ids_def settled_server_def settled_db_def demo_failed_def)

lemma offering_reach: "(fine_step x F wk)\<^sup>*\<^sup>* settled_server offering_server"
proof -
  obtain made e where run: "create_pending ''alert.firing'' (ar_id demo_alert) demo_notification demo_channel
      (ss_env settled_server) = (made, e)" by fastforce
  have "fine_step x F wk settled_server (settled_server\<lparr>ss_env := e, ss_offers := ss_offers settled_server @ offered made\<rparr>)"
    by (rule fine_step.insert [OF run])
  moreover have "ss_offers settled_server = []" by (simp add: settled_server_def)
  ultimately show ?thesis by (simp add: offering_server_def run r_into_rtranclp)
qed

lemma queued_reach: "(fine_step x F wk)\<^sup>*\<^sup>* settled_server queued_server"
  unfolding queued_server_def by (rule fine_enqueue)

lemma queued_log:
  "map (\<lambda>d. (de_ID d, de_Status d)) (notification_deliveries (ss_env queued_server)) = [(''del-old'', ''failed''), (''del-5'', ''pending'')]"
  "map jb_DeliveryID (qs_buf (queue_view queued_server)) = [''del-5'']" "clock_pos (ss_env queued_server) = 7"
  "map (\<lambda>d. (de_ID d, de_Status d)) (notification_deliveries (ss_env offering_server)) = [(''del-old'', ''failed''), (''del-5'', ''pending'')]"
  "qs_buf (queue_view offering_server) = []" "clock_pos (ss_env offering_server) = 7"
  "map jb_DeliveryID (ss_offers offering_server) = [''del-5'']"
  by code_simp+

lemma reached_env:
  assumes "(fine_step x F wk)\<^sup>*\<^sup>* settled_server s"
  shows "reliable (ss_env s)" and "net_int4 (ss_env s)" and "clock (ss_env s) = int"
proof -
  have "base_inv (queue_view settled_server)"
    by (rule queue_start_base [OF server_start_queue [OF settled_start]])
  from queue_steps_steady [OF fine_steps_queue [OF assms] this]
  have "steady (ss_env settled_server) (ss_env s)" by simp
  then show "reliable (ss_env s)" "net_int4 (ss_env s)" "clock (ss_env s) = int"
    by (simp_all add: steady_def reliable_def net_int4_def int4_def settled_server_def settled_db_def New_state_def
        telemetry_start_def)
qed

lemmas queued_env = reached_env [OF queued_reach] and offering_env = reached_env [OF offering_reach]

theorem server_one_job_per_pending_witness:
  "length (filter (\<lambda>j. jb_DeliveryID j = ''del-5'') (tokens (queue_view offering_server))) = 1 \<and>
   qs_buf (queue_view offering_server) = []"
proof -
  have "\<exists>d \<in> set (notification_deliveries (ss_env offering_server)). de_ID d = ''del-5'' \<and> de_Status d = ''pending''"
    using queued_log(4) by (auto simp: map_eq_Cons_conv)
  then obtain d where d: "d \<in> set (notification_deliveries (ss_env offering_server))" "de_ID d = ''del-5''"
    "de_Status d = ''pending''" by blast
  have "distinct_readings (ss_env offering_server)"
    by (rule distinct_readings_int) (simp_all add: offering_env queued_log)
  then show ?thesis
    using server_one_job_per_pending [OF settled_start offering_reach offering_env(1,2) _ d(1)] d queued_log(5)
    by (simp add: settled_none_pending)
qed

theorem server_settles_deliveries_witness:
  "\<exists>t. (worker_step demo_ext)\<^sup>*\<^sup>* (queue_view offering_server) t \<and> qs_buf t = [] \<and> qs_flight t = [] \<and> qs_offers t = [] \<and>
    list_all (\<lambda>d. de_Status d \<noteq> ''pending'' \<and> row_ok 3 d) (notification_deliveries (qs_env t))"
proof -
  note ends = server_settles_deliveries [OF settled_start offering_reach offering_env(1,2), of demo_ext]
  then obtain t where t: "(worker_step demo_ext)\<^sup>*\<^sup>* (queue_view offering_server) t" "\<nexists>u. worker_step demo_ext t u" by blast
  with ends have "qs_buf t = [] \<and> qs_flight t = [] \<and> qs_offers t = [] \<and>
      list_all (row_ok 3) (notification_deliveries (qs_env t)) \<and> pending_ids (qs_env t) \<subseteq> {}"
    unfolding settled_none_pending by blast
  with t(1) show ?thesis by (intro exI [of _ t]) (auto simp: pending_ids_def list_all_iff)
qed

text \<open>The offer is a step, and the run ends.\<close>

lemma offering_step: "worker_step x (queue_view offering_server) (queue_view queued_server)"
proof -
  obtain made e where run: "create_pending ''alert.firing'' (ar_id demo_alert) demo_notification demo_channel
      (ss_env settled_server) = (made, e)" by fastforce
  obtain job where made: "made = Some job"
    using queued_log(7) by (cases made) (simp_all add: offering_server_def run)
  have off: "offering_server = settled_server\<lparr>ss_env := e, ss_offers := [job]\<rparr>"
    and que: "queued_server = settled_server\<lparr>ss_env := enqueue_job job e\<rparr>"
    and none: "ss_offers settled_server = []"
    by (simp_all add: offering_server_def queued_server_def enqueue_channel_def run made, simp add: settled_server_def)
  have "worker_step x (queue_view offering_server)
      (queue_view offering_server\<lparr>qs_env := enqueue_job job (qs_env (queue_view offering_server)), qs_offers := [] @ []\<rparr>)"
    by (rule worker_step.offer) (simp add: queue_view_def off)
  then show ?thesis by (simp add: queue_view_def off que none)
qed

theorem deliveries_terminate_witness:
  "worker_step demo_ext (queue_view offering_server) (queue_view queued_server) \<and>
   (\<exists>i. \<not> worker_step demo_ext ((\<lambda>i::nat. queue_view (if i = 0 then offering_server else queued_server)) i)
      ((\<lambda>i. queue_view (if i = 0 then offering_server else queued_server)) (Suc i)))"
  using offering_step deliveries_terminate [OF settled_start offering_reach,
      where f = "\<lambda>i. queue_view (if i = 0 then offering_server else queued_server)" and x = demo_ext]
  by simp

definition taken_view where
  "taken_view =
     (case chan_recv (q_jobs (queue (ss_env queued_server))) of
        (Recv_val j, c) \<Rightarrow> (queue_view queued_server)\<lparr>qs_env := set_jobs c (ss_env queued_server), qs_flight := [Sending j]\<rparr>
      | _ \<Rightarrow> queue_view queued_server)"

theorem server_outcomes_final_witness:
  "demo_failed \<in> set (notification_deliveries (ss_env queued_server)) \<and>
   worker_step demo_ext (queue_view queued_server) taken_view \<and>
   demo_failed \<in> set (notification_deliveries (qs_env taken_view))"
proof -
  have log: "demo_failed \<in> set (notification_deliveries (ss_env queued_server))" by code_simp
  have "qs_buf (queue_view queued_server) \<noteq> []" using queued_log(2) by auto
  then obtain j c where recv: "chan_recv (q_jobs (queue (ss_env queued_server))) = (Recv_val j, c)"
    by (cases "qs_buf (queue_view queued_server)") (auto simp: qs_buf_def chan_recv_def)
  have dims: "dims (ss_env queued_server) = (3, 4, 256)"
    by (rule server_dims [OF settled_start queued_reach])
  have "ss_flight queued_server = []" by (simp add: queued_server_def settled_server_def)
  then have "worker_step demo_ext (queue_view queued_server) taken_view"
    using worker_step.take_job [of "queue_view queued_server" j c demo_ext] recv dims
    by (simp add: taken_view_def dims_def queue_view_def)
  moreover have "distinct_readings (qs_env taken_view)"
    by (intro distinct_readings_int) (simp_all add: taken_view_def recv queued_env queued_log)
  moreover have "de_Status demo_failed \<noteq> ''pending''" by (simp add: demo_failed_def)
  ultimately show ?thesis
    using server_outcomes_final [OF settled_start queued_reach r_into_rtranclp _ log, where t = taken_view and x = demo_ext] log
    by blast
qed

text \<open>An alert whose agent reports a low value again.\<close>

definition calmed_server :: "unit server_sys" where
  "calmed_server = demo_server\<lparr>ss_env := (telemetry_start [])\<lparr>alert_rules := [demo_rule],
     alerts := [demo_alert\<lparr>ar_rule_id := ''rule-cpu-high'', ar_agent_id := ''a1''\<rparr>], evaluations := [demo_cpu 10]\<rparr>\<rparr>"

definition resolved_server :: "unit server_sys" where
  "resolved_server = calmed_server\<lparr>ss_env := run_evaluation \<lparr>eg_hub = True, eg_queue = True\<rparr> 0 (ss_env calmed_server)\<rparr>"

lemma resolved_alerts:
  "map (\<lambda>a. (ar_id a, ar_rule_id a, ar_status a)) (alerts (ss_env resolved_server)) = [(''alert-1'', ''rule-cpu-high'', ''resolved'')]"
  by code_simp


text \<open>One agent posts its load and reads it back.\<close>

definition demo_post_externals :: externals where
  "demo_post_externals = demo_externals\<lparr>x_telemetry := (\<lambda>_. (cpu_payload 9 50, False))\<rparr>"

definition demo_posted :: "server_json response \<times> (limiter \<times> telemetry_env)" where
  "demo_posted = serve demo_post_externals (New open_cfg) (demo_wire ''POST'' ''/api/v1/telemetry'')
     (NewRateLimiter 0 (1 * time_Minute), telemetry_start [cpu_record 3 10])"

lemma demo_latest_path:
  "cleanPath ''/api/v1/agents/a1/telemetry/latest'' = ''/api/v1/agents/a1/telemetry/latest''"
  "path_segments ''/api/v1/agents/a1/telemetry/latest'' = [''api'', ''v1'', ''agents'', ''a1'', ''telemetry'', ''latest'']"
  "path_unescape ''/api/v1/agents/a1/telemetry/latest'' = Some ''/api/v1/agents/a1/telemetry/latest''"
  "cleanPath ''/api/v1/telemetry'' = ''/api/v1/telemetry''"
  "path_segments ''/api/v1/telemetry'' = [''api'', ''v1'', ''telemetry'']"
  "path_unescape ''/api/v1/telemetry'' = Some ''/api/v1/telemetry''"
  by code_simp+

lemma demo_posted_facts: "status (fst demo_posted) = Some 201 \<and> reliable (snd (snd demo_posted))"
proof -
  let ?post = "limited (HandleFunc POST (api [Lit ''telemetry'']) E_Ingest)"
  let ?m = "demo_wire ''POST'' ''/api/v1/telemetry''"
  let ?s = "telemetry_start [cpu_record 3 10]"
  let ?rl = "NewRateLimiter 0 (1 * time_Minute)"
  obtain r where r: "request_of ?m = Some r" "Method r = ''POST''"
    unfolding demo_request demo_latest_path by simp
  have route: "?post \<in> set server_routes" by (simp add: server_routes_def)
  obtain w1 i where w1: "status w1 = None" "serve demo_post_externals (New open_cfg) ?m (?rl, ?s) =
      entry_handler demo_post_externals (New open_cfg) (rt_entry ?post) w1
        (r\<lparr>ctx_request_id := Some i, ctx_role := Some RoleAdmin, PathValue := bound_value []\<rparr>) (?rl, ?s)"
    by (rule open_route [OF _ refl r(1) _ _ route, where X = demo_post_externals and rl = ?rl and s = ?s and cfg = open_cfg])
      (simp_all add: open_cfg_def demo_wire_def demo_latest_path limited_def HandleFunc_def POST_def api_def method_matches_def)
  let ?r = "r\<lparr>ctx_request_id := Some i, ctx_role := Some RoleAdmin, PathValue := bound_value []\<rparr>"
  let ?w = "\<lparr>hdr = hdr w1, status = None, chunks = []\<rparr> :: telemetry_json response"
  let ?d = "\<lambda>_ :: string. (cpu_payload 9 50, False)"
  have run: "demo_posted = lift_handler SJ_telemetry (Ingest_h server_handler ?d) w1 ?r (?rl, ?s)"
    unfolding demo_posted_def w1(2)
    by (simp add: entry_handler_def limited_def HandleFunc_def New_telemetry Let_def Limit_def NewRateLimiter_def demo_post_externals_def)
  have m: "metrics_stored (cpu_metrics 50) = Some (cpu_metrics 50)"
    by (rule metrics_stored_id) (simp add: cpu_metrics_def)
  have post: "Method ?r = ''POST''" "decodeTelemetryPayload ?d ?r = (cpu_payload 9 50, False)"
    by (simp_all add: r(2) cpu_payload_decoded IsZero_def zero_time_def)
  have p: "at_AgentID (cpu_payload 9 50) \<in> ag_ID ` set (agents ?s)" "at_Metrics (cpu_payload 9 50) = Some (cpu_metrics 50)"
    by (simp_all add: telemetry_start_def cpu_payload_def)
  have "status (fst (Ingest_h server_handler ?d ?w ?r ?s)) = Some 201 \<and> reliable (snd (Ingest_h server_handler ?d ?w ?r ?s))"
    by (cases rule: Ingest_h_cases [where w = ?w, OF telemetry_start_reliable [of "[cpu_record 3 10]"] post])
      (use p m in auto)
  then show ?thesis unfolding run using w1(1) by (simp add: lift_handler_def case_prod_beta)
qed

theorem posted_telemetry_is_served_witness:
  "\<exists>rec. last (chunks (fst (serve demo_post_externals (New open_cfg) (demo_wire ''GET'' ''/api/v1/agents/a1/telemetry/latest'')
      (snd demo_posted)))) = B_json (SJ_telemetry (MJ_record rec)) \<and> tr_Timestamp rec = 9 \<and> tr_Metrics rec = cpu_metrics 50"
proof -
  have "serve demo_post_externals (New open_cfg) (demo_wire ''POST'' ''/api/v1/telemetry'')
      (NewRateLimiter 0 (1 * time_Minute), telemetry_start [cpu_record 3 10]) =
      (fst demo_posted, (fst (snd demo_posted), snd (snd demo_posted)))" by (simp add: demo_posted_def)
  from posted_telemetry_is_served [OF _ refl telemetry_start_reliable _ _ _ _ this, where t = "snd (snd demo_posted)" and
      p = "cpu_payload 9 50" and bad = False and q = "demo_wire ''GET'' ''/api/v1/agents/a1/telemetry/latest''"] demo_posted_facts
  show ?thesis
    by (auto simp: open_cfg_def demo_wire_def demo_latest_path demo_post_externals_def cpu_payload_def cpu_metrics_def
        telemetry_start_def agent_records_def cpu_record_def)
qed

end
