(* ===== verification/Startup.thy ===== *)
theory Startup
  imports Server_Properties
begin

text \<open>
  internal/database/database.go with the migration files it embeds, and cmd/server/main.go.  The
  tables of the model exist from the start, empty when nothing has created them, so the CREATE and
  ALTER statements with IF NOT EXISTS change nothing; what the files do is insert the default
  rules.  Each file is one Exec, hence one transaction.  What pgx makes of a URL is a parameter.
\<close>

section \<open>The migration files\<close>

definition seed_rule :: "string \<Rightarrow> string \<Rightarrow> string \<Rightarrow> string \<Rightarrow> float64 \<Rightarrow> int \<Rightarrow> time \<Rightarrow> AlertRule" where
  "seed_rule i name metric operator threshold seconds now =
     \<lparr>ru_ID = i, ru_Name = name, ru_Metric = metric, ru_Operator = operator, ru_Threshold = threshold,
      ru_DurationSeconds = seconds, ru_ForDurationSeconds = 0, ru_CooldownSeconds = 0, ru_Severity = ''warning'',
      ru_Enabled = True, ru_CreatedAt = now, ru_UpdatedAt = now\<rparr>"

definition seed_rules :: "time \<Rightarrow> AlertRule list" where
  "seed_rules now =
     [seed_rule ''rule-cpu-high'' ''High CPU Usage'' ''cpu_usage'' ''>'' (Fin 80) 300 now,
      seed_rule ''rule-mem-high'' ''High Memory Usage'' ''memory_usage'' ''>'' (Fin 85) 300 now,
      seed_rule ''rule-disk-high'' ''High Disk Usage'' ''disk_usage'' ''>'' (Fin 90) 0 now,
      seed_rule ''rule-agent-offline'' ''Agent Offline'' ''agent_offline'' ''=='' (Fin 1) 0 now]"

text \<open>ON CONFLICT (id) DO NOTHING.\<close>

definition insert_missing :: "AlertRule \<Rightarrow> AlertRule list \<Rightarrow> AlertRule list" where
  "insert_missing r rows = (if ru_ID r \<in> ru_ID ` set rows then rows else rows @ [r])"

type_synonym 'a statement = "'a db_env_scheme \<Rightarrow> (dberr + unit) \<times> 'a db_env_scheme"

definition create_tables :: "'a statement" where
  "create_tables s = (Inr (), s)"

definition seed_alert_rules :: "'a statement" where
  "seed_alert_rules s =
     (case time_Now s of (now, s1) \<Rightarrow> (Inr (), s1\<lparr>alert_rules := fold insert_missing (seed_rules now) (alert_rules s1)\<rparr>))"

text \<open>An entry of the embedded directory: its name and, for a file, its content.\<close>

definition migrationFS :: "(string \<times> 'a statement option) list" where
  "migrationFS =
     [(''001_agents.sql'', Some create_tables), (''002_telemetry.sql'', Some create_tables),
      (''003_alerts.sql'', Some seed_alert_rules), (''004_phase5.sql'', Some create_tables)]"

section \<open>Migrate and Connect\<close>

datatype start_error =
    Parse_config string
  | Create_pool string
  | Ping_failed
  | Read_migration string
  | Execute_migration string

definition migration_files :: "(string \<times> 'a statement option) list \<Rightarrow> string list" where
  "migration_files entries = sort (map fst (filter (\<lambda>e. snd e \<noteq> None) entries))"

fun run_migrations ::
  "(string \<times> 'a statement option) list \<Rightarrow> string list \<Rightarrow> 'a db_env_scheme \<Rightarrow>
   (start_error + unit) \<times> 'a db_env_scheme"
where
  "run_migrations fs [] s = (Inr (), s)"
| "run_migrations fs (name # names) s =
     (case map_of fs name of
        Some (Some content) \<Rightarrow>
          (case db_run content s of
             (Inl _, s1) \<Rightarrow> (Inl (Execute_migration name), s1)
           | (Inr _, s1) \<Rightarrow> run_migrations fs names s1)
      | _ \<Rightarrow> (Inl (Read_migration name), s))"

definition Migrate :: "'a db_env_scheme \<Rightarrow> (start_error + unit) \<times> 'a db_env_scheme" where
  "Migrate = (let fs = migrationFS in run_migrations fs (migration_files fs))"

record pool_config =
  pc_MaxConns :: int
  pc_MinConns :: int
  pc_MaxConnLifetime :: duration
  pc_MaxConnIdleTime :: duration

record driver =
  dr_ParseConfig :: "string \<Rightarrow> string + pool_config"
  dr_NewWithConfig :: "pool_config \<Rightarrow> string option"

text \<open>Besides the error or the pool's configuration: whether a pool that was opened has been closed.\<close>

definition Connect ::
  "driver \<Rightarrow> string \<Rightarrow> 'a db_env_scheme \<Rightarrow> ((start_error + pool_config) \<times> bool) \<times> 'a db_env_scheme"
where
  "Connect dr databaseURL s =
     (case dr_ParseConfig dr databaseURL of
        Inl e \<Rightarrow> ((Inl (Parse_config e), False), s)
      | Inr parsed \<Rightarrow>
          (let config = parsed\<lparr>pc_MaxConns := 10, pc_MinConns := 2, pc_MaxConnLifetime := time_Hour,
                               pc_MaxConnIdleTime := 30 * time_Minute\<rparr> in
           case dr_NewWithConfig dr config of
             Some e \<Rightarrow> ((Inl (Create_pool e), False), s)
           | None \<Rightarrow>
               (case db_Ping s of
                  (False, s1) \<Rightarrow> ((Inl Ping_failed, True), s1)
                | (True, s1) \<Rightarrow>
                    (case Migrate s1 of
                       (Inl e, s2) \<Rightarrow> ((Inl e, True), s2)
                     | (Inr _, s2) \<Rightarrow> ((Inr config, False), s2)))))"

section \<open>main\<close>

text \<open>
  log.Fatal ends the process with status 1 and runs no deferred call; otherwise main returns, with
  status 0, and closes the pool.  What ends the wait is an error of the listener (closed or not)
  or a signal; the shutdown of the HTTP server then succeeds or not, with the same status.
\<close>

datatype wait_end = Server_error bool | Shutdown_signal

datatype outcome = Fatal | Returned bool

definition main_end :: "wait_end \<Rightarrow> bool \<Rightarrow> outcome" where
  "main_end ended graceful =
     (case ended of
        Server_error is_closed \<Rightarrow> if \<not> is_closed then Fatal else Returned graceful
      | Shutdown_signal \<Rightarrow> Returned graceful)"

text \<open>The start of main: the server that listens and the state it starts from, or no server.\<close>

definition main_start ::
  "driver \<Rightarrow> getenv \<Rightarrow> 'a telemetry_env_scheme \<Rightarrow>
   ('a telemetry_env_scheme server \<times> 'a server_sys) option \<times> 'a telemetry_env_scheme"
where
  "main_start dr os_Getenv s =
     (let cfg = Load os_Getenv in
      if cf_DatabaseURL cfg = '''' then (None, s)
      else
        (case Connect dr (cf_DatabaseURL cfg) s of
           ((Inl _, _), s1) \<Rightarrow> (None, s1)
         | ((Inr _, _), s1) \<Rightarrow>
             (case New_state cfg s1 of (rl, e) \<Rightarrow>
                (Some (New cfg, \<lparr>ss_limiter = rl, ss_env = e, ss_flight = [], ss_offers = [], ss_hub = hub_start\<rparr>), e))))"

section \<open>The files run in order\<close>

lemma migration_order:
  "migration_files migrationFS = [''001_agents.sql'', ''002_telemetry.sql'', ''003_alerts.sql'', ''004_phase5.sql'']"
  by code_simp

lemma migration_contents:
  "map_of migrationFS ''001_agents.sql'' = Some (Some create_tables)"
  "map_of migrationFS ''002_telemetry.sql'' = Some (Some create_tables)"
  "map_of migrationFS ''003_alerts.sql'' = Some (Some seed_alert_rules)"
  "map_of migrationFS ''004_phase5.sql'' = Some (Some create_tables)"
  by (simp_all add: migrationFS_def)

lemma Migrate_runs:
  "Migrate s =
     run_migrations migrationFS [''001_agents.sql'', ''002_telemetry.sql'', ''003_alerts.sql'', ''004_phase5.sql''] s"
  by (simp add: Migrate_def Let_def migration_order)

text \<open>What one file leaves: the rules are as they were or have been seeded, all else is as it was.\<close>

definition seeded :: "'a db_env_scheme \<Rightarrow> 'a db_env_scheme \<Rightarrow> bool" where
  "seeded s t \<longleftrightarrow>
     (\<exists>n m now. t = s\<lparr>clock_pos := n, fault_pos := m, alert_rules := fold insert_missing (seed_rules now) (alert_rules s)\<rparr>)"

definition untouched :: "'a db_env_scheme \<Rightarrow> 'a db_env_scheme \<Rightarrow> bool" where
  "untouched s t \<longleftrightarrow> (\<exists>m. t = s\<lparr>fault_pos := m\<rparr>)"

lemma run_create_tables: "untouched s (snd (db_run create_tables s))"
proof (rule db_run_state [where P = "untouched s"])
  show "untouched s (s\<lparr>fault_pos := Suc (fault_pos s)\<rparr>)" unfolding untouched_def by blast
  then show "untouched s (snd (create_tables (s\<lparr>fault_pos := Suc (fault_pos s)\<rparr>)))" by (simp add: create_tables_def)
qed

lemma run_seeds: "seeded s (snd (db_run seed_alert_rules s)) \<or> untouched s (snd (db_run seed_alert_rules s))"
proof (rule db_run_state [where P = "\<lambda>t. seeded s t \<or> untouched s t"])
  show "seeded s (s\<lparr>fault_pos := Suc (fault_pos s)\<rparr>) \<or> untouched s (s\<lparr>fault_pos := Suc (fault_pos s)\<rparr>)"
    unfolding untouched_def by blast
  have "seeded s (snd (seed_alert_rules (s\<lparr>fault_pos := Suc (fault_pos s)\<rparr>)))"
    unfolding seeded_def
    by (intro exI [of _ "Suc (clock_pos s)"] exI [of _ "Suc (fault_pos s)"] exI [of _ "clock s (clock_pos s)"])
      (simp add: seed_alert_rules_def time_Now_def)
  then show "seeded s (snd (seed_alert_rules (s\<lparr>fault_pos := Suc (fault_pos s)\<rparr>))) \<or>
      untouched s (snd (seed_alert_rules (s\<lparr>fault_pos := Suc (fault_pos s)\<rparr>)))" ..
qed

lemma run_seeds_ok:
  assumes "db_run seed_alert_rules s = (Inr u, t)"
  shows "seeded s t"
proof -
  have "t = s\<lparr>clock_pos := Suc (clock_pos s), fault_pos := Suc (fault_pos s),
      alert_rules := fold insert_missing (seed_rules (clock s (clock_pos s))) (alert_rules s)\<rparr>"
    using db_run_Inr [OF assms] by (auto simp: seed_alert_rules_def time_Now_def)
  then show ?thesis unfolding seeded_def by blast
qed

lemma seeded_untouched:
  "untouched s t \<Longrightarrow> untouched t u \<Longrightarrow> untouched s u" "untouched s t \<Longrightarrow> seeded t u \<Longrightarrow> seeded s u"
  "seeded s t \<Longrightarrow> untouched t u \<Longrightarrow> seeded s u"
proof -
  show "untouched s t \<Longrightarrow> untouched t u \<Longrightarrow> untouched s u" unfolding untouched_def by auto
  show "seeded s u" if "untouched s t" "seeded t u"
  proof -
    obtain k n m now where "t = s\<lparr>fault_pos := k\<rparr>"
        "u = t\<lparr>clock_pos := n, fault_pos := m, alert_rules := fold insert_missing (seed_rules now) (alert_rules t)\<rparr>"
      using \<open>untouched s t\<close> \<open>seeded t u\<close> unfolding untouched_def seeded_def by blast
    then show ?thesis unfolding seeded_def by (intro exI [of _ n] exI [of _ m] exI [of _ now]) simp
  qed
  show "seeded s u" if "seeded s t" "untouched t u"
  proof -
    obtain k n m now where "u = t\<lparr>fault_pos := k\<rparr>"
        "t = s\<lparr>clock_pos := n, fault_pos := m, alert_rules := fold insert_missing (seed_rules now) (alert_rules s)\<rparr>"
      using \<open>seeded s t\<close> \<open>untouched t u\<close> unfolding untouched_def seeded_def by blast
    then show ?thesis unfolding seeded_def by (intro exI [of _ n] exI [of _ k] exI [of _ now]) simp
  qed
qed

text \<open>Whatever the connection does: all files or the first few have run, and success means all.\<close>

lemma Migrate_result:
  assumes "Migrate s = (res, t)"
  shows "seeded s t \<or> untouched s t" and "res = Inr () \<Longrightarrow> seeded s t"
proof -
  obtain r1 s1 where 1: "db_run create_tables s = (r1, s1)" by fastforce
  obtain r2 s2 where 2: "db_run create_tables s1 = (r2, s2)" by fastforce
  obtain r3 s3 where 3: "db_run seed_alert_rules s2 = (r3, s3)" by fastforce
  obtain r4 s4 where 4: "db_run create_tables s3 = (r4, s4)" by fastforce
  have u: "untouched s s1" "untouched s1 s2" "untouched s3 s4" "seeded s2 s3 \<or> untouched s2 s3"
    using run_create_tables [of s] run_create_tables [of s1] run_create_tables [of s3] run_seeds [of s2]
    by (simp_all add: 1 2 3 4)
  have u2: "untouched s s2" by (rule seeded_untouched(1) [OF u(1,2)])
  have s3: "seeded s s3 \<or> untouched s s3" using u(4) u2 seeded_untouched by blast
  have s4: "seeded s s4 \<or> untouched s s4" using s3 u(3) seeded_untouched by blast
  have run: "Migrate s = (case r1 of Inl _ \<Rightarrow> (Inl (Execute_migration ''001_agents.sql''), s1) | Inr _ \<Rightarrow>
      (case r2 of Inl _ \<Rightarrow> (Inl (Execute_migration ''002_telemetry.sql''), s2) | Inr _ \<Rightarrow>
      (case r3 of Inl _ \<Rightarrow> (Inl (Execute_migration ''003_alerts.sql''), s3) | Inr _ \<Rightarrow>
      (case r4 of Inl _ \<Rightarrow> (Inl (Execute_migration ''004_phase5.sql''), s4) | Inr _ \<Rightarrow> (Inr (), s4)))))"
    by (cases r1; cases r2; cases r3; cases r4)
      (use 1 2 3 4 in \<open>simp_all add: Migrate_runs migration_contents\<close>)
  show "seeded s t \<or> untouched s t"
    using assms u(1) u2 s3 s4 unfolding run by (auto split: sum.splits)
  assume "res = Inr ()"
  then obtain x where "r3 = Inr x" "t = s4" using assms unfolding run by (auto split: sum.splits)
  then have "seeded s2 s3" "t = s4" using run_seeds_ok [of s2 x s3] 3 by simp_all
  then show "seeded s t" using u2 u(3) seeded_untouched by blast
qed

section \<open>The default rules\<close>

lemma insert_missing_all:
  "distinct (map ru_ID rs) \<Longrightarrow>
     fold insert_missing rs rows = rows @ filter (\<lambda>r. ru_ID r \<notin> ru_ID ` set rows) rs"
proof (induction rs arbitrary: rows)
  case (Cons r rs)
  have "filter (\<lambda>q. ru_ID q \<notin> insert (ru_ID r) (ru_ID ` set rows)) rs = filter (\<lambda>q. ru_ID q \<notin> ru_ID ` set rows) rs"
    using Cons.prems by (intro filter_cong) (auto, metis image_eqI)
  then show ?case using Cons by (auto simp: insert_missing_def)
qed simp

lemma seed_ids [simp]:
  "map ru_ID (seed_rules now) = [''rule-cpu-high'', ''rule-mem-high'', ''rule-disk-high'', ''rule-agent-offline'']"
  by (simp add: seed_rules_def seed_rule_def)

lemma seed_id_set: "ru_ID ` set (seed_rules now) = {''rule-cpu-high'', ''rule-mem-high'', ''rule-disk-high'', ''rule-agent-offline''}"
  by (simp add: seed_rules_def seed_rule_def)

lemma seeds_all:
  "fold insert_missing (seed_rules now) rows = rows @ filter (\<lambda>r. ru_ID r \<notin> ru_ID ` set rows) (seed_rules now)"
  by (rule insert_missing_all) simp

lemma seeds_ids:
  "ru_ID ` set (fold insert_missing (seed_rules now) rows) = ru_ID ` set rows \<union> ru_ID ` set (seed_rules now)"
  by (auto simp: seeds_all)

lemma seeds_distinct:
  "distinct (map ru_ID rows) \<Longrightarrow> distinct (map ru_ID (fold insert_missing (seed_rules now) rows))"
  unfolding seeds_all by (auto simp: distinct_filter_key) (metis image_eqI)

lemma seeded_schema: "seeded s t \<Longrightarrow> schema_ok s \<Longrightarrow> schema_ok t"
proof -
  assume "seeded s t" and ok: "schema_ok s"
  then obtain n m now where
    "t = s\<lparr>clock_pos := n, fault_pos := m, alert_rules := fold insert_missing (seed_rules now) (alert_rules s)\<rparr>"
    unfolding seeded_def by blast
  then show "schema_ok t" using ok by (simp add: schema_defs seeds_distinct seeds_ids le_supI1)
qed

lemma seeded_tables:
  "seeded s t \<Longrightarrow> api_tokens t = api_tokens s \<and> notification_deliveries t = notification_deliveries s"
  by (auto simp: seeded_def)

text \<open>
  C20: The default rules come back at every start.  A successful run of the migrations keeps every rule
  there is, with its settings, and inserts the default rules whose ids are missing, those an
  operator has deleted among them; it changes no other table, and a second run inserts nothing.
\<close>

theorem restart_revives_seed_rules:
  assumes "Migrate s = (Inr (), t)" and "Migrate t = (Inr (), u)"
  shows "(\<exists>now. alert_rules t = alert_rules s @ filter (\<lambda>r. ru_ID r \<notin> ru_ID ` set (alert_rules s)) (seed_rules now)) \<and>
    {''rule-cpu-high'', ''rule-mem-high'', ''rule-disk-high'', ''rule-agent-offline''} \<subseteq> ru_ID ` set (alert_rules t) \<and>
    t = s\<lparr>clock_pos := clock_pos t, fault_pos := fault_pos t, alert_rules := alert_rules t\<rparr> \<and>
    alert_rules u = alert_rules t"
proof (intro conjI)
  obtain n m now where t: "t = s\<lparr>clock_pos := n, fault_pos := m, alert_rules := fold insert_missing (seed_rules now) (alert_rules s)\<rparr>"
    using Migrate_result(2) [OF assms(1) refl] unfolding seeded_def by blast
  show "\<exists>now. alert_rules t = alert_rules s @ filter (\<lambda>r. ru_ID r \<notin> ru_ID ` set (alert_rules s)) (seed_rules now)"
    by (rule exI [of _ now]) (simp add: t seeds_all)
  show ids: "{''rule-cpu-high'', ''rule-mem-high'', ''rule-disk-high'', ''rule-agent-offline''} \<subseteq> ru_ID ` set (alert_rules t)"
    using seeds_ids [of now "alert_rules s"] by (simp add: t seed_id_set)
  show "t = s\<lparr>clock_pos := clock_pos t, fault_pos := fault_pos t, alert_rules := alert_rules t\<rparr>" by (simp add: t)
  obtain n' m' later where
    "u = t\<lparr>clock_pos := n', fault_pos := m', alert_rules := fold insert_missing (seed_rules later) (alert_rules t)\<rparr>"
    using Migrate_result(2) [OF assms(2) refl] unfolding seeded_def by blast
  then have "alert_rules u = fold insert_missing (seed_rules later) (alert_rules t)" by simp
  moreover have "filter (\<lambda>r. ru_ID r \<notin> ru_ID ` set (alert_rules t)) (seed_rules later) = []"
    using ids unfolding seed_id_set [of later, symmetric] by (simp add: filter_empty_conv subset_iff)
  ultimately show "alert_rules u = alert_rules t" by (simp add: seeds_all)
qed

section \<open>The server main starts\<close>

lemma Connect_result:
  assumes "Connect dr url s = ((Inr config, shut), t)"
  shows "\<not> shut \<and> seeded s t \<and> pc_MaxConns config = 10 \<and> pc_MinConns config = 2"
proof -
  obtain b u where ping: "db_Ping s = (b, u)" by fastforce
  obtain res v where run: "Migrate u = (res, v)" by fastforce
  obtain parsed where p: "dr_ParseConfig dr url = Inr parsed"
    using assms by (cases "dr_ParseConfig dr url") (simp_all add: Connect_def)
  have "b \<and> res = Inr () \<and> t = v \<and> \<not> shut \<and> pc_MaxConns config = 10 \<and> pc_MinConns config = 2"
    using assms unfolding Connect_def p ping run
    by (cases "dr_NewWithConfig dr (parsed\<lparr>pc_MaxConns := 10, pc_MinConns := 2, pc_MaxConnLifetime := time_Hour,
          pc_MaxConnIdleTime := 30 * time_Minute\<rparr>)"; cases b; cases res) (auto simp: run)
  moreover have "untouched s u" using ping by (auto simp: untouched_def db_Ping_def next_fault_def)
  ultimately show ?thesis using Migrate_result(2) [OF run] seeded_untouched(2) [of s u t] by simp
qed

text \<open>
  C19: What main starts is a safe server.  When main gets as far as listening, the database URL was
  set, the server is New of the configuration that was loaded, and every state it reaches, from a
  database whose tables satisfy the schema, keeps the schema and the tokens and has no panic.
\<close>

theorem main_starts_safe:
  assumes "main_start dr os_Getenv s = (Some (v, ss), e)"
    and "schema_ok s" and "tokens_ok s" and "list_all (row_ok 3) (notification_deliveries s)"
    and "(fine_step x F (srv_retention v))\<^sup>*\<^sup>* ss ss'"
  shows "cf_DatabaseURL (Load os_Getenv) \<noteq> '''' \<and> v = New (Load os_Getenv) \<and> server_start (Load os_Getenv) ss \<and>
    \<not> queue_panic (ss_env ss') \<and> \<not> sy_panic (ss_hub ss') \<and> schema_ok (ss_env ss') \<and> tokens_ok (ss_env ss')"
proof -
  let ?cfg = "Load os_Getenv"
  obtain config shut s1 where c: "Connect dr (cf_DatabaseURL ?cfg) s = ((Inr config, shut), s1)"
      and n: "cf_DatabaseURL ?cfg \<noteq> ''''" and v: "v = New ?cfg"
      and ss: "ss = \<lparr>ss_limiter = fst (New_state ?cfg s1), ss_env = snd (New_state ?cfg s1), ss_flight = [], ss_offers = [], ss_hub = hub_start\<rparr>"
    using assms(1) by (auto simp: main_start_def Let_def split: sum.splits prod.splits if_splits)
  have seeded: "seeded s s1" using Connect_result [OF c] by simp
  have tables: "schema_ok s1" "tokens_ok s1" "notification_deliveries s1 = notification_deliveries s"
    using seeded_schema [OF seeded] seeded_tables [OF seeded] assms(2,3) by (simp_all add: tokens_ok_def)
  then have "schema_ok (snd (New_state ?cfg s1))" "tokens_ok (snd (New_state ?cfg s1))"
    by (simp_all add: New_state_def schema_defs tokens_ok_def)
  then have start: "server_start ?cfg ss"
    using assms(4) tables(3) by (auto simp: server_start_def ss New_state_def)
  have "server_inv ss'" by (rule server_machine.reachable_inv [OF start assms(5)])
  then have "\<not> queue_panic (ss_env ss') \<and> \<not> sy_panic (ss_hub ss') \<and> schema_ok (ss_env ss') \<and> tokens_ok (ss_env ss')"
    by (auto simp: server_inv_def base_inv_def queue_ok_def conns_inv_def hub_view_def)
  with n v start show ?thesis by blast
qed

section \<open>A first start\<close>

definition demo_driver :: driver where
  "demo_driver = \<lparr>dr_ParseConfig = (\<lambda>_. Inr \<lparr>pc_MaxConns = 4, pc_MinConns = 0, pc_MaxConnLifetime = 0, pc_MaxConnIdleTime = 0\<rparr>),
     dr_NewWithConfig = (\<lambda>_. None)\<rparr>"

definition demo_getenv :: getenv where
  "demo_getenv k = (if k = ''DATABASE_URL'' then ''postgres://db'' else '''')"

definition migrated :: "telemetry_env \<Rightarrow> telemetry_env" where
  "migrated s = snd (Migrate s)"

lemma demo_migrates: "reliable s \<Longrightarrow> Migrate s = (Inr (), migrated s)"
  by (simp add: migrated_def Migrate_runs migration_contents db_run_reliable [where s = "_\<lparr>alert_rules := _\<rparr>"]
      db_run_reliable create_tables_def seed_alert_rules_def time_Now_def reliable_def)

lemma demo_reliable: "reliable demo_db" "reliable (migrated demo_db)"
  by (simp_all add: reliable_def migrated_def Migrate_runs migration_contents db_run_reliable create_tables_def
      seed_alert_rules_def time_Now_def demo_db_def telemetry_start_def)

text \<open>The table held the first default rule only, as if the other three had been deleted.\<close>

theorem restart_revives_seed_rules_witness:
  "{''rule-cpu-high'', ''rule-mem-high'', ''rule-disk-high'', ''rule-agent-offline''} \<subseteq> ru_ID ` set (alert_rules (migrated demo_db)) \<and>
   map ru_ID (alert_rules demo_db) = [''rule-cpu-high'']"
  using restart_revives_seed_rules [OF demo_migrates demo_migrates, OF demo_reliable]
  by (auto simp: demo_db_def demo_rule_def)

definition demo_started :: "unit server_sys" where
  "demo_started =
     (case New_state (Load demo_getenv) (migrated (demo_db\<lparr>fault_pos := 1\<rparr>)) of
        (rl, e) \<Rightarrow> \<lparr>ss_limiter = rl, ss_env = e, ss_flight = [], ss_offers = [], ss_hub = hub_start\<rparr>)"

lemma demo_main: "main_start demo_driver demo_getenv demo_db = (Some (New (Load demo_getenv), demo_started), ss_env demo_started)"
proof -
  have "cf_DatabaseURL (Load demo_getenv) \<noteq> ''''" by (simp add: Load_def or_default_def demo_getenv_def)
  moreover have "db_Ping demo_db = (True, demo_db\<lparr>fault_pos := 1\<rparr>)"
    by (simp add: db_Ping_def next_fault_def demo_db_def telemetry_start_def)
  moreover have "Migrate (demo_db\<lparr>fault_pos := 1\<rparr>) = (Inr (), migrated (demo_db\<lparr>fault_pos := 1\<rparr>))"
    by (rule demo_migrates) (simp add: demo_reliable)
  ultimately show ?thesis
    by (simp add: main_start_def Connect_def demo_driver_def demo_started_def New_state_def Let_def)
qed

theorem main_starts_safe_witness:
  "server_start (Load demo_getenv) demo_started \<and> schema_ok (ss_env demo_started)"
proof -
  have "schema_ok demo_db" "tokens_ok demo_db" "list_all (row_ok 3) (notification_deliveries demo_db)"
    using demo_server_start by (simp_all add: server_start_def demo_server_def New_state_def schema_defs tokens_ok_def)
  from main_starts_safe [OF demo_main this rtranclp.rtrancl_refl] show ?thesis by blast
qed

end
